(* ===== verification/Defuse_Prelude.thy ===== *)
theory Defuse_Prelude
  imports Main "HOL-Library.Word" "HOL-Library.Sublist" "HOL-Library.Multiset"
begin

text \<open>
  Shared vocabulary of the development: the fixed-width integers of the C code, the outcome of a C
  function (a value, undefined behaviour, or leaving the process), array accesses that are
  checked against the array's length, the error numbers the sources name, the process
  environment that external code may change, and the generic lemmas the components use.
\<close>

unbundle bit_operations_syntax

named_theorems c_simps \<open>evaluation of C outcomes, array accesses and error numbers\<close>

section \<open>Machine integers and bytes\<close>

type_synonym u8 = "8 word"
type_synonym u16 = "16 word"
type_synonym u32 = "32 word"
type_synonym u64 = "64 word"
type_synonym bytes = "u8 list"

text \<open>Conversion of an \<open>int64_t\<close>-like value to the 32-bit \<open>int\<close> a function returns.\<close>

definition to_c_int :: "int \<Rightarrow> int" where
  "to_c_int x = (x + 2 ^ 31) mod 2 ^ 32 - 2 ^ 31"

lemma to_c_int_id: "- (2 ^ 31) \<le> x \<Longrightarrow> x < 2 ^ 31 \<Longrightarrow> to_c_int x = x"
  by (simp add: to_c_int_def)

lemma to_c_int_range: "- (2 ^ 31) \<le> to_c_int x" "to_c_int x < 2 ^ 31"
  by (simp_all add: to_c_int_def)

section \<open>Outcomes of C functions\<close>

text \<open>
  A call returns a value, runs into undefined behaviour (or a failed assertion or an endless loop; the
  value says which), or ends the process
  (\<^verbatim>\<open>print_error_and_exit\<close>).
\<close>

datatype ub = Out_Of_Bounds | Null_Deref | Use_After_Free | Uninitialised | Unterminated
  | Assertion_Failed | Diverges | Bad_Shift | Division_By_Zero

datatype 'a cres = Ret 'a | Undef ub | Exited

fun cbind :: "'a cres \<Rightarrow> ('a \<Rightarrow> 'b cres) \<Rightarrow> 'b cres" where
  "cbind (Ret x) f = f x"
| "cbind (Undef u) f = Undef u"
| "cbind Exited f = Exited"

fun cmap :: "('a \<Rightarrow> 'b) \<Rightarrow> 'a cres \<Rightarrow> 'b cres" where
  "cmap f (Ret x) = Ret (f x)"
| "cmap f (Undef u) = Undef u"
| "cmap f Exited = Exited"

lemma cbind_Ret_iff [c_simps]: "cbind m f = Ret y \<longleftrightarrow> (\<exists>x. m = Ret x \<and> f x = Ret y)"
  by (cases m) auto

lemma cbind_cong [fundef_cong]:
  "m = m' \<Longrightarrow> (\<And>x. m' = Ret x \<Longrightarrow> f x = f' x) \<Longrightarrow> cbind m f = cbind m' f'"
  by (cases m') auto

lemma cbind_assoc: "cbind (cbind m f) g = cbind m (\<lambda>x. cbind (f x) g)"
  by (cases m) auto

lemma cbind_Ret_right [simp]: "cbind m Ret = m"
  by (cases m) auto

lemma cmap_Ret_iff: "cmap f m = Ret y \<longleftrightarrow> (\<exists>x. m = Ret x \<and> y = f x)"
  by (cases m) auto

section \<open>Data refinement\<close>

text \<open>
  The interface between a component with state and what it promises: an invariant, an abstraction
  function, and for each operation the result and the abstract state it must produce. A run of
  operations then never leaves the defined behaviour and computes what the abstract run does.
\<close>

fun run_steps :: "('op \<Rightarrow> 's \<Rightarrow> ('r \<times> 's) cres) \<Rightarrow> 'op list \<Rightarrow> 's \<Rightarrow> ('r list \<times> 's) cres" where
  "run_steps step [] s = Ret ([], s)"
| "run_steps step (x # xs) s =
     cbind (step x s) (\<lambda>(r, s1). cmap (\<lambda>(rs, s2). (r # rs, s2)) (run_steps step xs s1))"

fun run_spec :: "('op \<Rightarrow> 'a \<Rightarrow> 'r \<times> 'a) \<Rightarrow> 'op list \<Rightarrow> 'a \<Rightarrow> 'r list \<times> 'a" where
  "run_spec spec [] a = ([], a)"
| "run_spec spec (x # xs) a =
     (case spec x a of (r, a1) \<Rightarrow> (case run_spec spec xs a1 of (rs, a2) \<Rightarrow> (r # rs, a2)))"

text \<open>
  The relational form: the abstract state need not be a function of the concrete one, and whether an operation may be called can
  depend on the abstract state.
\<close>

fun run_ok :: "('op \<Rightarrow> 'a \<Rightarrow> bool) \<Rightarrow> ('op \<Rightarrow> 'a \<Rightarrow> 'r \<times> 'a) \<Rightarrow> 'op list \<Rightarrow> 'a \<Rightarrow> bool" where
  "run_ok ok spec [] a \<longleftrightarrow> True"
| "run_ok ok spec (x # xs) a \<longleftrightarrow> ok x a \<and> run_ok ok spec xs (snd (spec x a))"

locale simulation =
  fixes rel :: "'a \<Rightarrow> 's \<Rightarrow> bool"
    and ok :: "'op \<Rightarrow> 'a \<Rightarrow> bool"
    and step :: "'op \<Rightarrow> 's \<Rightarrow> ('r \<times> 's) cres"
    and spec :: "'op \<Rightarrow> 'a \<Rightarrow> 'r \<times> 'a"
  assumes step_sim: "rel a s \<Longrightarrow> ok x a \<Longrightarrow> \<exists>s'. step x s = Ret (fst (spec x a), s') \<and> rel (snd (spec x a)) s'"
begin

lemma run_sim:
  "rel a s \<Longrightarrow> run_ok ok spec xs a \<Longrightarrow>
    \<exists>s'. run_steps step xs s = Ret (fst (run_spec spec xs a), s') \<and> rel (snd (run_spec spec xs a)) s'"
proof (induction xs arbitrary: a s)
  case Nil
  then show ?case by simp
next
  case (Cons x xs)
  then obtain s1 where s1: "step x s = Ret (fst (spec x a), s1)" "rel (snd (spec x a)) s1"
    using step_sim [of a s x] by auto
  with Cons.IH [of "snd (spec x a)" s1] Cons.prems obtain s2 where
    "run_steps step xs s1 = Ret (fst (run_spec spec xs (snd (spec x a))), s2)" "rel (snd (run_spec spec xs (snd (spec x a)))) s2"
    by auto
  with s1 show ?case by (auto simp: split_beta)
qed

end

locale data_refinement =
  fixes invar :: "'s \<Rightarrow> bool"
    and abst :: "'s \<Rightarrow> 'a"
    and valid :: "'op \<Rightarrow> bool"
    and step :: "'op \<Rightarrow> 's \<Rightarrow> ('r \<times> 's) cres"
    and spec :: "'op \<Rightarrow> 'a \<Rightarrow> 'r \<times> 'a"
  assumes step_law: "invar s \<Longrightarrow> valid x \<Longrightarrow>
    \<exists>s'. step x s = Ret (fst (spec x (abst s)), s') \<and> invar s' \<and> abst s' = snd (spec x (abst s))"

sublocale data_refinement \<subseteq> sim: simulation "\<lambda>a s. invar s \<and> abst s = a" "\<lambda>x _. valid x" step spec
  using step_law by unfold_locales auto

context data_refinement
begin

lemma run_law:
  "invar s \<Longrightarrow> list_all valid xs \<Longrightarrow>
    \<exists>s'. run_steps step xs s = Ret (fst (run_spec spec xs (abst s)), s') \<and>
         invar s' \<and> abst s' = snd (run_spec spec xs (abst s))"
proof -
  have "run_ok (\<lambda>x _. valid x) spec xs a" if "list_all valid xs" for a
    using that by (induction xs arbitrary: a) auto
  then show "invar s \<Longrightarrow> list_all valid xs \<Longrightarrow> ?thesis"
    using sim.run_sim [where a = "abst s" and s = s and xs = xs] by auto
qed

lemma run_never_undefined:
  assumes "invar s" and "list_all valid xs"
  shows "\<exists>rs s'. run_steps step xs s = Ret (rs, s') \<and> length rs = length xs"
proof -
  have "length (fst (run_spec spec xs a)) = length xs" for a
    by (induction xs arbitrary: a) (auto simp: split_beta)
  with run_law [OF assms] show ?thesis
    by auto
qed

end

section \<open>Arrays\<close>

definition arr_get :: "'a list \<Rightarrow> int \<Rightarrow> 'a cres" where
  "arr_get xs i = (if 0 \<le> i \<and> i < int (length xs) then Ret (xs ! nat i) else Undef Out_Of_Bounds)"

definition arr_set :: "'a list \<Rightarrow> int \<Rightarrow> 'a \<Rightarrow> 'a list cres" where
  "arr_set xs i v =
     (if 0 \<le> i \<and> i < int (length xs) then Ret (xs[nat i := v]) else Undef Out_Of_Bounds)"

lemma arr_get_in [simp]: "0 \<le> i \<Longrightarrow> i < int (length xs) \<Longrightarrow> arr_get xs i = Ret (xs ! nat i)"
  by (simp add: arr_get_def)

lemma arr_set_in [simp]: "0 \<le> i \<Longrightarrow> i < int (length xs) \<Longrightarrow> arr_set xs i v = Ret (xs[nat i := v])"
  by (simp add: arr_set_def)

lemma arr_get_neg [simp]: "i < 0 \<Longrightarrow> arr_get xs i = Undef Out_Of_Bounds"
  by (simp add: arr_get_def)

lemma arr_set_over [simp]: "int (length xs) \<le> i \<Longrightarrow> arr_set xs i v = Undef Out_Of_Bounds"
  by (simp add: arr_set_def)

text \<open>Overwriting one cell moves one occurrence from the old value to the new one.\<close>

lemma count_mset_update:
  assumes "i < length xs"
  shows "int (count (mset (xs[i := v])) x) =
    int (count (mset xs) x) - of_bool (xs ! i = x) + of_bool (v = x)"
proof -
  have "xs ! i \<in># mset xs"
    using assms by simp
  then have "1 \<le> count (mset xs) (xs ! i)"
    by (simp add: Suc_le_eq del: set_mset_mset)
  with assms show ?thesis
    by (auto simp: mset_update)
qed

section \<open>Error numbers\<close>

text \<open>The values of Linux's \<^verbatim>\<open>errno.h\<close> that the sources name.\<close>

definition EPERM :: int where "EPERM = 1"
definition ENOENT :: int where "ENOENT = 2"
definition EIO :: int where "EIO = 5"
definition ENXIO :: int where "ENXIO = 6"
definition EBADF :: int where "EBADF = 9"
definition EAGAIN :: int where "EAGAIN = 11"
definition ENOMEM :: int where "ENOMEM = 12"
definition EACCES :: int where "EACCES = 13"
definition EEXIST :: int where "EEXIST = 17"
definition EINVAL :: int where "EINVAL = 22"
definition ENOSPC :: int where "ENOSPC = 28"
definition ENOSYS :: int where "ENOSYS = 38"
definition EBADMSG :: int where "EBADMSG = 74"
definition EPROTO :: int where "EPROTO = 71"
definition EPROTONOSUPPORT :: int where "EPROTONOSUPPORT = 93"
definition EBADR :: int where "EBADR = 53"
definition ENOTSUP :: int where "ENOTSUP = 95"
definition ENOTEMPTY :: int where "ENOTEMPTY = 39"
definition ESTALE :: int where "ESTALE = 116"
definition EXDEV :: int where "EXDEV = 18"
definition EOPNOTSUPP :: int where "EOPNOTSUPP = 95"
definition ECONNABORTED :: int where "ECONNABORTED = 103"
definition ENOTCONN :: int where "ENOTCONN = 107"

lemmas errno_defs = EPERM_def ENOENT_def EIO_def ENXIO_def EBADF_def EAGAIN_def ENOMEM_def
  EACCES_def EEXIST_def EINVAL_def ENOSPC_def ENOSYS_def EBADMSG_def EPROTO_def
  EPROTONOSUPPORT_def EBADR_def ENOTSUP_def ENOTEMPTY_def ESTALE_def EXDEV_def EOPNOTSUPP_def
  ECONNABORTED_def ENOTCONN_def

section \<open>The process environment\<close>

text \<open>
  Every external function (a system call, an operation of a file system library) may change
  \<^verbatim>\<open>errno\<close> and the rest of the world; the world is a type parameter.
\<close>

record 'w env =
  errno :: int
  world :: 'w

end
