(* ===== verification/C_Strings.thy ===== *)
theory C_Strings
  imports Defuse_Prelude
begin

text \<open>
  C strings: character buffers of a fixed size, the NUL-terminated string a buffer holds, and the
  functions of \<^verbatim>\<open>string.h\<close> the sources use (\<^verbatim>\<open>strlen\<close>, \<^verbatim>\<open>strstr\<close>, \<^verbatim>\<open>strncpy\<close>, \<^verbatim>\<open>memmove\<close>), with their
  accesses checked against the size of the buffer. Paths as lists of components.
\<close>

named_theorems buf_simps \<open>facts about buffers and the strings they hold\<close>

section \<open>Strings in buffers\<close>

abbreviation NUL :: char where
  "NUL \<equiv> CHR 0x00"

definition cstr :: "string \<Rightarrow> string" where
  "cstr b = takeWhile (\<lambda>c. c \<noteq> NUL) b"

definition c_strlen :: "string \<Rightarrow> nat cres" where
  "c_strlen b = (if NUL \<in> set b then Ret (length (cstr b)) else Undef Unterminated)"

definition strdup :: "string \<Rightarrow> string" where
  "strdup b = cstr b @ [NUL]"

fun strstr :: "string \<Rightarrow> string \<Rightarrow> nat option" where
  "strstr [] w = (if w = [] then Some 0 else None)"
| "strstr (c # s) w = (if prefix w (c # s) then Some 0 else map_option Suc (strstr s w))"

definition memmove :: "string \<Rightarrow> nat \<Rightarrow> nat \<Rightarrow> nat \<Rightarrow> string cres" where
  "memmove b dst src n =
     (if dst + n \<le> length b \<and> src + n \<le> length b
      then Ret (take dst b @ take n (drop src b) @ drop (dst + n) b)
      else Undef Out_Of_Bounds)"

definition strncpy :: "string \<Rightarrow> nat \<Rightarrow> string \<Rightarrow> nat \<Rightarrow> string cres" where
  "strncpy b off src n =
     (if off + n \<le> length b
      then Ret (take off b @ take n (src @ replicate n NUL) @ drop (off + n) b)
      else Undef Out_Of_Bounds)"

definition set_char :: "string \<Rightarrow> nat \<Rightarrow> char \<Rightarrow> string cres" where
  "set_char b i c = (if i < length b then Ret (b[i := c]) else Undef Out_Of_Bounds)"

definition nul_free :: "string \<Rightarrow> bool" where
  "nul_free s \<longleftrightarrow> NUL \<notin> set s"

lemma cstr_nul_free [simp]: "nul_free (cstr b)"
  by (auto simp: nul_free_def cstr_def dest: set_takeWhileD)

lemma nul_free_append [simp]: "nul_free (s @ t) \<longleftrightarrow> nul_free s \<and> nul_free t"
  and nul_free_Cons [simp]: "nul_free (c # s) \<longleftrightarrow> c \<noteq> NUL \<and> nul_free s"
  and nul_free_Nil [simp]: "nul_free []"
  by (auto simp: nul_free_def)

lemma cstr_append [simp]: "nul_free s \<Longrightarrow> cstr (s @ NUL # t) = s"
  by (induction s) (simp_all add: cstr_def)

lemma cstr_id: "nul_free s \<Longrightarrow> cstr s = s"
  by (auto simp: cstr_def nul_free_def takeWhile_eq_all_conv)

lemma cstr_strdup [simp]: "cstr (strdup b) = cstr b"
  by (simp add: strdup_def)

lemma buffer_split:
  assumes "NUL \<in> set b"
  obtains t where "b = cstr b @ NUL # t"
proof -
  have "dropWhile (\<lambda>c. c \<noteq> NUL) b \<noteq> []"
    using assms by (auto simp: dropWhile_eq_Nil_conv)
  moreover from this have "hd (dropWhile (\<lambda>c. c \<noteq> NUL) b) = NUL"
    using hd_dropWhile by blast
  ultimately have "dropWhile (\<lambda>c. c \<noteq> NUL) b = NUL # tl (dropWhile (\<lambda>c. c \<noteq> NUL) b)"
    by (metis list.collapse)
  with that show ?thesis
    unfolding cstr_def by (metis takeWhile_dropWhile_id)
qed

text \<open>A buffer of a given size that holds a given string.\<close>

definition holds :: "string \<Rightarrow> nat \<Rightarrow> string \<Rightarrow> bool" where
  "holds b n s \<longleftrightarrow> length b = n \<and> nul_free s \<and> (\<exists>t. b = s @ NUL # t)"

lemma holdsD:
  assumes "holds b n s"
  shows "length b = n" and "cstr b = s" and "c_strlen b = Ret (length s)" and "length s < n" and "nul_free s"
  using assms by (auto simp: holds_def c_strlen_def)

lemma holds_strdup: "holds (strdup b) (Suc (length (cstr b))) (cstr b)"
  by (simp add: holds_def strdup_def)

lemma holds_strncpy:
  assumes "nul_free s" and "length s < n" and "length b = n"
  shows "\<exists>b'. strncpy b 0 s n = Ret b' \<and> holds b' n s"
proof -
  obtain k where "n - length s = Suc k"
    using assms(2) by (metis Suc_diff_Suc)
  then have "take n (s @ replicate n NUL) = s @ NUL # replicate k NUL" and "n = Suc (length s + k)"
    using assms(2) by (simp_all add: take_replicate)
  with assms show ?thesis
    by (simp add: strncpy_def holds_def)
qed

text \<open>Deleting the characters from \<open>i\<close> to \<open>j\<close> by moving \<open>m\<close> characters down and terminating.\<close>

lemma holds_delete:
  assumes b: "holds b n s" and ij: "i \<le> j" "j \<le> length s" and m: "length s - j \<le> m" "j + m \<le> n"
  shows "\<exists>b'. memmove b i j m = Ret b' \<and>
    (\<exists>b''. set_char b' (length s - (j - i)) NUL = Ret b'' \<and> holds b'' n (take i s @ drop j s))"
proof -
  from b obtain t where t: "b = s @ NUL # t" "length b = n" "nul_free s"
    by (auto simp: holds_def)
  let ?b = "take i b @ take m (drop j b) @ drop (i + m) b"
  have len: "length ?b = n"
    using t(2) ij m by simp
  have i: "take i b = take i s"
    using t(1) ij by simp
  have mid: "take m (drop j b) = drop j s @ take (m - (length s - j)) (NUL # t)"
    using t(1) ij m by simp
  let ?s = "take i s @ drop j s"
  have eq: "?b = ?s @ (take (m - (length s - j)) (NUL # t) @ drop (i + m) b)"
    unfolding i mid by simp
  have ls: "length ?s = length s - (j - i)"
    using ij by simp
  have "length s - (j - i) < n"
    using t(1,2) by auto
  then have lt: "length ?s < length ?b"
    using len ls by simp
  then obtain c r where r: "take (m - (length s - j)) (NUL # t) @ drop (i + m) b = c # r"
    using eq by (cases "take (m - (length s - j)) (NUL # t) @ drop (i + m) b") auto
  then have "?b[length ?s := NUL] = ?s @ NUL # r"
    using eq by (metis list_update_length)
  moreover have "nul_free ?s"
    using t(3) by (auto simp: nul_free_def dest: in_set_takeD in_set_dropD)
  moreover have "memmove b i j m = Ret ?b"
    using t(2) ij m by (simp add: memmove_def)
  moreover have "length (?b[length ?s := NUL]) = n"
    using len by simp
  ultimately show ?thesis
    using lt ls unfolding set_char_def holds_def by auto
qed

section \<open>Searching\<close>

lemma strstr_Some_prefix: "strstr s w = Some i \<Longrightarrow> i + length w \<le> length s \<and> prefix w (drop i s)"
proof (induction s w arbitrary: i rule: strstr.induct)
  case (2 c s w)
  then show ?case
    by (auto split: if_splits dest: prefix_length_le)
qed (simp split: if_splits)

lemma strstr_None: "strstr s w = None \<longleftrightarrow> \<not> sublist w s"
  by (induction s w rule: strstr.induct) (auto simp: sublist_Cons_right)

lemma strstr_zero_iff [simp]: "strstr s w = Some 0 \<longleftrightarrow> prefix w s"
  by (cases s) (auto split: option.splits)

lemma strstr_skip:
  assumes "c \<notin> set s"
  shows "strstr (s @ t) (c # w) = map_option ((+) (length s)) (strstr t (c # w))"
  using assms by (cases "strstr t (c # w)"; induction s) auto

section \<open>Paths as lists of components\<close>

text \<open>An absolute path is its components, each preceded by a slash; the last one may be empty.\<close>

definition join :: "string list \<Rightarrow> string" where
  "join cs = concat (map (\<lambda>c. CHR ''/'' # c) cs)"

definition component :: "string \<Rightarrow> bool" where
  "component c \<longleftrightarrow> CHR ''/'' \<notin> set c \<and> nul_free c"

lemma join_simps [simp]:
  "join [] = []"
  "join (c # cs) = CHR ''/'' # c @ join cs"
  "join (cs @ ds) = join cs @ join ds"
  by (simp_all add: join_def)

lemma join_nul_free: "list_all component cs \<Longrightarrow> nul_free (join cs)"
  by (induction cs) (auto simp: component_def)

lemma join_eq_Nil [simp]: "join cs = [] \<longleftrightarrow> cs = []"
  by (cases cs) auto

lemma prefix_join_slash: "prefix [CHR ''/''] (join cs) \<longleftrightarrow> cs \<noteq> []"
  by (cases cs) auto

lemma prefix_component:
  assumes "CHR ''/'' \<notin> set w" and "CHR ''/'' \<notin> set c"
  shows "prefix (w @ [CHR ''/'']) (c @ join cs) \<longleftrightarrow> c = w \<and> cs \<noteq> []"
  using assms
proof (induction w arbitrary: c)
  case Nil
  then show ?case
    by (cases c) (auto simp: prefix_join_slash)
next
  case (Cons x w)
  then show ?case
  proof (cases c)
    case Nil
    with Cons.prems show ?thesis
      by (cases cs) auto
  next
    case (Cons y ys)
    with Cons.IH [of ys] Cons.prems show ?thesis
      by auto
  qed
qed

text \<open>Where the first component \<open>w\<close> that is not the last one starts.\<close>

lemma strstr_component:
  assumes "CHR ''/'' \<notin> set w" and "CHR ''/'' \<notin> set c"
  shows "strstr (join (c # cs)) (CHR ''/'' # w @ [CHR ''/'']) =
    (if c = w \<and> cs \<noteq> [] then Some 0
     else map_option ((+) (Suc (length c))) (strstr (join cs) (CHR ''/'' # w @ [CHR ''/''])))"
  using prefix_component [OF assms, of cs] strstr_skip [OF assms(2), of "join cs" "w @ [CHR ''/'']"]
  by (cases "strstr (join cs) (CHR ''/'' # w @ [CHR ''/''])") auto

lemma strstr_components:
  assumes "CHR ''/'' \<notin> set w" and "list_all component pre" and "w \<notin> set pre" and "post \<noteq> []"
  shows "strstr (join (pre @ w # post)) (CHR ''/'' # w @ [CHR ''/'']) = Some (length (join pre))"
  using assms(2,3)
proof (induction pre)
  case Nil
  then show ?case
    using strstr_component [OF assms(1) assms(1), of post] assms(4) by simp
next
  case (Cons c pre)
  then have "CHR ''/'' \<notin> set c" "c \<noteq> w" by (auto simp: component_def)
  with strstr_component [OF assms(1), of c "pre @ w # post"] Cons show ?case
    by simp
qed

lemma strstr_no_component:
  assumes "CHR ''/'' \<notin> set w" and "list_all component cs" and "w \<notin> set (butlast cs)"
  shows "strstr (join cs) (CHR ''/'' # w @ [CHR ''/'']) = None"
  using assms(2,3)
proof (induction cs)
  case (Cons c cs)
  then have "CHR ''/'' \<notin> set c" by (auto simp: component_def)
  from strstr_component [OF assms(1) this, of cs] Cons show ?case
    by (auto split: if_splits)
qed simp

lemma first_component:
  assumes "w \<in> set (butlast cs)"
  obtains pre post where "cs = pre @ w # post" and "w \<notin> set pre" and "post \<noteq> []"
proof -
  obtain pre post where "butlast cs = pre @ w # post" "w \<notin> set pre"
    using assms by (meson split_list_first)
  moreover have "cs = butlast cs @ [last cs]"
    using assms by (cases cs rule: rev_cases) auto
  ultimately have "cs = pre @ w # (post @ [last cs])"
    by simp
  with \<open>w \<notin> set pre\<close> that show ?thesis
    by blast
qed

end
