(* ===== verification/External.thy ===== *)
theory External
  imports C_Strings
begin

text \<open>
  The code the sources call but do not contain: the kernel's system calls (as reached through the
  real operations of the C library) and the file-system libraries that \<^verbatim>\<open>dlopen\<close> loads. Both are
  records of functions that the definitions take as arguments. Each function maps its arguments and the
  environment (\<^verbatim>\<open>errno\<close> and a world of any type) to its results and the environment after it, so
  nothing is assumed of it unless a theorem says so.
\<close>

record stat =
  st_size :: int
  st_mode :: u32

section \<open>A file-system library\<close>

text \<open>The function pointers of \<^verbatim>\<open>struct mount_point_data\<close>; \<open>None\<close> is \<^verbatim>\<open>NULL\<close>. Results written through
  pointer arguments are returned beside the return value.\<close>

record 'w usfs =
  usfs_init :: "(string \<Rightarrow> string \<Rightarrow> 'w env \<Rightarrow> 'w env) option"
  usfs_finalize :: "('w env \<Rightarrow> 'w env) option"
  usfs_access :: "(string \<Rightarrow> int \<Rightarrow> 'w env \<Rightarrow> int \<times> 'w env) option"
  usfs_close :: "(u64 \<Rightarrow> 'w env \<Rightarrow> int \<times> 'w env) option"
  usfs_getattr :: "(string \<Rightarrow> int \<Rightarrow> 'w env \<Rightarrow> (int \<times> stat) \<times> 'w env) option"
  usfs_fsync :: "(u64 \<Rightarrow> int \<Rightarrow> 'w env \<Rightarrow> int \<times> 'w env) option"
  usfs_ftruncate :: "(u64 \<Rightarrow> int \<Rightarrow> 'w env \<Rightarrow> int \<times> 'w env) option"
  usfs_truncate :: "(string \<Rightarrow> int \<Rightarrow> 'w env \<Rightarrow> int \<times> 'w env) option"
  usfs_fgetattr :: "(u64 \<Rightarrow> 'w env \<Rightarrow> (int \<times> stat) \<times> 'w env) option"
  usfs_open :: "(string \<Rightarrow> int \<Rightarrow> int \<Rightarrow> 'w env \<Rightarrow> (int \<times> u64) \<times> 'w env) option"
  usfs_read :: "(u64 \<Rightarrow> nat \<Rightarrow> int \<Rightarrow> 'w env \<Rightarrow> (int \<times> string \<times> nat) \<times> 'w env) option"
  usfs_write :: "(u64 \<Rightarrow> string \<Rightarrow> int \<Rightarrow> 'w env \<Rightarrow> (int \<times> nat) \<times> 'w env) option"
  usfs_unlink :: "(string \<Rightarrow> 'w env \<Rightarrow> int \<times> 'w env) option"
  usfs_readlink :: "(string \<Rightarrow> nat \<Rightarrow> 'w env \<Rightarrow> (int \<times> string \<times> nat) \<times> 'w env) option"
  usfs_save :: "(u64 \<Rightarrow> 'w env \<Rightarrow> int \<times> 'w env) option"
  usfs_restore :: "(u64 \<Rightarrow> 'w env \<Rightarrow> int \<times> 'w env) option"

definition usfs_zero :: "'w usfs" where
  "usfs_zero = \<lparr>usfs_init = None, usfs_finalize = None, usfs_access = None, usfs_close = None,
     usfs_getattr = None, usfs_fsync = None, usfs_ftruncate = None, usfs_truncate = None,
     usfs_fgetattr = None, usfs_open = None, usfs_read = None, usfs_write = None,
     usfs_unlink = None, usfs_readlink = None, usfs_save = None, usfs_restore = None\<rparr>"

section \<open>The kernel\<close>

text \<open>
  \<open>k_contents\<close> gives what one-byte reads from a descriptor deliver and whether they end with an
  error rather than at the end of the file. \<open>k_mmap\<close> hands the mapped bytes to the process and \<open>k_munmap\<close>
  gives them back, since stores to a shared mapping reach the file.
\<close>

record 'w kernel =
  k_open :: "string \<Rightarrow> int \<Rightarrow> int \<Rightarrow> 'w env \<Rightarrow> int \<times> 'w env"
  k_close :: "int \<Rightarrow> 'w env \<Rightarrow> int \<times> 'w env"
  k_contents :: "int \<Rightarrow> 'w env \<Rightarrow> string \<times> bool"
  k_lseek :: "int \<Rightarrow> int \<Rightarrow> int \<Rightarrow> 'w env \<Rightarrow> int \<times> 'w env"
  k_setlk :: "int \<Rightarrow> int \<Rightarrow> 'w env \<Rightarrow> int \<times> 'w env"
  k_ftruncate :: "int \<Rightarrow> int \<Rightarrow> 'w env \<Rightarrow> int \<times> 'w env"
  k_mmap :: "int \<Rightarrow> nat \<Rightarrow> 'w env \<Rightarrow> bytes option \<times> 'w env"
  k_munmap :: "bytes \<Rightarrow> nat \<Rightarrow> 'w env \<Rightarrow> int \<times> 'w env"
  k_getpid :: "'w env \<Rightarrow> nat"
  k_getcwd :: "'w env \<Rightarrow> string option"
  k_dlopen :: "string \<Rightarrow> 'w env \<Rightarrow> 'w usfs option \<times> 'w env"
  k_read :: "int \<Rightarrow> nat \<Rightarrow> 'w env \<Rightarrow> (int \<times> string) \<times> 'w env"
  k_write :: "int \<Rightarrow> string \<Rightarrow> 'w env \<Rightarrow> int \<times> 'w env"
  k_access :: "string option \<Rightarrow> int \<Rightarrow> 'w env \<Rightarrow> int \<times> 'w env"
  k_openp :: "string option \<Rightarrow> int \<Rightarrow> int \<Rightarrow> 'w env \<Rightarrow> int \<times> 'w env"
  k_fsync :: "int \<Rightarrow> 'w env \<Rightarrow> int \<times> 'w env"
  k_fdatasync :: "int \<Rightarrow> 'w env \<Rightarrow> int \<times> 'w env"
  k_truncate :: "string option \<Rightarrow> int \<Rightarrow> 'w env \<Rightarrow> int \<times> 'w env"
  k_unlink :: "string option \<Rightarrow> 'w env \<Rightarrow> int \<times> 'w env"
  k_readlink :: "string option \<Rightarrow> nat \<Rightarrow> 'w env \<Rightarrow> (int \<times> string) \<times> 'w env"
  k_xstat :: "int \<Rightarrow> string option \<Rightarrow> 'w env \<Rightarrow> (int \<times> stat) \<times> 'w env"
  k_lxstat :: "int \<Rightarrow> string option \<Rightarrow> 'w env \<Rightarrow> (int \<times> stat) \<times> 'w env"
  k_fxstat :: "int \<Rightarrow> int \<Rightarrow> 'w env \<Rightarrow> (int \<times> stat) \<times> 'w env"
  k_dup :: "int \<Rightarrow> 'w env \<Rightarrow> int \<times> 'w env"
  k_dup3 :: "int \<Rightarrow> int \<Rightarrow> int \<Rightarrow> 'w env \<Rightarrow> int \<times> 'w env"

text \<open>A call through a function pointer.\<close>

fun fptr :: "'f option \<Rightarrow> 'f cres" where
  "fptr None = Undef Null_Deref"
| "fptr (Some f) = Ret f"

section \<open>A concrete instance\<close>

text \<open>A file system and a kernel whose calls all succeed and change nothing, from which examples are made
  by updating single operations.\<close>

definition quiet_usfs :: "'w usfs" where
  "quiet_usfs = \<lparr>usfs_init = Some (\<lambda>m b e. e), usfs_finalize = Some (\<lambda>e. e),
     usfs_access = Some (\<lambda>p m e. (0, e)), usfs_close = Some (\<lambda>h e. (0, e)),
     usfs_getattr = Some (\<lambda>p f e. ((0, \<lparr>st_size = 0, st_mode = 0\<rparr>), e)),
     usfs_fsync = Some (\<lambda>h d e. (0, e)), usfs_ftruncate = Some (\<lambda>h l e. (0, e)),
     usfs_truncate = Some (\<lambda>p l e. (0, e)),
     usfs_fgetattr = Some (\<lambda>h e. ((0, \<lparr>st_size = 0, st_mode = 0\<rparr>), e)),
     usfs_open = Some (\<lambda>p f m e. ((0, 7), e)), usfs_read = Some (\<lambda>h n off e. ((0, [], 0), e)),
     usfs_write = Some (\<lambda>h d off e. ((0, length d), e)), usfs_unlink = Some (\<lambda>p e. (0, e)),
     usfs_readlink = Some (\<lambda>p n e. ((0, [], 0), e)), usfs_save = Some (\<lambda>h e. (0, e)),
     usfs_restore = Some (\<lambda>h e. (0, e))\<rparr>"

definition quiet_kernel :: "'w kernel" where
  "quiet_kernel = \<lparr>k_open = (\<lambda>p f m e. (3, e)), k_close = (\<lambda>fd e. (0, e)),
     k_contents = (\<lambda>fd e. ([], False)), k_lseek = (\<lambda>fd off w e. (off, e)), k_setlk = (\<lambda>fd t e. (0, e)),
     k_ftruncate = (\<lambda>fd l e. (0, e)), k_mmap = (\<lambda>fd n e. (Some (replicate n 0), e)),
     k_munmap = (\<lambda>b n e. (0, e)), k_getpid = (\<lambda>e. 1), k_getcwd = (\<lambda>e. Some ''/''),
     k_dlopen = (\<lambda>l e. (Some quiet_usfs, e)), k_read = (\<lambda>fd n e. ((0, []), e)),
     k_write = (\<lambda>fd d e. (int (length d), e)), k_access = (\<lambda>p m e. (0, e)),
     k_openp = (\<lambda>p f m e. (3, e)), k_fsync = (\<lambda>fd e. (0, e)), k_fdatasync = (\<lambda>fd e. (0, e)),
     k_truncate = (\<lambda>p l e. (0, e)), k_unlink = (\<lambda>p e. (0, e)), k_readlink = (\<lambda>p n e. ((0, []), e)),
     k_xstat = (\<lambda>v p e. ((0, \<lparr>st_size = 0, st_mode = 0\<rparr>), e)),
     k_lxstat = (\<lambda>v p e. ((0, \<lparr>st_size = 0, st_mode = 0\<rparr>), e)),
     k_fxstat = (\<lambda>v fd e. ((0, \<lparr>st_size = 0, st_mode = 0\<rparr>), e)),
     k_dup = (\<lambda>fd e. (fd + 1, e)), k_dup3 = (\<lambda>a b f e. (b, e))\<rparr>"

end
