(* ===== verification/Mount_Points.thy ===== *)
theory Mount_Points
  imports External
begin

text \<open>
  \<^verbatim>\<open>libdefuse/mount_points.c\<close>: reading \<^verbatim>\<open>/proc/mounts\<close>, loading the library of each defuse mount, and
  finding the mount a path belongs to. (Restoring saved handles, which \<^verbatim>\<open>load_mounts\<close> does at the end, is
  in the theory of the process.)
\<close>

section \<open>Data\<close>

record 'w mount_point_data =
  index :: int
  mount_path :: string
  backend_path :: string
  library_path :: string
  ops :: "'w usfs"

definition MAX_MOUNTS :: nat where
  "MAX_MOUNTS = 16"

text \<open>\<^verbatim>\<open>struct mount_point_array\<close>: the loaded mounts; their number is \<^verbatim>\<open>length\<close>.\<close>

type_synonym 'w mount_point_array = "'w mount_point_data list"

section \<open>Loading a library\<close>

text \<open>The macro \<^verbatim>\<open>LOAD_TARGET\<close>: \<open>obj\<close> is the object pointer, \<open>symbol\<close> the symbol as \<^verbatim>\<open>dlsym\<close> finds it.\<close>

definition LOAD_TARGET :: "'f option \<Rightarrow> ('f option \<Rightarrow> 'w usfs \<Rightarrow> 'w usfs) \<Rightarrow> bool \<Rightarrow>
    'w usfs option \<Rightarrow> 'w usfs option" where
  "LOAD_TARGET symbol target required obj =
     (case obj of
        None \<Rightarrow> None
      | Some t \<Rightarrow>
          (case symbol of
             Some f \<Rightarrow> Some (target (Some f) t)
           | None \<Rightarrow> if required then None else Some (target None t)))"

definition load_targets :: "'w usfs \<Rightarrow> 'w usfs option \<Rightarrow> 'w usfs option" where
  "load_targets h rv =
     (let rv = LOAD_TARGET (usfs_init h) (\<lambda>f t. t\<lparr>usfs_init := f\<rparr>) False rv;
          rv = LOAD_TARGET (usfs_finalize h) (\<lambda>f t. t\<lparr>usfs_finalize := f\<rparr>) False rv;
          rv = LOAD_TARGET (usfs_open h) (\<lambda>f t. t\<lparr>usfs_open := f\<rparr>) True rv;
          rv = LOAD_TARGET (usfs_close h) (\<lambda>f t. t\<lparr>usfs_close := f\<rparr>) True rv;
          rv = LOAD_TARGET (usfs_read h) (\<lambda>f t. t\<lparr>usfs_read := f\<rparr>) True rv;
          rv = LOAD_TARGET (usfs_write h) (\<lambda>f t. t\<lparr>usfs_write := f\<rparr>) True rv;
          rv = LOAD_TARGET (usfs_fsync h) (\<lambda>f t. t\<lparr>usfs_fsync := f\<rparr>) True rv;
          rv = LOAD_TARGET (usfs_ftruncate h) (\<lambda>f t. t\<lparr>usfs_ftruncate := f\<rparr>) True rv;
          rv = LOAD_TARGET (usfs_truncate h) (\<lambda>f t. t\<lparr>usfs_truncate := f\<rparr>) True rv;
          rv = LOAD_TARGET (usfs_fgetattr h) (\<lambda>f t. t\<lparr>usfs_fgetattr := f\<rparr>) True rv;
          rv = LOAD_TARGET (usfs_getattr h) (\<lambda>f t. t\<lparr>usfs_getattr := f\<rparr>) True rv;
          rv = LOAD_TARGET (usfs_readlink h) (\<lambda>f t. t\<lparr>usfs_readlink := f\<rparr>) True rv;
          rv = LOAD_TARGET (usfs_unlink h) (\<lambda>f t. t\<lparr>usfs_unlink := f\<rparr>) True rv;
          rv = LOAD_TARGET (usfs_save h) (\<lambda>f t. t\<lparr>usfs_save := f\<rparr>) False rv;
          rv = LOAD_TARGET (usfs_restore h) (\<lambda>f t. t\<lparr>usfs_restore := f\<rparr>) False rv
      in LOAD_TARGET (usfs_access h) (\<lambda>f t. t\<lparr>usfs_access := f\<rparr>) True rv)"

definition load_mount :: "'w kernel \<Rightarrow> string \<Rightarrow> string \<Rightarrow> string \<Rightarrow> 'w env \<Rightarrow>
    'w mount_point_data option \<times> 'w env" where
  "load_mount k mp backend library e =
     (case k_dlopen k library e of
        (None, e1) \<Rightarrow> (None, e1)
      | (Some h, e1) \<Rightarrow>
          (case load_targets h (Some usfs_zero) of
             None \<Rightarrow> (None, e1)
           | Some t \<Rightarrow>
               (Some \<lparr>index = 0, mount_path = mp, backend_path = backend, library_path = library, ops = t\<rparr>,
                (case usfs_init t of None \<Rightarrow> e1 | Some f \<Rightarrow> f mp backend e1))))"

section \<open>Reading the table of mounts\<close>

text \<open>
  \<^verbatim>\<open>read_line\<close>: one-byte reads into a buffer of \<open>n\<close> characters. The result is the return value, what
  the buffer holds from its start, and the input not yet read.
\<close>

fun read_line_loop :: "nat \<Rightarrow> string \<Rightarrow> bool \<Rightarrow> string \<Rightarrow> int \<times> string \<times> string" where
  "read_line_loop 0 buf err inp = (int (length buf), buf, inp)"
| "read_line_loop (Suc n) buf err [] = ((if err then - 1 else 0), buf, [])"
| "read_line_loop (Suc n) buf err (c # inp) =
     (if c = CHR 0x0A then (int (length buf), buf @ [NUL], inp)
      else read_line_loop n (buf @ [c]) err inp)"

definition read_line :: "nat \<Rightarrow> bool \<Rightarrow> string \<Rightarrow> int \<times> string \<times> string" where
  "read_line n err inp = read_line_loop n [] err inp"

definition isspace :: "char \<Rightarrow> bool" where
  "isspace c \<longleftrightarrow> c \<in> {CHR '' '', CHR 0x09, CHR 0x0A, CHR 0x0B, CHR 0x0C, CHR 0x0D}"

text \<open>\<^verbatim>\<open>sscanf(buffer, "defuse %s", mount_point)\<close> on a string that starts with \<^verbatim>\<open>defuse\<close>.\<close>

definition scan_mount_point :: "string \<Rightarrow> string option" where
  "scan_mount_point s =
     (let tok = takeWhile (\<lambda>c. \<not> isspace c) (dropWhile isspace (drop 6 s)) in
      if tok = [] then None else Some tok)"

text \<open>
  The test \<^verbatim>\<open>(p = strstr(buffer, key)) == NULL || sscanf(p, key "%[^, ]", var) == 0\<close>: the outcome is
  failure (\<open>None\<close>) or the new value of \<open>var\<close>, which stays as it was when \<^verbatim>\<open>sscanf\<close> meets the end of the
  string and returns \<^verbatim>\<open>EOF\<close>.
\<close>

definition scan_option :: "string \<Rightarrow> string \<Rightarrow> string option \<Rightarrow> string option option" where
  "scan_option key s var =
     (case strstr s key of
        None \<Rightarrow> None
      | Some i \<Rightarrow>
          (let rest = drop (i + length key) s;
               tok = takeWhile (\<lambda>c. c \<noteq> CHR '','' \<and> c \<noteq> CHR '' '') rest in
           if tok \<noteq> [] then Some (Some tok)
           else if rest = [] then Some var
           else None))"

text \<open>The local variables that survive from line to line, and the array being filled.\<close>

record 'w load_state =
  backend :: "string option"
  library :: "string option"
  mounts :: "'w mount_point_array"
  lenv :: "'w env"

definition load_line :: "'w kernel \<Rightarrow> int \<Rightarrow> string \<Rightarrow> 'w load_state \<Rightarrow> 'w load_state cres" where
  "load_line k rv buffer s =
     (if rv > 6 \<and> take 6 buffer = ''defuse'' then
        if NUL \<notin> set buffer then Undef Unterminated
        else
          (case scan_mount_point (cstr buffer) of
             None \<Rightarrow> Exited
           | Some mount_point \<Rightarrow>
          (case scan_option ''backend='' (cstr buffer) (backend s) of
             None \<Rightarrow> Exited
           | Some b \<Rightarrow>
          (case scan_option ''library='' (cstr buffer) (library s) of
             None \<Rightarrow> Exited
           | Some l \<Rightarrow>
          (case (b, l) of
             (Some bv, Some lv) \<Rightarrow>
               (case load_mount k mount_point bv lv (lenv s) of
                  (None, e1) \<Rightarrow> Exited
                | (Some mp, e1) \<Rightarrow>
                    if length (mounts s) < MAX_MOUNTS then
                      Ret \<lparr>backend = b, library = l,
                           mounts = mounts s @ [mp\<lparr>index := int (length (mounts s))\<rparr>], lenv = e1\<rparr>
                    else Undef Out_Of_Bounds)
           | _ \<Rightarrow> Undef Uninitialised))))
      else Ret s)"

lemma read_line_loop_rest: "read_line_loop n buf err inp = (rv, line, rest) \<Longrightarrow> length rest \<le> length inp"
  by (induction n buf err inp rule: read_line_loop.induct) (auto split: if_splits)

lemma read_line_consumes:
  "read_line n err inp = (rv, line, rest) \<Longrightarrow> 0 < rv \<Longrightarrow> length rest < length inp"
  by (cases n; cases inp) (auto simp: read_line_def split: if_splits dest: read_line_loop_rest)

function load_lines :: "'w kernel \<Rightarrow> bool \<Rightarrow> string \<Rightarrow> 'w load_state \<Rightarrow> 'w load_state cres" where
  "load_lines k err inp s =
     (case read_line 512 err inp of
        (rv, buffer, rest) \<Rightarrow>
          if rv > 0 then cbind (load_line k rv buffer s) (\<lambda>s1. load_lines k err rest s1)
          else Ret s)"
  by pat_completeness auto
termination
  by (relation "measure (\<lambda>(k, err, inp, s). length inp)")
    (auto dest: read_line_consumes [OF sym])

declare load_lines.simps [simp del]

definition load_mounts_from_file :: "'w kernel \<Rightarrow> string \<Rightarrow> 'w env \<Rightarrow> ('w mount_point_array \<times> 'w env) cres" where
  "load_mounts_from_file k file e =
     (case k_open k file 0 0 e of
        (mounts_fd, e1) \<Rightarrow>
          if mounts_fd < 0 then Exited
          else
            (case k_contents k mounts_fd e1 of
               (inp, err) \<Rightarrow>
                 cmap (\<lambda>s. (mounts s, snd (k_close k mounts_fd (lenv s))))
                   (load_lines k err inp \<lparr>backend = None, library = None, mounts = [], lenv = e1\<rparr>)))"

section \<open>Finding the mount of a path\<close>

text \<open>
  \<^verbatim>\<open>find_mount_and_strip_path\<close> works in the buffer \<open>path\<close>, \<open>None\<close> when the pointer is \<^verbatim>\<open>NULL\<close>; the result is the
  position of the mount and the buffer after the call.
\<close>

definition strip_mount :: "string \<Rightarrow> string \<Rightarrow> string cres" where
  "strip_mount path mp =
     (let mount_len = length mp; path_len = length (cstr path) in
      cbind (memmove path 0 mount_len (path_len - mount_len)) (\<lambda>path1.
      cbind (set_char path1 (path_len - mount_len) NUL) (\<lambda>path2.
      if path2 ! 0 = NUL then
        cbind (set_char path2 0 CHR ''/'') (\<lambda>path3. set_char path3 1 NUL)
      else Ret path2)))"

fun find_mount_loop :: "'w mount_point_array \<Rightarrow> nat \<Rightarrow> string \<Rightarrow> (nat option \<times> string) cres" where
  "find_mount_loop [] i path = Ret (None, path)"
| "find_mount_loop (m # ms) i path =
     (if NUL \<notin> set path then Undef Unterminated
      else if strstr (cstr path) (mount_path m) = Some 0 \<and> length (cstr path) > 1 then
        cmap (\<lambda>path'. (Some i, path')) (strip_mount path (mount_path m))
      else find_mount_loop ms (Suc i) path)"

definition find_mount_and_strip_path :: "'w mount_point_array \<Rightarrow> string option \<Rightarrow>
    (nat option \<times> string option) cres" where
  "find_mount_and_strip_path ms path =
     (case path of
        None \<Rightarrow> if ms = [] then Ret (None, None) else Undef Null_Deref
      | Some b \<Rightarrow> cmap (\<lambda>(i, b'). (i, Some b')) (find_mount_loop ms 0 b))"

fun find_mount_from_path_loop :: "'w mount_point_array \<Rightarrow> nat \<Rightarrow> string \<Rightarrow> nat option" where
  "find_mount_from_path_loop [] i path = None"
| "find_mount_from_path_loop (m # ms) i path =
     (if strstr path (mount_path m) = Some 0 then Some i
      else find_mount_from_path_loop ms (Suc i) path)"

definition find_mount_from_path :: "'w mount_point_array \<Rightarrow> string \<Rightarrow> nat option" where
  "find_mount_from_path ms path = find_mount_from_path_loop ms 0 path"

section \<open>Loading a library is all or nothing\<close>

definition usfs_complete :: "'w usfs \<Rightarrow> bool" where
  "usfs_complete t \<longleftrightarrow> usfs_open t \<noteq> None \<and> usfs_close t \<noteq> None \<and> usfs_read t \<noteq> None \<and>
     usfs_write t \<noteq> None \<and> usfs_fsync t \<noteq> None \<and> usfs_ftruncate t \<noteq> None \<and> usfs_truncate t \<noteq> None \<and>
     usfs_fgetattr t \<noteq> None \<and> usfs_getattr t \<noteq> None \<and> usfs_readlink t \<noteq> None \<and>
     usfs_unlink t \<noteq> None \<and> usfs_access t \<noteq> None"

lemma LOAD_TARGET_simps [simp]:
  "LOAD_TARGET symbol target required None = None"
  "LOAD_TARGET symbol target True (Some t) = (if symbol = None then None else Some (target symbol t))"
  "LOAD_TARGET symbol target False (Some t) = Some (target symbol t)"
  by (auto simp: LOAD_TARGET_def split: option.splits)

lemma load_targets_all: "load_targets h (Some usfs_zero) = (if usfs_complete h then Some h else None)"
proof (cases "usfs_complete h")
  case True
  then show ?thesis
    by (cases h) (simp add: load_targets_def usfs_complete_def usfs_zero_def)
next
  case False
  then show ?thesis
    by (auto simp: load_targets_def usfs_complete_def)
qed

lemma load_mount_eq:
  "load_mount k mp b l e =
     (case k_dlopen k l e of
        (None, e1) \<Rightarrow> (None, e1)
      | (Some h, e1) \<Rightarrow>
          if usfs_complete h then
            (Some \<lparr>index = 0, mount_path = mp, backend_path = b, library_path = l, ops = h\<rparr>,
             (case usfs_init h of None \<Rightarrow> e1 | Some f \<Rightarrow> f mp b e1))
          else (None, e1))"
  by (auto simp: load_mount_def load_targets_all split: prod.splits option.splits)

section \<open>The first mount whose path is a prefix\<close>

lemma find_mount_from_path_loop_Some:
  "find_mount_from_path_loop ms i s = Some j \<longleftrightarrow>
     i \<le> j \<and> j - i < length ms \<and> prefix (mount_path (ms ! (j - i))) s \<and>
     (\<forall>m \<in> set (take (j - i) ms). \<not> prefix (mount_path m) s)"
proof (induction ms arbitrary: i)
  case (Cons m ms)
  show ?case
  proof (cases "i < j")
    case True
    then obtain d where "j - i = Suc d" "j - Suc i = d"
      by (metis Suc_diff_Suc)
    with Cons [of "Suc i"] True show ?thesis
      by auto
  next
    case False
    with Cons [of "Suc i"] show ?thesis
      by (auto simp: not_less)
  qed
qed simp

lemma find_mount_from_path_loop_None:
  "find_mount_from_path_loop ms i s = None \<longleftrightarrow> (\<forall>m \<in> set ms. \<not> prefix (mount_path m) s)"
  by (induction ms arbitrary: i) auto

definition stripped :: "string \<Rightarrow> string \<Rightarrow> string" where
  "stripped mp s = (if s = mp then ''/'' else drop (length mp) s)"

lemma strip_mount_correct:
  assumes h: "holds b n s" and p: "prefix mp s" and l: "1 < length s"
  shows "\<exists>b'. strip_mount b mp = Ret b' \<and> holds b' n (stripped mp s)"
proof -
  have len: "length mp \<le> length s" "length s < n" "length b = n"
    using p h by (auto simp: holdsD prefix_length_le)
  obtain b1 b2 where b: "memmove b 0 (length mp) (length s - length mp) = Ret b1"
      "set_char b1 (length s - length mp) NUL = Ret b2" "holds b2 n (drop (length mp) s)"
    using holds_delete [OF h, of 0 "length mp" "length s - length mp"] len by auto
  have nth: "b2 ! 0 = NUL \<longleftrightarrow> drop (length mp) s = []"
  proof -
    obtain t where t: "b2 = drop (length mp) s @ NUL # t" "nul_free (drop (length mp) s)"
      using b(3) by (auto simp: holds_def)
    then show ?thesis
      by (cases "drop (length mp) s") auto
  qed
  show ?thesis
  proof (cases "drop (length mp) s = []")
    case False
    with b nth show ?thesis
      by (auto simp: strip_mount_def stripped_def holdsD(2) [OF h])
  next
    case True
    then have "s = mp"
      using p by (auto simp: prefix_def)
    obtain x y t where "b2 = x # y # t" "length t + 2 = n"
      using b(3) len l by (auto simp: holds_def \<open>s = mp\<close> neq_Nil_conv)
        (metis One_nat_def Suc_less_eq Suc_pred list.exhaust list.size(3) not_less_zero add_2_eq_Suc' length_Cons less_Suc0)
    then have xy: "set_char b2 0 CHR ''/'' = Ret (CHR ''/'' # y # t)"
        "set_char (CHR ''/'' # y # t) 1 NUL = Ret (CHR ''/'' # NUL # t)" "length t + 2 = n"
      by (simp_all add: set_char_def)
    have "strip_mount b mp = Ret (CHR ''/'' # NUL # t)"
      using b(1,2) nth True xy(1,2) holdsD(2) [OF h] by (simp add: strip_mount_def Let_def)
    with xy(3) \<open>s = mp\<close> show ?thesis
      by (auto simp: stripped_def holds_def)
  qed
qed

lemma find_mount_loop_correct:
  assumes h: "holds b n s" and l: "1 < length s"
  shows "find_mount_from_path_loop ms i s = None \<Longrightarrow> find_mount_loop ms i b = Ret (None, b)"
    and "find_mount_from_path_loop ms i s = Some j \<Longrightarrow>
      \<exists>b'. find_mount_loop ms i b = Ret (Some j, b') \<and> holds b' n (stripped (mount_path (ms ! (j - i))) s)"
proof -
  have nul: "NUL \<in> set b" and c: "cstr b = s"
    using h by (auto simp: holds_def)
  show "find_mount_from_path_loop ms i s = None \<Longrightarrow> find_mount_loop ms i b = Ret (None, b)"
    using nul c l by (induction ms arbitrary: i) (auto split: if_splits)
  show "find_mount_from_path_loop ms i s = Some j \<Longrightarrow>
      \<exists>b'. find_mount_loop ms i b = Ret (Some j, b') \<and> holds b' n (stripped (mount_path (ms ! (j - i))) s)"
  proof (induction ms arbitrary: i)
    case (Cons m ms)
    show ?case
    proof (cases "prefix (mount_path m) s")
      case True
      then show ?thesis
        using Cons.prems strip_mount_correct [OF h True l] nul c l by auto
    next
      case False
      then have rec: "find_mount_from_path_loop ms (Suc i) s = Some j"
        using Cons.prems by simp
      then have "Suc i \<le> j"
        using find_mount_from_path_loop_Some by blast
      then have "(m # ms) ! (j - i) = ms ! (j - Suc i)"
        by (metis Suc_diff_le diff_Suc_Suc nth_Cons_Suc)
      then show ?thesis
        using Cons.IH [OF rec] False nul c by simp
    qed
  qed simp
qed

section \<open>Reading a printed table of mounts\<close>

lemma prefix_marker:
  "c \<notin> set w \<Longrightarrow> c \<notin> set u \<Longrightarrow> prefix (w @ [c]) (u @ c # t) \<longleftrightarrow> w = u"
proof (induction w arbitrary: u)
  case Nil
  then show ?case by (cases u) auto
next
  case (Cons x w)
  then show ?case by (cases u) auto
qed

text \<open>Searching \<open>w\<close> followed by the marker \<open>c\<close> in a string whose first \<open>c\<close> comes after \<open>u\<close>.\<close>

lemma strstr_marker:
  assumes "c \<notin> set w"
  shows "c \<notin> set u \<Longrightarrow> strstr (u @ c # t) (w @ [c]) =
    (if suffix w u then Some (length u - length w)
     else map_option ((+) (Suc (length u))) (strstr t (w @ [c])))"
proof (induction u)
  case Nil
  then show ?case
    using prefix_marker [OF assms, of "[]" t] by (cases "strstr t (w @ [c])") auto
next
  case (Cons d u)
  have p: "prefix (w @ [c]) (d # u @ c # t) \<longleftrightarrow> w = d # u"
    using prefix_marker [OF assms, of "d # u" t] Cons.prems by simp
  show ?case
  proof (cases "w = d # u")
    case False
    with p Cons show ?thesis
      by (cases "strstr t (w @ [c])") (auto simp: suffix_Cons Suc_diff_le suffix_length_le)
  qed (use p in simp)
qed

definition mount_line :: "string \<Rightarrow> string \<Rightarrow> string \<Rightarrow> string" where
  "mount_line mp b l =
     ''defuse '' @ mp @ '' defuse rw,backend='' @ b @ '',library='' @ l @ '' 0 0''"

definition mount_word :: "string \<Rightarrow> bool" where
  "mount_word s \<longleftrightarrow> s \<noteq> [] \<and> (\<forall>c \<in> set s. \<not> isspace c \<and> c \<noteq> CHR '','' \<and> c \<noteq> CHR ''='' \<and> c \<noteq> NUL)"

lemma mount_wordD:
  assumes "mount_word s"
  shows "s \<noteq> []" "CHR ''='' \<notin> set s" "CHR '','' \<notin> set s" "CHR '' '' \<notin> set s" "NUL \<notin> set s" "CHR 0x0A \<notin> set s"
    "\<forall>c \<in> set s. \<not> isspace c"
  using assms unfolding mount_word_def isspace_def by blast+

lemma takeWhile_option:
  assumes "mount_word s" and "d = CHR '','' \<or> d = CHR '' ''"
  shows "takeWhile (\<lambda>c. c \<noteq> CHR '','' \<and> c \<noteq> CHR '' '') (s @ d # r) = s"
proof -
  have "takeWhile (\<lambda>c. c \<noteq> CHR '','' \<and> c \<noteq> CHR '' '') (s @ d # r) =
      s @ takeWhile (\<lambda>c. c \<noteq> CHR '','' \<and> c \<noteq> CHR '' '') (d # r)"
    using mount_wordD(3,4) [OF assms(1)] by (intro takeWhile_append2) metis
  then show ?thesis
    using assms(2) by auto
qed

lemma scan_option_here:
  assumes "CHR ''='' \<notin> set w" and "CHR ''='' \<notin> set u" and "suffix w u" and "mount_word s"
    and "d = CHR '','' \<or> d = CHR '' ''"
  shows "scan_option (w @ ''='') (u @ CHR ''='' # s @ d # r) v = Some (Some s)"
proof -
  have "drop (length u - length w + Suc (length w)) (u @ CHR ''='' # s @ d # r) = s @ d # r"
    using suffix_length_le [OF assms(3)] by simp
  with strstr_marker [OF assms(1,2), of "s @ d # r"] takeWhile_option [OF assms(4,5), of r] show ?thesis
    using assms(3) mount_wordD(1) [OF assms(4)] by (simp add: scan_option_def)
qed

lemma scan_option_later:
  assumes "CHR ''='' \<notin> set w" and "CHR ''='' \<notin> set u" and "\<not> suffix w u"
  shows "scan_option (w @ ''='') (u @ CHR ''='' # t) v = scan_option (w @ ''='') t v"
proof -
  have "drop (Suc (length u) + i + length (w @ ''='')) (u @ CHR ''='' # t) = drop (i + length (w @ ''='')) t" for i
    by (simp add: add.commute add.left_commute)
  then show ?thesis
    using strstr_marker [OF assms(1,2), of t] assms(3)
    by (auto simp: scan_option_def split: option.splits)
qed

lemma scan_mount_line:
  assumes "mount_word mp" and "mount_word b" and "mount_word l"
  shows "scan_mount_point (mount_line mp b l) = Some mp"
    and "scan_option ''backend='' (mount_line mp b l) v = Some (Some b)"
    and "scan_option ''library='' (mount_line mp b l) v = Some (Some l)"
    and "nul_free (mount_line mp b l)" and "CHR 0x0A \<notin> set (mount_line mp b l)"
proof -
  have sp: "isspace CHR '' ''" by (simp add: isspace_def)
  obtain x xs where x: "mp = x # xs" "\<not> isspace x" "\<forall>c \<in> set mp. \<not> isspace c"
    using assms(1) by (cases mp) (auto simp: mount_word_def)
  then show "scan_mount_point (mount_line mp b l) = Some mp"
    using sp by (simp add: scan_mount_point_def mount_line_def takeWhile_append)
  let ?u = "''defuse '' @ mp @ '' defuse rw,backend''" and ?t = "b @ '',library='' @ l @ '' 0 0''"
  have ml: "mount_line mp b l = ?u @ CHR ''='' # ?t" "?t = (b @ '',library'') @ CHR ''='' # l @ CHR '' '' # ''0 0''"
    by (simp_all add: mount_line_def)
  have nu: "CHR ''='' \<notin> set ?u" "CHR ''='' \<notin> set (b @ '',library'')"
    using mount_wordD(2) [OF assms(1)] mount_wordD(2) [OF assms(2)] by simp_all
  have "suffix ''backend'' ?u"
    unfolding suffix_def by (rule exI [of _ "''defuse '' @ mp @ '' defuse rw,''"]) simp
  then show "scan_option ''backend='' (mount_line mp b l) v = Some (Some b)"
    using scan_option_here [of "''backend''" ?u b "CHR '',''" "''library='' @ l @ '' 0 0''" v] nu(1) assms(2)
    unfolding ml(1) by simp
  have "last ?u \<noteq> last ''library''" by simp
  then have "\<not> suffix ''library'' ?u"
    unfolding suffix_def by (metis last_appendR list.distinct(1))
  moreover have "suffix ''library'' (b @ '',library'')"
    unfolding suffix_def by (rule exI [of _ "b @ '',''"]) simp
  ultimately show "scan_option ''library='' (mount_line mp b l) v = Some (Some l)"
    using scan_option_later [of "''library''" ?u ?t v] nu assms(3)
      scan_option_here [of "''library''" "b @ '',library''" l "CHR '' ''" "''0 0''" v]
    unfolding ml(1) unfolding ml(2) by simp
  show "nul_free (mount_line mp b l)" "CHR 0x0A \<notin> set (mount_line mp b l)"
    using mount_wordD(5,6) [OF assms(1)] mount_wordD(5,6) [OF assms(2)] mount_wordD(5,6) [OF assms(3)]
    by (simp_all add: mount_line_def nul_free_def)
qed

text \<open>A line of the table: a defuse mount, or a mount of another type.\<close>

datatype mount_entry = Defuse_Entry string string string | Other_Entry string

fun print_entry :: "mount_entry \<Rightarrow> string" where
  "print_entry (Defuse_Entry mp b l) = mount_line mp b l"
| "print_entry (Other_Entry s) = s"

fun entry_ok :: "mount_entry \<Rightarrow> bool" where
  "entry_ok (Defuse_Entry mp b l) =
     (mount_word mp \<and> mount_word b \<and> mount_word l \<and> length (mount_line mp b l) < 512)"
| "entry_ok (Other_Entry s) =
     (s \<noteq> [] \<and> length s < 512 \<and> CHR 0x0A \<notin> set s \<and> take 6 s \<noteq> ''defuse'')"

definition print_table :: "mount_entry list \<Rightarrow> string" where
  "print_table es = concat (map (\<lambda>x. print_entry x @ [CHR 0x0A]) es)"

text \<open>What loading a table should do: load each defuse mount in order and number it.\<close>

fun load_entries :: "'w kernel \<Rightarrow> mount_entry list \<Rightarrow> 'w mount_point_array \<Rightarrow> 'w env \<Rightarrow>
    ('w mount_point_array \<times> 'w env) option" where
  "load_entries k [] ms e = Some (ms, e)"
| "load_entries k (Other_Entry s # es) ms e = load_entries k es ms e"
| "load_entries k (Defuse_Entry mp b l # es) ms e =
     (case load_mount k mp b l e of
        (None, e1) \<Rightarrow> None
      | (Some m, e1) \<Rightarrow> load_entries k es (ms @ [m\<lparr>index := int (length ms)\<rparr>]) e1)"

definition is_defuse :: "mount_entry \<Rightarrow> bool" where
  "is_defuse x \<longleftrightarrow> (case x of Defuse_Entry mp b l \<Rightarrow> True | Other_Entry s \<Rightarrow> False)"

lemma is_defuse_simps [simp]: "is_defuse (Defuse_Entry mp b l)" "\<not> is_defuse (Other_Entry s)"
  by (simp_all add: is_defuse_def)

lemma read_line_loop_line:
  "length line < n \<Longrightarrow> CHR 0x0A \<notin> set line \<Longrightarrow>
    read_line_loop n buf err (line @ CHR 0x0A # rest) =
      (int (length buf + length line), buf @ line @ [NUL], rest)"
proof (induction line arbitrary: n buf)
  case Nil
  then show ?case by (cases n) auto
next
  case (Cons c line)
  then show ?case by (cases n) auto
qed

lemma read_line_line:
  "length line < 512 \<Longrightarrow> CHR 0x0A \<notin> set line \<Longrightarrow>
    read_line 512 err (line @ CHR 0x0A # rest) = (int (length line), line @ [NUL], rest)"
  by (simp add: read_line_def read_line_loop_line)

lemma load_lines_table:
  assumes "list_all entry_ok es" and "length (mounts s) + length (filter is_defuse es) \<le> MAX_MOUNTS"
  shows "cmap (\<lambda>s'. (mounts s', lenv s')) (load_lines k err (print_table es) s) =
    (case load_entries k es (mounts s) (lenv s) of None \<Rightarrow> Exited | Some r \<Rightarrow> Ret r)"
  using assms
proof (induction es arbitrary: s)
  case Nil
  then show ?case
    by (simp add: load_lines.simps print_table_def read_line_def eval_nat_numeral)
next
  case (Cons x es)
  have pt: "print_table (x # es) = print_entry x @ CHR 0x0A # print_table es"
    by (simp add: print_table_def)
  show ?case
  proof (cases x)
    case (Other_Entry t)
    have "read_line 512 err (print_table (x # es)) = (int (length t), t @ [NUL], print_table es)"
      using read_line_line [of t] Cons.prems(1) Other_Entry unfolding pt by simp
    moreover have "load_line k (int (length t)) (t @ [NUL]) s = Ret s"
      using Cons.prems(1) Other_Entry by (cases "6 < length t") (simp_all add: load_line_def)
    moreover have "t \<noteq> []" using Cons.prems(1) Other_Entry by simp
    ultimately show ?thesis
      using Cons Other_Entry by (subst load_lines.simps) simp
  next
    case (Defuse_Entry mp b l)
    let ?t = "mount_line mp b l"
    have w: "mount_word mp" "mount_word b" "mount_word l" "length ?t < 512"
      using Cons.prems(1) Defuse_Entry by simp_all
    note sc = scan_mount_line [OF w(1-3)]
    have rl: "read_line 512 err (print_table (x # es)) = (int (length ?t), ?t @ [NUL], print_table es)"
      using read_line_line [OF w(4) sc(5)] Defuse_Entry unfolding pt by simp
    have t: "take 6 ?t = ''defuse''" "6 < length ?t" "?t \<noteq> []"
      by (simp_all add: mount_line_def)
    have c: "cstr (?t @ [NUL]) = ?t"
      using sc(4) by simp
    obtain o1 e1 where lm: "load_mount k mp b l (lenv s) = (o1, e1)"
      by fastforce
    show ?thesis
    proof (cases o1)
      case None
      then have "load_line k (int (length ?t)) (?t @ [NUL]) s = Exited"
        using t sc(1-3) c lm by (simp add: load_line_def)
      then show ?thesis
        using rl t lm None Defuse_Entry by (subst load_lines.simps) simp
    next
      case (Some m)
      let ?s = "\<lparr>backend = Some b, library = Some l,
        mounts = mounts s @ [m\<lparr>index := int (length (mounts s))\<rparr>], lenv = e1\<rparr>"
      have "load_line k (int (length ?t)) (?t @ [NUL]) s = Ret ?s"
        using t sc(1-3) c lm Some Cons.prems(2) Defuse_Entry by (simp add: load_line_def)
      moreover have "length (mounts ?s) + length (filter is_defuse es) \<le> MAX_MOUNTS"
        using Cons.prems(2) Defuse_Entry by simp
      ultimately show ?thesis
        using rl t lm Some Defuse_Entry Cons.IH [of ?s] Cons.prems(1) by (subst load_lines.simps) simp
    qed
  qed
qed

section \<open>Properties\<close>

text \<open>
  C6. Reading back a printed mount table: for a table of at most \<^verbatim>\<open>MAX_MOUNTS\<close> defuse mounts (lines shorter
  than the buffer, words without separators) between any other non-empty lines, \<^verbatim>\<open>load_mounts_from_file\<close>
  loads exactly the defuse mounts of the table with their mount point, backend and library, in order
  and numbered from 0, and exits if one of the libraries cannot be loaded.
\<close>

theorem load_mounts_reads_table:
  assumes "list_all entry_ok es" and "length (filter is_defuse es) \<le> MAX_MOUNTS"
    and "k_open k file 0 0 e = (fd, e1)" and "0 \<le> fd" and "k_contents k fd e1 = (print_table es, err)"
  shows "load_mounts_from_file k file e =
    (case load_entries k es [] e1 of
       None \<Rightarrow> Exited
     | Some (ms, e2) \<Rightarrow> Ret (ms, snd (k_close k fd e2)))"
proof -
  let ?s = "\<lparr>backend = None, library = None, mounts = [], lenv = e1\<rparr>"
  have "cmap (\<lambda>s'. (mounts s', lenv s')) (load_lines k err (print_table es) ?s) =
      (case load_entries k es [] e1 of None \<Rightarrow> Exited | Some r \<Rightarrow> Ret r)"
    using load_lines_table [OF assms(1), of ?s k err] assms(2) by simp
  then show ?thesis
    using assms(3-5)
    by (cases "load_lines k err (print_table es) ?s")
      (auto simp: load_mounts_from_file_def split: option.splits)
qed

theorem load_mounts_reads_table_witness:
  "map (\<lambda>m. (index m, mount_path m, backend_path m, library_path m))
     (case load_mounts_from_file
        (quiet_kernel\<lparr>k_contents := \<lambda>fd e. (print_table
           [Other_Entry ''proc /proc proc rw 0 0'', Defuse_Entry ''/mnt/a'' ''/data'' ''liba.so'',
            Defuse_Entry ''/mnt/b'' ''/srv'' ''libb.so''], False)\<rparr>)
        ''/proc/mounts'' \<lparr>errno = 0, world = ()\<rparr> of Ret (ms, e) \<Rightarrow> ms | _ \<Rightarrow> []) =
   [(0, ''/mnt/a'', ''/data'', ''liba.so''), (1, ''/mnt/b'', ''/srv'', ''libb.so'')]"
proof -
  let ?es = "[Other_Entry ''proc /proc proc rw 0 0'', Defuse_Entry ''/mnt/a'' ''/data'' ''liba.so'',
            Defuse_Entry ''/mnt/b'' ''/srv'' ''libb.so'']"
  let ?k = "quiet_kernel\<lparr>k_contents := \<lambda>fd e. (print_table ?es, False)\<rparr> :: unit kernel"
  have "list_all entry_ok ?es"
    by (simp add: mount_word_def mount_line_def isspace_def)
  from load_mounts_reads_table [OF this, of ?k "''/proc/mounts''" "\<lparr>errno = 0, world = ()\<rparr>" 3
      "\<lparr>errno = 0, world = ()\<rparr>" False]
  show ?thesis
    by (simp add: MAX_MOUNTS_def quiet_kernel_def load_mount_eq usfs_complete_def quiet_usfs_def)
qed

text \<open>
  C35. A mount that \<^verbatim>\<open>load_mount\<close> returns has every required function of its library (the twelve that
  \<^verbatim>\<open>LOAD_TARGET\<close> marks as required), so no later call through them dereferences \<^verbatim>\<open>NULL\<close>; its function table is
  exactly that of the library, and \<^verbatim>\<open>load_mount\<close> fails only when \<^verbatim>\<open>dlopen\<close> does or a required function is missing.
\<close>

theorem load_mount_complete:
  "(\<forall>m e1. load_mount k mp b l e = (Some m, e1) \<longrightarrow>
      usfs_complete (ops m) \<and> fst (k_dlopen k l e) = Some (ops m) \<and> mount_path m = mp \<and>
      backend_path m = b \<and> library_path m = l) \<and>
   (fst (load_mount k mp b l e) = None \<longleftrightarrow>
      (case fst (k_dlopen k l e) of None \<Rightarrow> True | Some h \<Rightarrow> \<not> usfs_complete h))"
  unfolding load_mount_eq by (cases "k_dlopen k l e"; cases "fst (k_dlopen k l e)") auto

theorem load_mount_complete_witness:
  "\<exists>m e1. load_mount quiet_kernel ''/m'' ''/b'' ''l.so'' \<lparr>errno = 0, world = ()\<rparr> = (Some m, e1) \<and>
    usfs_complete (ops m)"
proof -
  obtain m e1 where m: "load_mount quiet_kernel ''/m'' ''/b'' ''l.so'' \<lparr>errno = 0, world = ()\<rparr> = (Some m, e1)"
    by (simp add: load_mount_eq quiet_kernel_def quiet_usfs_def usfs_complete_def)
  with load_mount_complete [of quiet_kernel "''/m''" "''/b''" "''l.so''" "\<lparr>errno = 0, world = ()\<rparr>"]
  show ?thesis
    by blast
qed

text \<open>
  C30. On a path of at least two characters, \<^verbatim>\<open>find_mount_and_strip_path\<close> leaves a path that no mount path
  is a prefix of unchanged; otherwise it finds the first mount in array order whose path is a prefix, and
  leaves in the buffer what follows the mount path, or \<^verbatim>\<open>/\<close> when nothing follows. It never leaves
  the buffer.
\<close>

theorem find_mount_first_prefix:
  assumes "nul_free s" and "1 < length s"
  shows "((\<forall>m \<in> set ms. \<not> prefix (mount_path m) s) \<longrightarrow>
      find_mount_and_strip_path ms (Some (strdup s)) = Ret (None, Some (strdup s))) \<and>
    (\<forall>j < length ms. prefix (mount_path (ms ! j)) s \<longrightarrow> (\<forall>m \<in> set (take j ms). \<not> prefix (mount_path m) s) \<longrightarrow>
      (\<exists>path. find_mount_and_strip_path ms (Some (strdup s)) = Ret (Some j, Some path) \<and>
         length path = length s + 1 \<and>
         cstr path = (if s = mount_path (ms ! j) then ''/'' else drop (length (mount_path (ms ! j))) s)))"
proof (intro conjI impI allI)
  have h: "holds (strdup s) (Suc (length s)) s"
    using holds_strdup [of s] assms(1) by (simp add: cstr_id)
  note c = find_mount_loop_correct [OF h assms(2), of ms 0]
  show "find_mount_and_strip_path ms (Some (strdup s)) = Ret (None, Some (strdup s))"
    if "\<forall>m \<in> set ms. \<not> prefix (mount_path m) s"
    using c(1) that by (simp add: find_mount_and_strip_path_def find_mount_from_path_loop_None)
  fix j assume j: "j < length ms" "prefix (mount_path (ms ! j)) s"
    "\<forall>m \<in> set (take j ms). \<not> prefix (mount_path m) s"
  then obtain b' where "find_mount_loop ms 0 (strdup s) = Ret (Some j, b')"
      "holds b' (Suc (length s)) (stripped (mount_path (ms ! j)) s)"
    using c(2) [of j] find_mount_from_path_loop_Some [of ms 0 s j] by auto
  then show "\<exists>path. find_mount_and_strip_path ms (Some (strdup s)) = Ret (Some j, Some path) \<and>
         length path = length s + 1 \<and>
         cstr path = (if s = mount_path (ms ! j) then ''/'' else drop (length (mount_path (ms ! j))) s)"
    by (auto simp: find_mount_and_strip_path_def holdsD stripped_def)
qed

definition sample_mount :: "string \<Rightarrow> 'w mount_point_data" where
  "sample_mount p = \<lparr>index = 0, mount_path = p, backend_path = ''/'', library_path = ''l.so'', ops = quiet_usfs\<rparr>"

theorem find_mount_first_prefix_witness:
  "\<exists>path. find_mount_and_strip_path [sample_mount ''/mnt/b'', sample_mount ''/mnt/a'' :: unit mount_point_data]
      (Some (strdup ''/mnt/a/f'')) = Ret (Some 1, Some path) \<and> cstr path = ''/f''"
  using find_mount_first_prefix [of "''/mnt/a/f''"
      "[sample_mount ''/mnt/b'', sample_mount ''/mnt/a'' :: unit mount_point_data]"]
  by (fastforce simp: sample_mount_def)

text \<open>
  The prefix test ignores component boundaries: with one mount at \<^verbatim>\<open>/mnt/a\<close>, the path \<^verbatim>\<open>/mnt/abc\<close>, which
  is outside of the mount, is taken to be the file \<^verbatim>\<open>bc\<close> of that mount.
\<close>

theorem find_mount_ignores_boundary:
  "\<exists>path. find_mount_and_strip_path [sample_mount ''/mnt/a'' :: 'w mount_point_data]
      (Some (strdup ''/mnt/abc'')) = Ret (Some 0, Some path) \<and> cstr path = ''bc''"
  by (simp add: find_mount_and_strip_path_def sample_mount_def strdup_def cstr_def strip_mount_def memmove_def
      set_char_def)

text \<open>
  The array of mounts has no bound check: a seventeenth defuse mount is stored outside of it.
\<close>

theorem seventeenth_mount_out_of_bounds:
  assumes "length (mounts s) = MAX_MOUNTS" and "mount_word mp" and "mount_word b" and "mount_word l"
    and "fst (load_mount k mp b l (lenv s)) \<noteq> None"
  shows "load_line k (int (length (mount_line mp b l))) (mount_line mp b l @ [NUL]) s = Undef Out_Of_Bounds"
proof -
  have t: "take 6 (mount_line mp b l) = ''defuse''" "6 < length (mount_line mp b l)"
    by (simp_all add: mount_line_def)
  note sc = scan_mount_line [OF assms(2-4)]
  have "cstr (mount_line mp b l @ [NUL]) = mount_line mp b l"
    using sc(4) by simp
  moreover obtain m e1 where "load_mount k mp b l (lenv s) = (Some m, e1)"
    using assms(5) by (cases "load_mount k mp b l (lenv s)") auto
  ultimately show ?thesis
    using t sc(1-3) assms(1) by (simp add: load_line_def)
qed

theorem seventeenth_mount_out_of_bounds_witness:
  "load_line quiet_kernel (int (length (mount_line ''/q'' ''/b'' ''l''))) (mount_line ''/q'' ''/b'' ''l'' @ [NUL])
     \<lparr>backend = None, library = None, mounts = replicate 16 (sample_mount ''/m''),
      lenv = \<lparr>errno = 0, world = ()\<rparr>\<rparr> = Undef Out_Of_Bounds"
  using seventeenth_mount_out_of_bounds [of
      "\<lparr>backend = None, library = None, mounts = replicate 16 (sample_mount ''/m''),
        lenv = \<lparr>errno = 0, world = ()\<rparr>\<rparr>" "''/q''" "''/b''" "''l''" quiet_kernel]
  by (simp add: MAX_MOUNTS_def mount_word_def isspace_def load_mount_eq quiet_kernel_def quiet_usfs_def
      usfs_complete_def)

text \<open>
  An option list that ends with \<^verbatim>\<open>backend=\<close> passes the check for a missing backend: \<^verbatim>\<open>sscanf\<close> returns \<^verbatim>\<open>EOF\<close>,
  not 0, and the variable keeps the value of an earlier line or is read uninitialised.
\<close>

theorem trailing_backend_uninitialised:
  "load_line k (int (length ''defuse /m defuse library=l,backend=''))
     (''defuse /m defuse library=l,backend='' @ [NUL])
     \<lparr>backend = None, library = None, mounts = ms, lenv = e\<rparr> = Undef Uninitialised"
  by (simp add: load_line_def scan_mount_point_def scan_option_def isspace_def cstr_def)
end
