(* ===== verification/File_Handles.thy ===== *)
theory File_Handles
  imports Defuse_Prelude
begin

text \<open>
  The descriptor table of \<^verbatim>\<open>libdefuse/file_handles.c\<close> (and the variant of
  \<^verbatim>\<open>musl/src/defuse/file_handles.c\<close>). The table holds pointers: two descriptors that were
  duplicated share one reference-counted node, so the model has an explicit heap of nodes.
  Addresses are natural numbers, \<open>None\<close> is \<^verbatim>\<open>NULL\<close>, and a freed node is absent from the heap.
  \<^verbatim>\<open>malloc\<close> always succeeds here. A mount pointer is the position of the mount in the mount array
  of \<^verbatim>\<open>mount_points.c\<close>, where every mount pointer of the program points.
\<close>

named_theorems fht_defs \<open>definitions of the descriptor table operations\<close>

section \<open>The table\<close>

definition MAX_FILES :: int where
  "MAX_FILES = 1024"

lemma MAX_FILES_pos [simp]: "0 < MAX_FILES" "0 \<le> MAX_FILES" "int (nat MAX_FILES) = MAX_FILES"
  by (simp_all add: MAX_FILES_def)

record file_handle_data =
  file_handle :: u64
  mount :: nat

record file_handle_data_internal =
  f_data :: file_handle_data
  use_count :: int

record file_handle_meta =
  use_position :: int

record file_handle_table =
  file_handles :: "nat option list"
  file_meta :: "file_handle_meta list"
  used_file_descriptors :: "int list"
  used_file_descriptor_pos :: int

text \<open>The table together with the heap its pointers point into.\<close>

record fh_state =
  fht :: file_handle_table
  fh_heap :: "nat \<rightharpoonup> file_handle_data_internal"
  fh_next :: nat

text \<open>\<^verbatim>\<open>get_instance\<close>: the static table, cleared by \<^verbatim>\<open>memset\<close> on first use.\<close>

definition fht_instance :: file_handle_table where
  "fht_instance =
     \<lparr>file_handles = replicate (nat MAX_FILES) None,
      file_meta = replicate (nat MAX_FILES) \<lparr>use_position = 0\<rparr>,
      used_file_descriptors = replicate (nat MAX_FILES) 0,
      used_file_descriptor_pos = 0\<rparr>"

definition fh_init :: fh_state where
  "fh_init = \<lparr>fht = fht_instance, fh_heap = Map.empty, fh_next = 0\<rparr>"

section \<open>Operations\<close>

definition file_handle_use_count_internal :: "fh_state \<Rightarrow> nat option \<Rightarrow> int cres" where
  "file_handle_use_count_internal s p =
     (case p of
        None \<Rightarrow> Ret 0
      | Some a \<Rightarrow> (case fh_heap s a of None \<Rightarrow> Undef Use_After_Free | Some n \<Rightarrow> Ret (use_count n)))"

definition allocate_file_handle :: "file_handle_data \<Rightarrow> fh_state \<Rightarrow> nat \<times> fh_state" where
  "allocate_file_handle fhd s =
     (fh_next s,
      s\<lparr>fh_heap := (fh_heap s)(fh_next s \<mapsto> \<lparr>f_data = fhd, use_count = 0\<rparr>),
        fh_next := Suc (fh_next s)\<rparr>)"

text \<open>\<open>p->use_count += d\<close>\<close>

definition add_use_count :: "nat option \<Rightarrow> int \<Rightarrow> fh_state \<Rightarrow> fh_state cres" where
  "add_use_count p d s =
     (case p of
        None \<Rightarrow> Undef Null_Deref
      | Some a \<Rightarrow> (case fh_heap s a of
          None \<Rightarrow> Undef Use_After_Free
        | Some n \<Rightarrow> Ret (s\<lparr>fh_heap := (fh_heap s)(a \<mapsto> n\<lparr>use_count := use_count n + d\<rparr>)\<rparr>)))"

definition free_file_handle :: "nat option \<Rightarrow> fh_state \<Rightarrow> fh_state" where
  "free_file_handle p s =
     (case p of None \<Rightarrow> s | Some a \<Rightarrow> s\<lparr>fh_heap := (fh_heap s)(a := None)\<rparr>)"

definition set_file_handle :: "int \<Rightarrow> nat option \<Rightarrow> fh_state \<Rightarrow> fh_state cres" where
  "set_file_handle fd p s =
     cmap (\<lambda>hs. s\<lparr>fht := (fht s)\<lparr>file_handles := hs\<rparr>\<rparr>) (arr_set (file_handles (fht s)) fd p)"

definition link_file_descriptor :: "file_handle_table \<Rightarrow> int \<Rightarrow> file_handle_table cres" where
  "link_file_descriptor t fd =
     cbind (arr_set (file_meta t) fd \<lparr>use_position = used_file_descriptor_pos t\<rparr>) (\<lambda>m.
     cbind (arr_set (used_file_descriptors t) (used_file_descriptor_pos t) fd) (\<lambda>u.
     Ret (t\<lparr>file_meta := m, used_file_descriptors := u,
            used_file_descriptor_pos := used_file_descriptor_pos t + 1\<rparr>)))"

definition unlink_file_descriptor :: "file_handle_table \<Rightarrow> int \<Rightarrow> file_handle_table cres" where
  "unlink_file_descriptor t fd =
     cbind
       (if used_file_descriptor_pos t > 1 then
          cbind (arr_get (file_meta t) fd) (\<lambda>mfd.
          cbind (arr_set (used_file_descriptors t) (use_position mfd) (used_file_descriptor_pos t - 1)) (\<lambda>u.
          cbind (arr_set (file_meta t) (used_file_descriptor_pos t - 1)
                   \<lparr>use_position = use_position mfd\<rparr>) (\<lambda>m.
          Ret (t\<lparr>used_file_descriptors := u, file_meta := m\<rparr>))))
        else Ret t)
       (\<lambda>t1.
     cbind (arr_set (file_handles t1) fd None) (\<lambda>hs.
     Ret (t1\<lparr>used_file_descriptor_pos := used_file_descriptor_pos t1 - 1, file_handles := hs\<rparr>)))"

definition insert_file_handle :: "int \<Rightarrow> file_handle_data \<Rightarrow> fh_state \<Rightarrow> (int \<times> fh_state) cres" where
  "insert_file_handle fd fhd s =
     (if fd \<ge> MAX_FILES then Ret (EBADF, s)
      else
        cbind (arr_get (file_handles (fht s)) fd) (\<lambda>p.
        cbind (file_handle_use_count_internal s p) (\<lambda>c.
        if c > 0 then Ret (EEXIST, s)
        else
          (case allocate_file_handle fhd s of (a, s1) \<Rightarrow>
          cbind (set_file_handle fd (Some a) s1) (\<lambda>s2.
          cbind (add_use_count (Some a) 1 s2) (\<lambda>s3.
          cbind (link_file_descriptor (fht s3) fd) (\<lambda>t.
          Ret (0, s3\<lparr>fht := t\<rparr>))))))))"

definition remove_file_handle :: "int \<Rightarrow> fh_state \<Rightarrow> (int \<times> fh_state) cres" where
  "remove_file_handle fd s =
     (if fd \<ge> MAX_FILES then Ret (EBADF, s)
      else
        cbind (arr_get (file_handles (fht s)) fd) (\<lambda>p.
        cbind (file_handle_use_count_internal s p) (\<lambda>c.
        if c = 0 then Ret (ENOENT, s)
        else
          cbind (add_use_count p (- 1) s) (\<lambda>s1.
          cbind (file_handle_use_count_internal s1 p) (\<lambda>c1.
          let s2 = (if c1 = 0 then free_file_handle p s1 else s1) in
          cbind (unlink_file_descriptor (fht s2) fd) (\<lambda>t.
          Ret (0, s2\<lparr>fht := t\<rparr>)))))))"

definition file_handle_exists :: "int \<Rightarrow> fh_state \<Rightarrow> bool cres" where
  "file_handle_exists fd s =
     (if fd \<ge> MAX_FILES then Ret False
      else
        cbind (arr_get (file_handles (fht s)) fd) (\<lambda>p.
        cmap (\<lambda>c. c > 0) (file_handle_use_count_internal s p)))"

text \<open>The part of \<^verbatim>\<open>find_file_handle\<close> after \<^verbatim>\<open>load_mounts_void\<close>: the pointer it returns is read
  by its callers before the table changes, so the model returns the data it points to.\<close>

definition lookup_file_handle :: "int \<Rightarrow> fh_state \<Rightarrow> file_handle_data option cres" where
  "lookup_file_handle fd s =
     cbind (arr_get (file_handles (fht s)) fd) (\<lambda>p.
     cbind (file_handle_use_count_internal s p) (\<lambda>c.
     if c = 0 then Ret None
     else (case p of
             None \<Rightarrow> Undef Null_Deref
           | Some a \<Rightarrow> (case fh_heap s a of
               None \<Rightarrow> Undef Use_After_Free
             | Some n \<Rightarrow> Ret (Some (f_data n))))))"

text \<open>\<^verbatim>\<open>duplicate_file_handle\<close> of libdefuse: the result is the return value, \<^verbatim>\<open>*oldfhd\<close> (the address
  of the node \<open>fd2\<close> pointed to) and the state.\<close>

definition duplicate_file_handle ::
    "int \<Rightarrow> int \<Rightarrow> fh_state \<Rightarrow> (int \<times> nat option \<times> fh_state) cres" where
  "duplicate_file_handle fd1 fd2 s =
     (if fd1 \<ge> MAX_FILES \<or> fd2 \<ge> MAX_FILES then Ret (EBADF, None, s)
      else
        cbind (arr_get (file_handles (fht s)) fd2) (\<lambda>oldfhd.
        cbind (arr_get (file_handles (fht s)) fd1) (\<lambda>p.
        cbind (file_handle_use_count_internal s p) (\<lambda>c.
        if c > 0 then
          cbind (set_file_handle fd2 p s) (\<lambda>s1.
          cbind (arr_get (file_handles (fht s1)) fd1) (\<lambda>p1.
          cbind (add_use_count p1 1 s1) (\<lambda>s2.
          if oldfhd = None then
            cmap (\<lambda>t. (0, oldfhd, s2\<lparr>fht := t\<rparr>)) (link_file_descriptor (fht s2) fd2)
          else Ret (0, oldfhd, s2))))
        else Ret (0, oldfhd, s)))))"

text \<open>\<^verbatim>\<open>duplicate_file_handle\<close> of the musl variant, which drops the old entry of \<open>fd2\<close> first.\<close>

definition duplicate_file_handle_musl :: "int \<Rightarrow> int \<Rightarrow> fh_state \<Rightarrow> (int \<times> fh_state) cres" where
  "duplicate_file_handle_musl fd1 fd2 s =
     (if fd1 \<ge> MAX_FILES \<or> fd2 \<ge> MAX_FILES then Ret (EBADF, s)
      else
        cbind (arr_get (file_handles (fht s)) fd2) (\<lambda>p2.
        cbind (if p2 \<noteq> None then cmap snd (remove_file_handle fd2 s) else Ret s) (\<lambda>s0.
        cbind (arr_get (file_handles (fht s0)) fd1) (\<lambda>p.
        cbind (file_handle_use_count_internal s0 p) (\<lambda>c.
        if c > 0 then
          cbind (set_file_handle fd2 p s0) (\<lambda>s1.
          cbind (arr_get (file_handles (fht s1)) fd1) (\<lambda>p1.
          cbind (add_use_count p1 1 s1) (\<lambda>s2.
          cmap (\<lambda>t. (0, s2\<lparr>fht := t\<rparr>)) (link_file_descriptor (fht s2) fd2))))
        else Ret (0, s0))))))"

section \<open>The invariant and the abstract table\<close>

text \<open>
  The invariant: the arrays have their C lengths, every recorded position is a valid index, the
  counter of used descriptors counts the non-null entries, no entry dangles and every node's use
  count is at least the number of entries that point to it, and addresses not yet handed out are
  free.
\<close>

definition fh_inv :: "fh_state \<Rightarrow> bool" where
  "fh_inv s \<longleftrightarrow>
     length (file_handles (fht s)) = nat MAX_FILES \<and>
     length (file_meta (fht s)) = nat MAX_FILES \<and>
     length (used_file_descriptors (fht s)) = nat MAX_FILES \<and>
     (\<forall>m \<in> set (file_meta (fht s)). 0 \<le> use_position m \<and> use_position m < MAX_FILES) \<and>
     used_file_descriptor_pos (fht s) =
       MAX_FILES - int (count (mset (file_handles (fht s))) None) \<and>
     (\<forall>a. Some a \<in> set (file_handles (fht s)) \<longrightarrow>
        (\<exists>n. fh_heap s a = Some n \<and>
             int (count (mset (file_handles (fht s))) (Some a)) \<le> use_count n)) \<and>
     (\<forall>a \<ge> fh_next s. fh_heap s a = None)"

text \<open>What the table means: a partial map from descriptors to handles.\<close>

definition fh_abs :: "fh_state \<Rightarrow> int \<rightharpoonup> file_handle_data" where
  "fh_abs s fd =
     (if 0 \<le> fd \<and> fd < MAX_FILES
      then (case file_handles (fht s) ! nat fd of
              None \<Rightarrow> None | Some a \<Rightarrow> map_option f_data (fh_heap s a))
      else None)"

text \<open>The contract of each operation on the abstract map.\<close>

definition insert_spec :: "int \<Rightarrow> file_handle_data \<Rightarrow> (int \<rightharpoonup> file_handle_data) \<Rightarrow>
    int \<times> (int \<rightharpoonup> file_handle_data)" where
  "insert_spec fd h m =
     (if fd \<ge> MAX_FILES then (EBADF, m) else if m fd \<noteq> None then (EEXIST, m) else (0, m(fd \<mapsto> h)))"

definition remove_spec :: "int \<Rightarrow> (int \<rightharpoonup> file_handle_data) \<Rightarrow> int \<times> (int \<rightharpoonup> file_handle_data)" where
  "remove_spec fd m =
     (if fd \<ge> MAX_FILES then (EBADF, m) else if m fd = None then (ENOENT, m) else (0, m(fd := None)))"

definition duplicate_spec :: "int \<Rightarrow> int \<Rightarrow> (int \<rightharpoonup> file_handle_data) \<Rightarrow>
    int \<times> (int \<rightharpoonup> file_handle_data)" where
  "duplicate_spec fd1 fd2 m =
     (if fd1 \<ge> MAX_FILES \<or> fd2 \<ge> MAX_FILES then (EBADF, m)
      else (0, case m fd1 of None \<Rightarrow> m | Some h \<Rightarrow> m(fd2 \<mapsto> h)))"

definition duplicate_spec_musl :: "int \<Rightarrow> int \<Rightarrow> (int \<rightharpoonup> file_handle_data) \<Rightarrow>
    int \<times> (int \<rightharpoonup> file_handle_data)" where
  "duplicate_spec_musl fd1 fd2 m =
     (if fd1 \<ge> MAX_FILES \<or> fd2 \<ge> MAX_FILES then (EBADF, m)
      else (0, case (m(fd2 := None)) fd1 of None \<Rightarrow> m(fd2 := None) | Some h \<Rightarrow> m(fd2 \<mapsto> h)))"

lemma fh_invD:
  assumes "fh_inv s"
  shows fh_inv_len: "length (file_handles (fht s)) = nat MAX_FILES"
      "length (file_meta (fht s)) = nat MAX_FILES"
      "length (used_file_descriptors (fht s)) = nat MAX_FILES"
    and fh_inv_meta: "\<forall>m \<in> set (file_meta (fht s)). 0 \<le> use_position m \<and> use_position m < MAX_FILES"
    and fh_inv_pos: "used_file_descriptor_pos (fht s) =
       MAX_FILES - int (count (mset (file_handles (fht s))) None)"
    and fh_inv_node: "Some a \<in> set (file_handles (fht s)) \<Longrightarrow>
        \<exists>n. fh_heap s a = Some n \<and> int (count (mset (file_handles (fht s))) (Some a)) \<le> use_count n"
    and fh_inv_fresh: "fh_next s \<le> a \<Longrightarrow> fh_heap s a = None"
  using assms by (auto simp: fh_inv_def)

lemma fh_invI:
  assumes "length (file_handles (fht s)) = nat MAX_FILES"
    and "length (file_meta (fht s)) = nat MAX_FILES"
    and "length (used_file_descriptors (fht s)) = nat MAX_FILES"
    and "\<forall>m \<in> set (file_meta (fht s)). 0 \<le> use_position m \<and> use_position m < MAX_FILES"
    and "used_file_descriptor_pos (fht s) =
       MAX_FILES - int (count (mset (file_handles (fht s))) None)"
    and "\<And>a. Some a \<in> set (file_handles (fht s)) \<Longrightarrow>
        \<exists>n. fh_heap s a = Some n \<and> int (count (mset (file_handles (fht s))) (Some a)) \<le> use_count n"
    and "\<And>a. fh_next s \<le> a \<Longrightarrow> fh_heap s a = None"
  shows "fh_inv s"
  using assms by (simp add: fh_inv_def)

lemma fh_inv_init: "fh_inv fh_init"
  by (simp add: fh_inv_def fh_init_def fht_instance_def MAX_FILES_def)

lemma fh_abs_init: "fh_abs fh_init = Map.empty"
  by (auto simp: fh_abs_def fh_init_def fht_instance_def MAX_FILES_def fun_eq_iff)

lemma fh_inv_entry:
  assumes "fh_inv s" and "0 \<le> fd" and "fd < MAX_FILES" and "file_handles (fht s) ! nat fd = Some a"
  obtains n where "fh_heap s a = Some n" and "0 < use_count n"
    and "int (count (mset (file_handles (fht s))) (Some a)) \<le> use_count n"
proof -
  have "nat fd < length (file_handles (fht s))"
    using assms by (simp add: fh_inv_len)
  then have mem: "Some a \<in> set (file_handles (fht s))"
    using assms(4) by (metis nth_mem)
  then have "0 < count (mset (file_handles (fht s))) (Some a)"
    by simp
  with fh_inv_node [OF assms(1) mem] that show ?thesis
    by force
qed

lemma fh_abs_None_iff:
  assumes "fh_inv s" and "0 \<le> fd" and "fd < MAX_FILES"
  shows "fh_abs s fd = None \<longleftrightarrow> file_handles (fht s) ! nat fd = None"
proof (cases "file_handles (fht s) ! nat fd")
  case None
  then show ?thesis
    using assms by (simp add: fh_abs_def)
next
  case (Some a)
  then obtain n where "fh_heap s a = Some n"
    using fh_inv_entry [OF assms Some] by blast
  with Some assms show ?thesis
    by (simp add: fh_abs_def)
qed

lemma fh_abs_Some_entry:
  assumes "fh_inv s" and "0 \<le> fd" and "fd < MAX_FILES" and "fh_abs s fd = Some h"
  obtains a n where "file_handles (fht s) ! nat fd = Some a" and "fh_heap s a = Some n"
    and "f_data n = h" and "0 < use_count n"
    and "int (count (mset (file_handles (fht s))) (Some a)) \<le> use_count n"
proof -
  obtain a where a: "file_handles (fht s) ! nat fd = Some a"
    using fh_abs_None_iff [OF assms(1-3)] assms(4) by (cases "file_handles (fht s) ! nat fd") auto
  obtain n where "fh_heap s a = Some n" "0 < use_count n"
      "int (count (mset (file_handles (fht s))) (Some a)) \<le> use_count n"
    using fh_inv_entry [OF assms(1-3) a] by blast
  with a assms that show ?thesis
    by (simp add: fh_abs_def)
qed

lemma use_count_simps [simp]:
  "file_handle_use_count_internal s None = Ret 0"
  "fh_heap s a = Some n \<Longrightarrow> file_handle_use_count_internal s (Some a) = Ret (use_count n)"
  by (simp_all add: file_handle_use_count_internal_def)

lemma fh_next_unused: "fh_inv s \<Longrightarrow> Some (fh_next s) \<notin> set (file_handles (fht s))"
  using fh_inv_node fh_inv_fresh by fastforce

lemma fh_inv_pos_bounds:
  assumes "fh_inv s"
  shows "0 \<le> used_file_descriptor_pos (fht s)" and "used_file_descriptor_pos (fht s) \<le> MAX_FILES"
proof -
  have "count (mset (file_handles (fht s))) None \<le> size (mset (file_handles (fht s)))"
    by (rule count_le_size)
  then have "int (count (mset (file_handles (fht s))) None) \<le> MAX_FILES"
    using fh_inv_len(1) [OF assms] by (simp add: MAX_FILES_def)
  then show "0 \<le> used_file_descriptor_pos (fht s)"
    and "used_file_descriptor_pos (fht s) \<le> MAX_FILES"
    using fh_inv_pos [OF assms] by simp_all
qed

lemma fh_inv_pos_None:
  assumes "fh_inv s" and "0 \<le> fd" and "fd < MAX_FILES" and "file_handles (fht s) ! nat fd = None"
  shows "used_file_descriptor_pos (fht s) < MAX_FILES"
proof -
  have "None \<in> set (file_handles (fht s))"
    using assms fh_inv_len(1) [OF assms(1)] by (metis nat_less_iff nat_mono_iff nth_mem order_le_less_trans)
  then have "0 < count (mset (file_handles (fht s))) None"
    by simp
  then show ?thesis
    using fh_inv_pos [OF assms(1)] by simp
qed

lemma fh_inv_pos_Some:
  assumes "fh_inv s" and "0 \<le> fd" and "fd < MAX_FILES" and "file_handles (fht s) ! nat fd = Some a"
  shows "0 < used_file_descriptor_pos (fht s)"
proof -
  let ?hs = "file_handles (fht s)"
  have i: "nat fd < length ?hs"
    using assms fh_inv_len(1) [OF assms(1)] by simp
  have "int (count (mset (?hs[nat fd := None])) None) \<le> int (length ?hs)"
    using count_le_size [of "mset (?hs[nat fd := None])" None] by simp
  then have "int (count (mset ?hs) None) + 1 \<le> int (length ?hs)"
    using assms(4) i by (simp add: count_mset_update)
  then show ?thesis
    using fh_inv_pos [OF assms(1)] fh_inv_len(1) [OF assms(1)] by (simp add: MAX_FILES_def)
qed

section \<open>Each operation against its contract\<close>

lemma link_file_descriptor_eq:
  assumes "length (file_meta t) = nat MAX_FILES" and "length (used_file_descriptors t) = nat MAX_FILES"
    and "0 \<le> fd" and "fd < MAX_FILES"
    and "0 \<le> used_file_descriptor_pos t" and "used_file_descriptor_pos t < MAX_FILES"
  shows "link_file_descriptor t fd =
    Ret (t\<lparr>file_meta := (file_meta t)[nat fd := \<lparr>use_position = used_file_descriptor_pos t\<rparr>],
           used_file_descriptors := (used_file_descriptors t)[nat (used_file_descriptor_pos t) := fd],
           used_file_descriptor_pos := used_file_descriptor_pos t + 1\<rparr>)"
  using assms by (simp add: link_file_descriptor_def MAX_FILES_def)

lemma set_update_use_position:
  assumes "\<forall>m \<in> set ms. 0 \<le> use_position m \<and> use_position m < MAX_FILES"
    and "0 \<le> p" and "p < MAX_FILES"
  shows "\<forall>m \<in> set (ms[i := \<lparr>use_position = p\<rparr>]). 0 \<le> use_position m \<and> use_position m < MAX_FILES"
  using assms by (auto dest!: set_update_subset_insert [THEN subsetD])

text \<open>The state after a successful insertion, and its fields.\<close>

definition after_insert :: "int \<Rightarrow> file_handle_data \<Rightarrow> fh_state \<Rightarrow> fh_state" where
  "after_insert fd h s =
     s\<lparr>fht := (fht s)\<lparr>
       file_handles := (file_handles (fht s))[nat fd := Some (fh_next s)],
       file_meta := (file_meta (fht s))[nat fd := \<lparr>use_position = used_file_descriptor_pos (fht s)\<rparr>],
       used_file_descriptors :=
         (used_file_descriptors (fht s))[nat (used_file_descriptor_pos (fht s)) := fd],
       used_file_descriptor_pos := used_file_descriptor_pos (fht s) + 1\<rparr>,
      fh_heap := (fh_heap s)(fh_next s \<mapsto> \<lparr>f_data = h, use_count = 1\<rparr>),
      fh_next := Suc (fh_next s)\<rparr>"

lemma after_insert_sel [simp]:
  "file_handles (fht (after_insert fd h s)) = (file_handles (fht s))[nat fd := Some (fh_next s)]"
  "file_meta (fht (after_insert fd h s)) =
     (file_meta (fht s))[nat fd := \<lparr>use_position = used_file_descriptor_pos (fht s)\<rparr>]"
  "used_file_descriptors (fht (after_insert fd h s)) =
     (used_file_descriptors (fht s))[nat (used_file_descriptor_pos (fht s)) := fd]"
  "used_file_descriptor_pos (fht (after_insert fd h s)) = used_file_descriptor_pos (fht s) + 1"
  "fh_heap (after_insert fd h s) = (fh_heap s)(fh_next s \<mapsto> \<lparr>f_data = h, use_count = 1\<rparr>)"
  "fh_next (after_insert fd h s) = Suc (fh_next s)"
  by (simp_all add: after_insert_def)

lemma insert_file_handle_eq:
  assumes inv: "fh_inv s" and fd: "0 \<le> fd" "fd < MAX_FILES" and none: "fh_abs s fd = None"
  shows "insert_file_handle fd h s =
    Ret (0, after_insert fd h s)"
proof -
  note len = fh_inv_len [OF inv]
  have p: "file_handles (fht s) ! nat fd = None"
    using fh_abs_None_iff [OF inv fd] none by simp
  note pos = fh_inv_pos_bounds(1) [OF inv] fh_inv_pos_None [OF inv fd p]
  show ?thesis
    unfolding after_insert_def insert_file_handle_def allocate_file_handle_def set_file_handle_def
      add_use_count_def
    using fd by (simp add: len pos p link_file_descriptor_eq)
qed

lemma insert_file_handle_busy:
  assumes inv: "fh_inv s" and fd: "0 \<le> fd" "fd < MAX_FILES" and busy: "fh_abs s fd = Some h'"
  shows "insert_file_handle fd h s = Ret (EEXIST, s)"
proof -
  obtain a n where "file_handles (fht s) ! nat fd = Some a" "fh_heap s a = Some n" "0 < use_count n"
    using fh_abs_Some_entry [OF inv fd busy] by blast
  then show ?thesis
    using fd by (simp add: insert_file_handle_def fh_inv_len [OF inv])
qed

lemma insert_refines:
  assumes inv: "fh_inv s" and fd: "0 \<le> fd"
  shows "\<exists>s'. insert_file_handle fd h s = Ret (fst (insert_spec fd h (fh_abs s)), s') \<and>
    fh_inv s' \<and> fh_abs s' = snd (insert_spec fd h (fh_abs s))"
proof (cases "fd < MAX_FILES \<and> fh_abs s fd = None")
  case False
  then consider "MAX_FILES \<le> fd" | h' where "fd < MAX_FILES" "fh_abs s fd = Some h'"
    by (cases "fd < MAX_FILES"; cases "fh_abs s fd") auto
  then show ?thesis
  proof cases
    case 1
    then show ?thesis
      using inv by (simp add: insert_file_handle_def insert_spec_def)
  next
    case 2
    then show ?thesis
      using insert_file_handle_busy [OF inv fd 2] inv by (simp add: insert_spec_def)
  qed
next
  case True
  then have lt: "fd < MAX_FILES" and none: "fh_abs s fd = None" by auto
  let ?hs = "file_handles (fht s)"
  have hs: "?hs ! nat fd = None" "nat fd < length ?hs"
    using fh_abs_None_iff [OF inv fd lt] none fd lt fh_inv_len(1) [OF inv] by simp_all
  note pos = fh_inv_pos_bounds(1) [OF inv] fh_inv_pos_None [OF inv fd lt hs(1)]
  note fresh = fh_next_unused [OF inv]
  let ?s = "after_insert fd h s"
  have node': "\<exists>n. fh_heap ?s a = Some n \<and> int (count (mset (file_handles (fht ?s))) (Some a)) \<le> use_count n"
    if "Some a \<in> set (file_handles (fht ?s))" for a
  proof (cases "a = fh_next s")
    case True
    have "count (mset ?hs) (Some (fh_next s)) = 0"
      using fresh by (simp add: count_eq_zero_iff)
    with True hs show ?thesis
      by (simp add: count_mset_update)
  next
    case False
    then have "Some a \<in> set ?hs"
      using that by (auto dest!: set_update_subset_insert [THEN subsetD])
    with fh_inv_node [OF inv this] False hs show ?thesis
      by (simp add: count_mset_update)
  qed
  have meta': "\<forall>m \<in> set (file_meta (fht ?s)). 0 \<le> use_position m \<and> use_position m < MAX_FILES"
    using set_update_use_position [OF fh_inv_meta [OF inv] pos] by simp
  have pos': "used_file_descriptor_pos (fht ?s) =
      MAX_FILES - int (count (mset (file_handles (fht ?s))) None)"
    using hs fh_inv_pos [OF inv] by (simp add: count_mset_update)
  have fresh': "\<forall>a \<ge> fh_next ?s. fh_heap ?s a = None"
    using fh_inv_fresh [OF inv] by simp
  have "fh_inv ?s"
    unfolding fh_inv_def using node' meta' pos' fresh' fh_inv_len [OF inv] by simp
  moreover have "fh_abs ?s = (fh_abs s)(fd \<mapsto> h)"
  proof
    fix x
    show "fh_abs ?s x = ((fh_abs s)(fd \<mapsto> h)) x"
    proof (cases "x = fd")
      case True
      with fd lt hs show ?thesis by (simp add: fh_abs_def)
    next
      case False
      have "a \<noteq> fh_next s" if "?hs ! nat x = Some a" "0 \<le> x" "x < MAX_FILES" for a
        using fh_inv_entry [OF inv that(2,3,1)] fh_inv_fresh [OF inv, of a] by (metis option.distinct(1) order_refl)
      then show ?thesis
        using False fd by (auto simp: fh_abs_def split: option.splits)
    qed
  qed
  ultimately show ?thesis
    using insert_file_handle_eq [OF inv fd lt none] lt none by (simp add: insert_spec_def)
qed

text \<open>The state after a successful removal of the entry \<open>fd\<close>, which points to node \<open>a\<close>.\<close>

definition after_remove :: "int \<Rightarrow> nat \<Rightarrow> file_handle_data_internal \<Rightarrow> fh_state \<Rightarrow> fh_state" where
  "after_remove fd a n s =
     s\<lparr>fht := (fht s)\<lparr>
        file_handles := (file_handles (fht s))[nat fd := None],
        file_meta :=
          (if used_file_descriptor_pos (fht s) > 1
           then (file_meta (fht s))[nat (used_file_descriptor_pos (fht s) - 1) :=
                  \<lparr>use_position = use_position (file_meta (fht s) ! nat fd)\<rparr>]
           else file_meta (fht s)),
        used_file_descriptors :=
          (if used_file_descriptor_pos (fht s) > 1
           then (used_file_descriptors (fht s))[nat (use_position (file_meta (fht s) ! nat fd)) :=
                  used_file_descriptor_pos (fht s) - 1]
           else used_file_descriptors (fht s)),
        used_file_descriptor_pos := used_file_descriptor_pos (fht s) - 1\<rparr>,
       fh_heap := (fh_heap s)(a := if use_count n = 1 then None
                                   else Some (n\<lparr>use_count := use_count n - 1\<rparr>))\<rparr>"

lemma after_remove_sel [simp]:
  "file_handles (fht (after_remove fd a n s)) = (file_handles (fht s))[nat fd := None]"
  "file_meta (fht (after_remove fd a n s)) =
     (if used_file_descriptor_pos (fht s) > 1
      then (file_meta (fht s))[nat (used_file_descriptor_pos (fht s) - 1) :=
             \<lparr>use_position = use_position (file_meta (fht s) ! nat fd)\<rparr>]
      else file_meta (fht s))"
  "used_file_descriptors (fht (after_remove fd a n s)) =
     (if used_file_descriptor_pos (fht s) > 1
      then (used_file_descriptors (fht s))[nat (use_position (file_meta (fht s) ! nat fd)) :=
             used_file_descriptor_pos (fht s) - 1]
      else used_file_descriptors (fht s))"
  "used_file_descriptor_pos (fht (after_remove fd a n s)) = used_file_descriptor_pos (fht s) - 1"
  "fh_heap (after_remove fd a n s) = (fh_heap s)(a := if use_count n = 1 then None
     else Some (n\<lparr>use_count := use_count n - 1\<rparr>))"
  "fh_next (after_remove fd a n s) = fh_next s"
  by (simp_all add: after_remove_def)

lemma fh_meta_at:
  assumes "fh_inv s" and "0 \<le> fd" and "fd < MAX_FILES"
  shows "0 \<le> use_position (file_meta (fht s) ! nat fd)"
    and "use_position (file_meta (fht s) ! nat fd) < MAX_FILES"
proof -
  have "file_meta (fht s) ! nat fd \<in> set (file_meta (fht s))"
    using assms fh_inv_len(2) [OF assms(1)] by simp
  then show "0 \<le> use_position (file_meta (fht s) ! nat fd)"
    and "use_position (file_meta (fht s) ! nat fd) < MAX_FILES"
    using fh_inv_meta [OF assms(1)] by blast+
qed

lemma remove_file_handle_eq:
  assumes inv: "fh_inv s" and fd: "0 \<le> fd" "fd < MAX_FILES"
    and a: "file_handles (fht s) ! nat fd = Some a" and n: "fh_heap s a = Some n" "0 < use_count n"
  shows "remove_file_handle fd s = Ret (0, after_remove fd a n s)"
proof -
  note len = fh_inv_len [OF inv]
  note meta = fh_meta_at [OF inv fd]
  have pos: "0 < used_file_descriptor_pos (fht s)" "used_file_descriptor_pos (fht s) \<le> MAX_FILES"
    using fh_inv_pos_Some [OF inv fd a] fh_inv_pos_bounds [OF inv] by simp_all
  show ?thesis
    unfolding after_remove_def remove_file_handle_def add_use_count_def free_file_handle_def
      unlink_file_descriptor_def
    using fd pos meta n by (simp add: len a)
qed

lemma remove_file_handle_absent:
  assumes inv: "fh_inv s" and fd: "0 \<le> fd" "fd < MAX_FILES" and none: "fh_abs s fd = None"
  shows "remove_file_handle fd s = Ret (ENOENT, s)"
  using fd fh_abs_None_iff [OF inv fd] none
  by (simp add: remove_file_handle_def fh_inv_len [OF inv])

lemma after_remove_inv:
  assumes inv: "fh_inv s" and fd: "0 \<le> fd" "fd < MAX_FILES"
    and a: "file_handles (fht s) ! nat fd = Some a" and n: "fh_heap s a = Some n"
  shows "fh_inv (after_remove fd a n s)"
proof (rule fh_invI)
  let ?hs = "file_handles (fht s)" and ?s = "after_remove fd a n s"
  note len = fh_inv_len [OF inv]
  have i: "nat fd < length ?hs"
    using fd len by simp
  show "length (file_handles (fht ?s)) = nat MAX_FILES" "length (file_meta (fht ?s)) = nat MAX_FILES"
    "length (used_file_descriptors (fht ?s)) = nat MAX_FILES"
    using len by simp_all
  show "\<forall>m \<in> set (file_meta (fht ?s)). 0 \<le> use_position m \<and> use_position m < MAX_FILES"
    using set_update_use_position [OF fh_inv_meta [OF inv] fh_meta_at [OF inv fd]] fh_inv_meta [OF inv]
    by simp
  show "used_file_descriptor_pos (fht ?s) = MAX_FILES - int (count (mset (file_handles (fht ?s))) None)"
    using i a fh_inv_pos [OF inv] by (simp add: count_mset_update)
  show "fh_heap ?s b = None" if "fh_next ?s \<le> b" for b
    using that fh_inv_fresh [OF inv, of b] n by auto
  fix b
  assume b: "Some b \<in> set (file_handles (fht ?s))"
  then have "0 < int (count (mset (?hs[nat fd := None])) (Some b))"
    by simp
  then have cnt: "of_bool (?hs ! nat fd = Some b) < int (count (mset ?hs) (Some b))"
    using i by (simp only: count_mset_update) simp
  have "Some b \<in> set ?hs"
    using b by (auto dest!: set_update_subset_insert [THEN subsetD])
  then obtain m where m: "fh_heap s b = Some m" "int (count (mset ?hs) (Some b)) \<le> use_count m"
    using fh_inv_node [OF inv] by blast
  show "\<exists>m. fh_heap ?s b = Some m \<and> int (count (mset (file_handles (fht ?s))) (Some b)) \<le> use_count m"
  proof (cases "b = a")
    case True
    then have "1 < use_count n"
      using m n cnt i a by (simp add: count_mset_update)
    with True m n i a show ?thesis
      by (simp add: count_mset_update)
  qed (use m i a in \<open>simp add: count_mset_update\<close>)
qed

lemma after_remove_abs:
  assumes inv: "fh_inv s" and fd: "0 \<le> fd" "fd < MAX_FILES"
    and a: "file_handles (fht s) ! nat fd = Some a" and n: "fh_heap s a = Some n"
  shows "fh_abs (after_remove fd a n s) = (fh_abs s)(fd := None)"
proof
  fix x
  let ?hs = "file_handles (fht s)" and ?s = "after_remove fd a n s"
  note len = fh_inv_len [OF inv]
  show "fh_abs ?s x = ((fh_abs s)(fd := None)) x"
  proof (cases "x = fd \<or> \<not> (0 \<le> x \<and> x < MAX_FILES)")
    case True
    then show ?thesis
      using fd len by (auto simp: fh_abs_def)
  next
    case False
    then have x: "0 \<le> x" "x < MAX_FILES" "x \<noteq> fd" by auto
    then have eq: "file_handles (fht ?s) ! nat x = ?hs ! nat x"
      using fd by simp
    have "use_count n \<noteq> 1" if xa: "?hs ! nat x = Some a"
    proof -
      obtain m where "fh_heap ?s a = Some m"
        using fh_inv_entry [OF after_remove_inv [OF inv fd a n] x(1,2)] eq xa by metis
      then show ?thesis
        by (auto split: if_splits)
    qed
    then show ?thesis
      using x eq n by (auto simp: fh_abs_def split: option.splits)
  qed
qed

lemma remove_refines:
  assumes inv: "fh_inv s" and fd: "0 \<le> fd"
  shows "\<exists>s'. remove_file_handle fd s = Ret (fst (remove_spec fd (fh_abs s)), s') \<and>
    fh_inv s' \<and> fh_abs s' = snd (remove_spec fd (fh_abs s))"
proof -
  consider "MAX_FILES \<le> fd" | "fd < MAX_FILES" "fh_abs s fd = None"
    | h where "fd < MAX_FILES" "fh_abs s fd = Some h"
    by (cases "fd < MAX_FILES"; cases "fh_abs s fd") auto
  then show ?thesis
  proof cases
    case 1
    then show ?thesis
      using inv by (simp add: remove_file_handle_def remove_spec_def)
  next
    case 2
    then show ?thesis
      using remove_file_handle_absent [OF inv fd 2] inv by (simp add: remove_spec_def)
  next
    case 3
    obtain a n where an: "file_handles (fht s) ! nat fd = Some a" "fh_heap s a = Some n" "0 < use_count n"
      using fh_abs_Some_entry [OF inv fd 3] by blast
    then show ?thesis
      using 3 remove_file_handle_eq [OF inv fd 3(1) an] after_remove_inv [OF inv fd 3(1) an(1,2)]
        after_remove_abs [OF inv fd 3(1) an(1,2)] by (simp add: remove_spec_def)
  qed
qed

lemma lookup_file_handle_abs:
  assumes inv: "fh_inv s" and fd: "0 \<le> fd" "fd < MAX_FILES"
  shows "lookup_file_handle fd s = Ret (fh_abs s fd)"
proof (cases "fh_abs s fd")
  case None
  then show ?thesis
    using fd fh_abs_None_iff [OF inv fd] by (simp add: lookup_file_handle_def fh_inv_len [OF inv])
next
  case (Some h)
  obtain a n where "file_handles (fht s) ! nat fd = Some a" "fh_heap s a = Some n" "f_data n = h"
      "0 < use_count n"
    using fh_abs_Some_entry [OF inv fd Some] by blast
  with Some fd show ?thesis
    by (simp add: lookup_file_handle_def fh_inv_len [OF inv])
qed

lemma file_handle_exists_abs:
  assumes inv: "fh_inv s" and fd: "0 \<le> fd"
  shows "file_handle_exists fd s = Ret (fd < MAX_FILES \<and> fh_abs s fd \<noteq> None)"
proof (cases "fd < MAX_FILES")
  case True
  show ?thesis
  proof (cases "fh_abs s fd")
    case None
    then show ?thesis
      using True fd fh_abs_None_iff [OF inv fd True]
      by (simp add: file_handle_exists_def fh_inv_len [OF inv])
  next
    case (Some h)
    obtain a n where "file_handles (fht s) ! nat fd = Some a" "fh_heap s a = Some n" "0 < use_count n"
      using fh_abs_Some_entry [OF inv fd True Some] by blast
    with Some fd True show ?thesis
      by (simp add: file_handle_exists_def fh_inv_len [OF inv])
  qed
qed (simp add: file_handle_exists_def)

text \<open>The state after \<open>fd2\<close> was made to share the node \<open>a\<close> of another descriptor.\<close>

definition after_share :: "int \<Rightarrow> nat \<Rightarrow> file_handle_data_internal \<Rightarrow> fh_state \<Rightarrow> fh_state" where
  "after_share fd2 a n s =
     s\<lparr>fht := (if file_handles (fht s) ! nat fd2 = None
          then (fht s)\<lparr>
            file_handles := (file_handles (fht s))[nat fd2 := Some a],
            file_meta := (file_meta (fht s))[nat fd2 := \<lparr>use_position = used_file_descriptor_pos (fht s)\<rparr>],
            used_file_descriptors :=
              (used_file_descriptors (fht s))[nat (used_file_descriptor_pos (fht s)) := fd2],
            used_file_descriptor_pos := used_file_descriptor_pos (fht s) + 1\<rparr>
          else (fht s)\<lparr>file_handles := (file_handles (fht s))[nat fd2 := Some a]\<rparr>),
       fh_heap := (fh_heap s)(a \<mapsto> n\<lparr>use_count := use_count n + 1\<rparr>)\<rparr>"

lemma after_share_sel [simp]:
  "file_handles (fht (after_share fd2 a n s)) = (file_handles (fht s))[nat fd2 := Some a]"
  "file_meta (fht (after_share fd2 a n s)) =
     (if file_handles (fht s) ! nat fd2 = None
      then (file_meta (fht s))[nat fd2 := \<lparr>use_position = used_file_descriptor_pos (fht s)\<rparr>]
      else file_meta (fht s))"
  "used_file_descriptors (fht (after_share fd2 a n s)) =
     (if file_handles (fht s) ! nat fd2 = None
      then (used_file_descriptors (fht s))[nat (used_file_descriptor_pos (fht s)) := fd2]
      else used_file_descriptors (fht s))"
  "used_file_descriptor_pos (fht (after_share fd2 a n s)) =
     (if file_handles (fht s) ! nat fd2 = None then used_file_descriptor_pos (fht s) + 1
      else used_file_descriptor_pos (fht s))"
  "fh_heap (after_share fd2 a n s) = (fh_heap s)(a \<mapsto> n\<lparr>use_count := use_count n + 1\<rparr>)"
  "fh_next (after_share fd2 a n s) = fh_next s"
  by (simp_all add: after_share_def)

lemma duplicate_file_handle_eq:
  assumes inv: "fh_inv s" and fd1: "0 \<le> fd1" "fd1 < MAX_FILES" and fd2: "0 \<le> fd2" "fd2 < MAX_FILES"
    and a: "file_handles (fht s) ! nat fd1 = Some a" and n: "fh_heap s a = Some n" "0 < use_count n"
  shows "duplicate_file_handle fd1 fd2 s =
    Ret (0, file_handles (fht s) ! nat fd2, after_share fd2 a n s)"
proof -
  note len = fh_inv_len [OF inv]
  have p1: "(file_handles (fht s))[nat fd2 := Some a] ! nat fd1 = Some a"
    using a fd1 len by (cases "nat fd1 = nat fd2") simp_all
  show ?thesis
  proof (cases "file_handles (fht s) ! nat fd2")
    case None
    note pos = fh_inv_pos_bounds(1) [OF inv] fh_inv_pos_None [OF inv fd2 None]
    show ?thesis
      unfolding after_share_def duplicate_file_handle_def set_file_handle_def add_use_count_def
      using fd1 fd2 n by (simp add: len pos a p1 None link_file_descriptor_eq)
  next
    case (Some b)
    show ?thesis
      unfolding after_share_def duplicate_file_handle_def set_file_handle_def add_use_count_def
      using fd1 fd2 n by (simp add: len a p1 Some)
  qed
qed

lemma duplicate_file_handle_absent:
  assumes inv: "fh_inv s" and fd1: "0 \<le> fd1" "fd1 < MAX_FILES" and fd2: "0 \<le> fd2" "fd2 < MAX_FILES"
    and none: "fh_abs s fd1 = None"
  shows "duplicate_file_handle fd1 fd2 s = Ret (0, file_handles (fht s) ! nat fd2, s)"
  using fd1 fd2 fh_abs_None_iff [OF inv fd1] none
  by (simp add: duplicate_file_handle_def fh_inv_len [OF inv])

lemma after_share_inv:
  assumes inv: "fh_inv s" and fd2: "0 \<le> fd2" "fd2 < MAX_FILES" and n: "fh_heap s a = Some n"
    and a: "Some a \<in> set (file_handles (fht s))"
  shows "fh_inv (after_share fd2 a n s)"
proof (rule fh_invI)
  let ?hs = "file_handles (fht s)" and ?s = "after_share fd2 a n s"
  note len = fh_inv_len [OF inv]
  have i: "nat fd2 < length ?hs"
    using fd2 len by simp
  show "length (file_handles (fht ?s)) = nat MAX_FILES" "length (file_meta (fht ?s)) = nat MAX_FILES"
    "length (used_file_descriptors (fht ?s)) = nat MAX_FILES"
    using len by simp_all
  show "\<forall>m \<in> set (file_meta (fht ?s)). 0 \<le> use_position m \<and> use_position m < MAX_FILES"
  proof (cases "?hs ! nat fd2 = None")
    case True
    note pos = fh_inv_pos_bounds(1) [OF inv] fh_inv_pos_None [OF inv fd2 True]
    show ?thesis
      using True set_update_use_position [OF fh_inv_meta [OF inv] pos] by simp
  qed (use fh_inv_meta [OF inv] in auto)
  show "used_file_descriptor_pos (fht ?s) = MAX_FILES - int (count (mset (file_handles (fht ?s))) None)"
    using i fh_inv_pos [OF inv] by (simp add: count_mset_update)
  show "fh_heap ?s b = None" if "fh_next ?s \<le> b" for b
    using that fh_inv_fresh [OF inv, of b] n by auto
  fix b
  assume b: "Some b \<in> set (file_handles (fht ?s))"
  then have "Some b \<in> set ?hs"
    using a by (auto dest!: set_update_subset_insert [THEN subsetD])
  then obtain m where m: "fh_heap s b = Some m" "int (count (mset ?hs) (Some b)) \<le> use_count m"
    using fh_inv_node [OF inv] by blast
  then show "\<exists>m. fh_heap ?s b = Some m \<and> int (count (mset (file_handles (fht ?s))) (Some b)) \<le> use_count m"
    using i n by (cases "b = a") (auto simp: count_mset_update)
qed

lemma after_share_abs:
  assumes inv: "fh_inv s" and fd2: "0 \<le> fd2" "fd2 < MAX_FILES" and n: "fh_heap s a = Some n"
  shows "fh_abs (after_share fd2 a n s) = (fh_abs s)(fd2 \<mapsto> f_data n)"
proof
  fix x
  note len = fh_inv_len [OF inv]
  show "fh_abs (after_share fd2 a n s) x = ((fh_abs s)(fd2 \<mapsto> f_data n)) x"
  proof (cases "x = fd2")
    case True
    with fd2 len n show ?thesis
      by (simp add: fh_abs_def)
  next
    case False
    with fd2 have "0 \<le> x \<Longrightarrow> nat x \<noteq> nat fd2" by simp
    with False n show ?thesis
      by (auto simp: fh_abs_def split: option.splits)
  qed
qed

lemma duplicate_refines:
  assumes inv: "fh_inv s" and fd: "0 \<le> fd1" "0 \<le> fd2"
  shows "\<exists>old s'. duplicate_file_handle fd1 fd2 s =
      Ret (fst (duplicate_spec fd1 fd2 (fh_abs s)), old, s') \<and>
    fh_inv s' \<and> fh_abs s' = snd (duplicate_spec fd1 fd2 (fh_abs s))"
proof -
  consider "MAX_FILES \<le> fd1 \<or> MAX_FILES \<le> fd2"
    | "fd1 < MAX_FILES" "fd2 < MAX_FILES" "fh_abs s fd1 = None"
    | h where "fd1 < MAX_FILES" "fd2 < MAX_FILES" "fh_abs s fd1 = Some h"
    by (cases "fd1 < MAX_FILES \<and> fd2 < MAX_FILES"; cases "fh_abs s fd1") auto
  then show ?thesis
  proof cases
    case 1
    then show ?thesis
      using inv by (auto simp: duplicate_file_handle_def duplicate_spec_def)
  next
    case 2
    then show ?thesis
      using duplicate_file_handle_absent [OF inv fd(1) 2(1) fd(2) 2(2,3)] inv
      by (simp add: duplicate_spec_def)
  next
    case 3
    obtain a n where an: "file_handles (fht s) ! nat fd1 = Some a" "fh_heap s a = Some n" "0 < use_count n"
      and h: "f_data n = h"
      using fh_abs_Some_entry [OF inv fd(1) 3(1,3)] by blast
    have mem: "Some a \<in> set (file_handles (fht s))"
      using an(1) fd(1) 3(1) fh_inv_len(1) [OF inv] nth_mem [of "nat fd1" "file_handles (fht s)"] by simp
    show ?thesis
      using 3 h duplicate_file_handle_eq [OF inv fd(1) 3(1) fd(2) 3(2) an]
        after_share_inv [OF inv fd(2) 3(2) an(2) mem] after_share_abs [OF inv fd(2) 3(2) an(2)]
      by (simp add: duplicate_spec_def)
  qed
qed

text \<open>The musl variant is a removal of \<open>fd2\<close>, if it is in use, and then the sharing step.\<close>

lemma duplicate_musl_unused:
  assumes inv: "fh_inv s" and fd1: "0 \<le> fd1" "fd1 < MAX_FILES" and fd2: "0 \<le> fd2" "fd2 < MAX_FILES"
    and none: "fh_abs s fd2 = None"
  shows "duplicate_file_handle_musl fd1 fd2 s =
    cmap (\<lambda>(rv, old, s'). (rv, s')) (duplicate_file_handle fd1 fd2 s)"
proof (cases "fh_abs s fd1")
  case None
  then show ?thesis
    using fd1 fd2 none fh_abs_None_iff [OF inv fd1] fh_abs_None_iff [OF inv fd2]
      duplicate_file_handle_absent [OF inv fd1 fd2 None]
    by (simp add: duplicate_file_handle_musl_def fh_inv_len [OF inv])
next
  case (Some h)
  note len = fh_inv_len [OF inv]
  obtain a n where an: "file_handles (fht s) ! nat fd1 = Some a" "fh_heap s a = Some n" "0 < use_count n"
    using fh_abs_Some_entry [OF inv fd1 Some] by blast
  have p2: "file_handles (fht s) ! nat fd2 = None"
    using fh_abs_None_iff [OF inv fd2] none by simp
  have p1: "(file_handles (fht s))[nat fd2 := Some a] ! nat fd1 = Some a"
    using an fd1 len by (cases "nat fd1 = nat fd2") simp_all
  note pos = fh_inv_pos_bounds(1) [OF inv] fh_inv_pos_None [OF inv fd2 p2]
  show ?thesis
    unfolding duplicate_file_handle_eq [OF inv fd1 fd2 an] after_share_def
      duplicate_file_handle_musl_def set_file_handle_def add_use_count_def
    using fd1 fd2 an(2,3) by (simp add: len pos an(1) p1 p2 link_file_descriptor_eq)
qed

lemma duplicate_musl_used:
  assumes inv: "fh_inv s" and fd1: "0 \<le> fd1" "fd1 < MAX_FILES" and fd2: "0 \<le> fd2" "fd2 < MAX_FILES"
    and used: "fh_abs s fd2 = Some h" and rem: "remove_file_handle fd2 s = Ret (rv, s0)"
    and inv0: "fh_inv s0" and none: "fh_abs s0 fd2 = None"
  shows "duplicate_file_handle_musl fd1 fd2 s = duplicate_file_handle_musl fd1 fd2 s0"
proof -
  obtain b where b: "file_handles (fht s) ! nat fd2 = Some b"
    using fh_abs_Some_entry [OF inv fd2 used] by blast
  have "file_handles (fht s0) ! nat fd2 = None"
    using fh_abs_None_iff [OF inv0 fd2] none by simp
  with b fd1 fd2 rem show ?thesis
    by (simp add: duplicate_file_handle_musl_def fh_inv_len [OF inv] fh_inv_len [OF inv0])
qed

lemma duplicate_musl_refines:
  assumes inv: "fh_inv s" and fd: "0 \<le> fd1" "0 \<le> fd2"
  shows "\<exists>s'. duplicate_file_handle_musl fd1 fd2 s =
      Ret (fst (duplicate_spec_musl fd1 fd2 (fh_abs s)), s') \<and>
    fh_inv s' \<and> fh_abs s' = snd (duplicate_spec_musl fd1 fd2 (fh_abs s))"
proof (cases "fd1 < MAX_FILES \<and> fd2 < MAX_FILES")
  case False
  then show ?thesis
    using inv by (auto simp: duplicate_file_handle_musl_def duplicate_spec_musl_def)
next
  case True
  have unused: "\<exists>s'. duplicate_file_handle_musl fd1 fd2 s0 =
      Ret (0, s') \<and> fh_inv s' \<and>
      fh_abs s' = (case fh_abs s0 fd1 of None \<Rightarrow> fh_abs s0 | Some h \<Rightarrow> (fh_abs s0)(fd2 \<mapsto> h))"
    if "fh_inv s0" and "fh_abs s0 fd2 = None" for s0
    using duplicate_refines [OF that(1) fd] duplicate_musl_unused [OF that(1) fd(1) _ fd(2) _ that(2)] True
    by (auto simp: duplicate_spec_def)
  show ?thesis
  proof (cases "fh_abs s fd2")
    case None
    then have "(fh_abs s)(fd2 := None) = fh_abs s"
      by (rule fun_upd_idem)
    then show ?thesis
      using unused [OF inv None] True by (cases "fh_abs s fd1") (simp_all add: duplicate_spec_musl_def)
  next
    case (Some h)
    obtain s0 where s0: "remove_file_handle fd2 s = Ret (0, s0)" "fh_inv s0"
        "fh_abs s0 = (fh_abs s)(fd2 := None)"
      using remove_refines [OF inv fd(2)] Some True by (auto simp: remove_spec_def)
    then have none: "fh_abs s0 fd2 = None" by simp
    show ?thesis
      using unused [OF s0(2) none] duplicate_musl_used [OF inv fd(1) _ fd(2) _ Some s0(1,2) none] True s0(3)
      by (auto simp: duplicate_spec_musl_def split: option.splits)
  qed
qed

end
