(* ===== verification/Descriptor_Table.thy ===== *)
theory Descriptor_Table
  imports File_Handles
begin

text \<open>
  The descriptor table as a data refinement: sequences of insertions, removals and duplications on
  \<^verbatim>\<open>file_handles.c\<close> behave as the same operations on a partial map, for libdefuse and for musl's
  variant; reference counts; and the list of used descriptors that \<^verbatim>\<open>save_file_handles_to_shared_space\<close>
  walks.
\<close>

section \<open>Operations as data, and the refinement\<close>

datatype fh_op = Op_Insert int file_handle_data | Op_Remove int | Op_Duplicate int int

fun fh_step :: "fh_op \<Rightarrow> fh_state \<Rightarrow> (int \<times> fh_state) cres" where
  "fh_step (Op_Insert fd h) s = insert_file_handle fd h s"
| "fh_step (Op_Remove fd) s = remove_file_handle fd s"
| "fh_step (Op_Duplicate fd1 fd2) s =
     cmap (\<lambda>(rv, oldfhd, s'). (rv, s')) (duplicate_file_handle fd1 fd2 s)"

fun fh_step_musl :: "fh_op \<Rightarrow> fh_state \<Rightarrow> (int \<times> fh_state) cres" where
  "fh_step_musl (Op_Insert fd h) s = insert_file_handle fd h s"
| "fh_step_musl (Op_Remove fd) s = remove_file_handle fd s"
| "fh_step_musl (Op_Duplicate fd1 fd2) s = duplicate_file_handle_musl fd1 fd2 s"

fun fh_spec :: "fh_op \<Rightarrow> (int \<rightharpoonup> file_handle_data) \<Rightarrow> int \<times> (int \<rightharpoonup> file_handle_data)" where
  "fh_spec (Op_Insert fd h) m = insert_spec fd h m"
| "fh_spec (Op_Remove fd) m = remove_spec fd m"
| "fh_spec (Op_Duplicate fd1 fd2) m = duplicate_spec fd1 fd2 m"

fun fh_spec_musl :: "fh_op \<Rightarrow> (int \<rightharpoonup> file_handle_data) \<Rightarrow> int \<times> (int \<rightharpoonup> file_handle_data)" where
  "fh_spec_musl (Op_Insert fd h) m = insert_spec fd h m"
| "fh_spec_musl (Op_Remove fd) m = remove_spec fd m"
| "fh_spec_musl (Op_Duplicate fd1 fd2) m = duplicate_spec_musl fd1 fd2 m"

text \<open>The kernel hands out non-negative descriptors only.\<close>

fun fh_valid :: "fh_op \<Rightarrow> bool" where
  "fh_valid (Op_Insert fd h) = (0 \<le> fd)"
| "fh_valid (Op_Remove fd) = (0 \<le> fd)"
| "fh_valid (Op_Duplicate fd1 fd2) = (0 \<le> fd1 \<and> 0 \<le> fd2)"

interpretation ldt: data_refinement fh_inv fh_abs fh_valid fh_step fh_spec
proof unfold_locales
  fix s :: fh_state and x :: fh_op
  assume "fh_inv s" and "fh_valid x"
  then show "\<exists>s'. fh_step x s = Ret (fst (fh_spec x (fh_abs s)), s') \<and> fh_inv s' \<and>
      fh_abs s' = snd (fh_spec x (fh_abs s))"
    using insert_refines remove_refines duplicate_refines by (cases x) fastforce+
qed

section \<open>Reference counts of musl's variant are exact\<close>

definition fh_exact :: "fh_state \<Rightarrow> bool" where
  "fh_exact s \<longleftrightarrow> (\<forall>a n. fh_heap s a = Some n \<longrightarrow>
     use_count n = int (count (mset (file_handles (fht s))) (Some a)) \<and> 0 < use_count n)"

lemma fh_exact_init: "fh_exact fh_init"
  by (simp add: fh_exact_def fh_init_def)

lemma fh_exactD:
  "fh_exact s \<Longrightarrow> fh_heap s a = Some n \<Longrightarrow>
     use_count n = int (count (mset (file_handles (fht s))) (Some a)) \<and> 0 < use_count n"
  unfolding fh_exact_def by blast

lemma after_insert_exact:
  assumes inv: "fh_inv s" and ex: "fh_exact s" and fd: "0 \<le> fd" "fd < MAX_FILES"
    and none: "fh_abs s fd = None"
  shows "fh_exact (after_insert fd h s)"
proof -
  have i: "nat fd < length (file_handles (fht s))"
    using fd fh_inv_len(1) [OF inv] by simp
  have p: "file_handles (fht s) ! nat fd = None"
    using fh_abs_None_iff [OF inv fd] none by simp
  have zero: "count (mset (file_handles (fht s))) (Some (fh_next s)) = 0"
    using fh_next_unused [OF inv] by (simp add: count_eq_zero_iff)
  show ?thesis
    unfolding fh_exact_def
  proof (intro allI impI)
    fix a n
    assume "fh_heap (after_insert fd h s) a = Some n"
    then show "use_count n = int (count (mset (file_handles (fht (after_insert fd h s)))) (Some a)) \<and>
        0 < use_count n"
      using i p zero fh_exactD [OF ex, of a n]
      by (cases "a = fh_next s") (auto simp: count_mset_update)
  qed
qed

lemma after_remove_exact:
  assumes inv: "fh_inv s" and ex: "fh_exact s" and fd: "0 \<le> fd" "fd < MAX_FILES"
    and a: "file_handles (fht s) ! nat fd = Some a" and n: "fh_heap s a = Some n"
  shows "fh_exact (after_remove fd a n s)"
proof -
  have i: "nat fd < length (file_handles (fht s))"
    using fd fh_inv_len(1) [OF inv] by simp
  obtain k where k: "count (mset (file_handles (fht s))) (Some a) = Suc k"
    using a i nth_mem [OF i] by (metis count_mset_0_iff not0_implies_Suc)
  show ?thesis
    unfolding fh_exact_def
  proof (intro allI impI)
    fix b m
    assume "fh_heap (after_remove fd a n s) b = Some m"
    then show "use_count m = int (count (mset (file_handles (fht (after_remove fd a n s)))) (Some b)) \<and>
        0 < use_count m"
      using i a k fh_exactD [OF ex, of b m] fh_exactD [OF ex n]
      by (cases "b = a") (auto simp: count_mset_update split: if_splits)
  qed
qed

lemma after_share_exact:
  assumes inv: "fh_inv s" and ex: "fh_exact s" and fd: "0 \<le> fd2" "fd2 < MAX_FILES"
    and none: "file_handles (fht s) ! nat fd2 = None" and n: "fh_heap s a = Some n"
  shows "fh_exact (after_share fd2 a n s)"
proof -
  have i: "nat fd2 < length (file_handles (fht s))"
    using fd fh_inv_len(1) [OF inv] by simp
  show ?thesis
    unfolding fh_exact_def
  proof (intro allI impI)
    fix b m
    assume "fh_heap (after_share fd2 a n s) b = Some m"
    then show "use_count m = int (count (mset (file_handles (fht (after_share fd2 a n s)))) (Some b)) \<and>
        0 < use_count m"
      using i none fh_exactD [OF ex, of b m] fh_exactD [OF ex n]
      by (cases "b = a") (auto simp: count_mset_update)
  qed
qed

lemma insert_exact:
  assumes inv: "fh_inv s" and ex: "fh_exact s" and fd: "0 \<le> fd" and r: "insert_file_handle fd h s = Ret (rv, s')"
  shows "fh_exact s'"
proof -
  consider "MAX_FILES \<le> fd" | h' where "fd < MAX_FILES" "fh_abs s fd = Some h'"
    | "fd < MAX_FILES" "fh_abs s fd = None"
    by (cases "fd < MAX_FILES"; cases "fh_abs s fd") auto
  then show ?thesis
  proof cases
    case 1
    then show ?thesis using r ex by (simp add: insert_file_handle_def)
  next
    case 2
    then show ?thesis using r ex insert_file_handle_busy [OF inv fd 2] by simp
  next
    case 3
    then show ?thesis using r insert_file_handle_eq [OF inv fd 3] after_insert_exact [OF inv ex fd 3] by auto
  qed
qed

lemma remove_exact:
  assumes inv: "fh_inv s" and ex: "fh_exact s" and fd: "0 \<le> fd" and r: "remove_file_handle fd s = Ret (rv, s')"
  shows "fh_exact s'"
proof -
  consider "MAX_FILES \<le> fd" | h' where "fd < MAX_FILES" "fh_abs s fd = Some h'"
    | "fd < MAX_FILES" "fh_abs s fd = None"
    by (cases "fd < MAX_FILES"; cases "fh_abs s fd") auto
  then show ?thesis
  proof cases
    case 1
    then show ?thesis using r ex by (simp add: remove_file_handle_def)
  next
    case 2
    obtain a n where an: "file_handles (fht s) ! nat fd = Some a" "fh_heap s a = Some n" "0 < use_count n"
      using fh_abs_Some_entry [OF inv fd 2] by blast
    then show ?thesis
      using r remove_file_handle_eq [OF inv fd 2(1) an] after_remove_exact [OF inv ex fd 2(1) an(1,2)] by auto
  next
    case 3
    then show ?thesis using r ex remove_file_handle_absent [OF inv fd 3] by simp
  qed
qed

lemma share_exact:
  assumes inv: "fh_inv s" and ex: "fh_exact s" and fd1: "0 \<le> fd1" "fd1 < MAX_FILES"
    and fd2: "0 \<le> fd2" "fd2 < MAX_FILES" and none: "fh_abs s fd2 = None"
    and r: "duplicate_file_handle_musl fd1 fd2 s = Ret (rv, s')"
  shows "fh_exact s'"
proof (cases "fh_abs s fd1")
  case None
  then show ?thesis
    using r ex duplicate_musl_unused [OF inv fd1 fd2 none] duplicate_file_handle_absent [OF inv fd1 fd2 None]
    by simp
next
  case (Some h)
  obtain a n where an: "file_handles (fht s) ! nat fd1 = Some a" "fh_heap s a = Some n" "0 < use_count n"
    using fh_abs_Some_entry [OF inv fd1 Some] by blast
  have p2: "file_handles (fht s) ! nat fd2 = None"
    using fh_abs_None_iff [OF inv fd2] none by simp
  show ?thesis
    using r duplicate_musl_unused [OF inv fd1 fd2 none] duplicate_file_handle_eq [OF inv fd1 fd2 an]
      after_share_exact [OF inv ex fd2 p2 an(2)] by auto
qed

lemma duplicate_musl_exact:
  assumes inv: "fh_inv s" and ex: "fh_exact s" and fd: "0 \<le> fd1" "0 \<le> fd2"
    and r: "duplicate_file_handle_musl fd1 fd2 s = Ret (rv, s')"
  shows "fh_exact s'"
proof (cases "fd1 < MAX_FILES \<and> fd2 < MAX_FILES")
  case False
  then show ?thesis
    using r ex by (auto simp: duplicate_file_handle_musl_def split: if_splits)
next
  case True
  show ?thesis
  proof (cases "fh_abs s fd2")
    case None
    then show ?thesis
      using share_exact [OF inv ex fd(1) _ fd(2) _ None r] True by simp
  next
    case (Some h)
    obtain s0 where s0: "remove_file_handle fd2 s = Ret (0, s0)" "fh_inv s0"
        "fh_abs s0 = (fh_abs s)(fd2 := None)"
      using remove_refines [OF inv fd(2)] Some True by (auto simp: remove_spec_def)
    then have none: "fh_abs s0 fd2 = None" by simp
    have "duplicate_file_handle_musl fd1 fd2 s0 = Ret (rv, s')"
      using duplicate_musl_used [OF inv fd(1) _ fd(2) _ Some s0(1,2) none] True r by simp
    then show ?thesis
      using share_exact [OF s0(2) remove_exact [OF inv ex fd(2) s0(1)] fd(1) _ fd(2) _ none] True by simp
  qed
qed

definition fh_inv_exact :: "fh_state \<Rightarrow> bool" where
  "fh_inv_exact s \<longleftrightarrow> fh_inv s \<and> fh_exact s"

interpretation mdt: data_refinement fh_inv_exact fh_abs fh_valid fh_step_musl fh_spec_musl
proof unfold_locales
  fix s :: fh_state and x :: fh_op
  assume "fh_inv_exact s" and v: "fh_valid x"
  then have inv: "fh_inv s" and ex: "fh_exact s" by (simp_all add: fh_inv_exact_def)
  show "\<exists>s'. fh_step_musl x s = Ret (fst (fh_spec_musl x (fh_abs s)), s') \<and>
      fh_inv_exact s' \<and> fh_abs s' = snd (fh_spec_musl x (fh_abs s))"
  proof (cases x)
    case (Op_Insert fd h)
    with v have "0 \<le> fd" by simp
    from insert_refines [OF inv this] insert_exact [OF inv ex this] Op_Insert show ?thesis
      by (fastforce simp: fh_inv_exact_def)
  next
    case (Op_Remove fd)
    with v have "0 \<le> fd" by simp
    from remove_refines [OF inv this] remove_exact [OF inv ex this] Op_Remove show ?thesis
      by (fastforce simp: fh_inv_exact_def)
  next
    case (Op_Duplicate fd1 fd2)
    with v have "0 \<le> fd1" "0 \<le> fd2" by simp_all
    from duplicate_musl_refines [OF inv this] duplicate_musl_exact [OF inv ex this] Op_Duplicate
    show ?thesis
      by (fastforce simp: fh_inv_exact_def)
  qed
qed

section \<open>The list of used descriptors\<close>

text \<open>
  \<^verbatim>\<open>save_file_handles_to_shared_space\<close> walks the first \<^verbatim>\<open>used_file_descriptor_pos\<close> entries of
  \<^verbatim>\<open>used_file_descriptors\<close>. Insertions keep that prefix a duplicate-free enumeration of the open
  descriptors; removals do not.
\<close>

definition used_prefix :: "fh_state \<Rightarrow> int list" where
  "used_prefix s = take (nat (used_file_descriptor_pos (fht s))) (used_file_descriptors (fht s))"

definition used_exact :: "fh_state \<Rightarrow> bool" where
  "used_exact s \<longleftrightarrow> distinct (used_prefix s) \<and> set (used_prefix s) = dom (fh_abs s)"

lemma used_exact_init: "used_exact fh_init"
  by (simp add: used_exact_def used_prefix_def fh_abs_init) (simp add: fh_init_def fht_instance_def)

lemma after_insert_used_prefix:
  assumes inv: "fh_inv s" and fd: "0 \<le> fd" "fd < MAX_FILES" and none: "fh_abs s fd = None"
  shows "used_prefix (after_insert fd h s) = used_prefix s @ [fd]"
proof -
  have p: "file_handles (fht s) ! nat fd = None"
    using fh_abs_None_iff [OF inv fd] none by simp
  note b = fh_inv_pos_bounds(1) [OF inv] fh_inv_pos_None [OF inv fd p]
  then have "nat (used_file_descriptor_pos (fht s)) < length (used_file_descriptors (fht s))"
    using fh_inv_len(3) [OF inv] by simp
  with b show ?thesis
    by (simp add: used_prefix_def after_insert_def nat_add_distrib take_Suc_conv_app_nth)
qed

lemma insert_used_exact:
  assumes inv: "fh_inv s" and ue: "used_exact s" and fd: "0 \<le> fd"
    and r: "insert_file_handle fd h s = Ret (rv, s')"
  shows "used_exact s'"
proof -
  consider "MAX_FILES \<le> fd" | h' where "fd < MAX_FILES" "fh_abs s fd = Some h'"
    | "fd < MAX_FILES" "fh_abs s fd = None"
    by (cases "fd < MAX_FILES"; cases "fh_abs s fd") auto
  then show ?thesis
  proof cases
    case 1
    then show ?thesis using r ue by (simp add: insert_file_handle_def)
  next
    case 2
    then show ?thesis using r ue insert_file_handle_busy [OF inv fd 2] by simp
  next
    case 3
    have s': "s' = after_insert fd h s"
      using r insert_file_handle_eq [OF inv fd 3, of h] by simp
    have "fh_abs s' = (fh_abs s)(fd \<mapsto> h)"
      using insert_refines [OF inv fd, of h] r 3 by (auto simp: insert_spec_def)
    with 3(2) ue after_insert_used_prefix [OF inv fd 3, of h] show ?thesis
      by (auto simp: used_exact_def s')
  qed
qed

definition fh_inv_used :: "fh_state \<Rightarrow> bool" where
  "fh_inv_used s \<longleftrightarrow> fh_inv s \<and> used_exact s"

fun is_insert :: "fh_op \<Rightarrow> bool" where
  "is_insert (Op_Insert fd h) = (0 \<le> fd)"
| "is_insert (Op_Remove fd) = False"
| "is_insert (Op_Duplicate fd1 fd2) = False"

interpretation idt: data_refinement fh_inv_used fh_abs is_insert fh_step fh_spec
proof unfold_locales
  fix s :: fh_state and x :: fh_op
  assume "fh_inv_used s" and v: "is_insert x"
  then have inv: "fh_inv s" and ue: "used_exact s" by (simp_all add: fh_inv_used_def)
  from v obtain fd h where x: "x = Op_Insert fd h" "0 \<le> fd" by (cases x) simp_all
  from insert_refines [OF inv x(2)] insert_used_exact [OF inv ue x(2)] x(1)
  show "\<exists>s'. fh_step x s = Ret (fst (fh_spec x (fh_abs s)), s') \<and> fh_inv_used s' \<and>
      fh_abs s' = snd (fh_spec x (fh_abs s))"
    by (fastforce simp: fh_inv_used_def)
qed

section \<open>Properties\<close>



text \<open>
  C32. The table of the musl variant never leaks and never frees a node in use: after any sequence of
  operations from the empty table, every allocated node has a positive use count equal to the number
  of descriptors that point to it, and every descriptor in range looks up the specification's value.
\<close>

theorem musl_table_use_counts_exact:
  assumes "list_all fh_valid ops"
  shows "\<exists>s. run_steps fh_step_musl ops fh_init = Ret (fst (run_spec fh_spec_musl ops Map.empty), s) \<and>
    (\<forall>a n. fh_heap s a = Some n \<longrightarrow>
       use_count n = int (count (mset (file_handles (fht s))) (Some a)) \<and> 0 < use_count n) \<and>
    (\<forall>fd. 0 \<le> fd \<longrightarrow> fd < MAX_FILES \<longrightarrow>
       lookup_file_handle fd s = Ret (snd (run_spec fh_spec_musl ops Map.empty) fd))"
proof -
  have "fh_inv_exact fh_init"
    by (simp add: fh_inv_exact_def fh_inv_init fh_exact_init)
  from mdt.run_law [OF this assms] obtain s where s:
      "run_steps fh_step_musl ops fh_init = Ret (fst (run_spec fh_spec_musl ops Map.empty), s)"
      "fh_inv s" "fh_exact s" "fh_abs s = snd (run_spec fh_spec_musl ops Map.empty)"
    by (auto simp: fh_abs_init fh_inv_exact_def)
  then show ?thesis
    using lookup_file_handle_abs [OF s(2)] fh_exactD [OF s(3)] by metis
qed

theorem musl_table_use_counts_exact_witness:
  "\<exists>s. run_steps fh_step_musl
      [Op_Insert 3 \<lparr>file_handle = 7, mount = 0\<rparr>, Op_Insert 4 \<lparr>file_handle = 8, mount = 1\<rparr>,
       Op_Duplicate 3 4] fh_init = Ret ([0, 0, 0], s) \<and>
    (\<forall>a n. fh_heap s a = Some n \<longrightarrow>
       use_count n = int (count (mset (file_handles (fht s))) (Some a)) \<and> 0 < use_count n)"
  using musl_table_use_counts_exact [of
      "[Op_Insert 3 \<lparr>file_handle = 7, mount = 0\<rparr>, Op_Insert 4 \<lparr>file_handle = 8, mount = 1\<rparr>,
        Op_Duplicate 3 4]"]
  by (force simp: insert_spec_def duplicate_spec_musl_def MAX_FILES_def simp del: run_steps.simps)

text \<open>
  The table of libdefuse leaks: duplicating descriptor 3 over the open descriptor 4 leaves the node
  of descriptor 4 allocated with use count 1 although no descriptor points to it any more.
\<close>

theorem duplicate_over_open_leaks:
  "\<exists>s. run_steps fh_step
      [Op_Insert 3 \<lparr>file_handle = 7, mount = 0\<rparr>, Op_Insert 4 \<lparr>file_handle = 8, mount = 0\<rparr>,
       Op_Duplicate 3 4] fh_init = Ret ([0, 0, 0], s) \<and>
    fh_heap s 1 = Some \<lparr>f_data = \<lparr>file_handle = 8, mount = 0\<rparr>, use_count = 1\<rparr> \<and>
    Some 1 \<notin> set (file_handles (fht s))"
  by (simp add: insert_file_handle_def duplicate_file_handle_def fh_init_def fht_instance_def
      MAX_FILES_def arr_get_def arr_set_def file_handle_use_count_internal_def
      allocate_file_handle_def set_file_handle_def add_use_count_def link_file_descriptor_def)
     (auto dest!: set_update_subset_insert [THEN subsetD])

text \<open>
  As long as descriptors are only inserted, the first \<^verbatim>\<open>used_file_descriptor_pos\<close> entries of
  \<^verbatim>\<open>used_file_descriptors\<close>, which saving for an exec walks, list the open descriptors exactly once each.
\<close>

theorem inserts_list_used_descriptors:
  assumes "list_all is_insert ops"
  shows "\<exists>s. run_steps fh_step ops fh_init = Ret (fst (run_spec fh_spec ops Map.empty), s) \<and>
    distinct (used_prefix s) \<and> set (used_prefix s) = dom (snd (run_spec fh_spec ops Map.empty))"
proof -
  have "fh_inv_used fh_init"
    by (simp add: fh_inv_used_def fh_inv_init used_exact_init)
  from idt.run_law [OF this assms] show ?thesis
    by (auto simp: fh_abs_init fh_inv_used_def used_exact_def)
qed

theorem inserts_list_used_descriptors_witness:
  "\<exists>s. run_steps fh_step
      [Op_Insert 5 \<lparr>file_handle = 7, mount = 0\<rparr>, Op_Insert 6 \<lparr>file_handle = 8, mount = 0\<rparr>] fh_init
      = Ret ([0, 0], s) \<and> distinct (used_prefix s) \<and> set (used_prefix s) = {5, 6}"
  using inserts_list_used_descriptors [of
      "[Op_Insert 5 \<lparr>file_handle = 7, mount = 0\<rparr>, Op_Insert 6 \<lparr>file_handle = 8, mount = 0\<rparr>]"]
  by (simp add: insert_spec_def MAX_FILES_def insert_commute)

text \<open>
  A removal corrupts that list: after descriptors 5 and 6 are inserted and 5 is removed, the list
  holds the index 1 instead of descriptor 6, so the open descriptor 6 is no longer listed and the
  closed descriptor 1 is.
\<close>

theorem remove_corrupts_used_list:
  "\<exists>s. run_steps fh_step
      [Op_Insert 5 \<lparr>file_handle = 7, mount = 0\<rparr>, Op_Insert 6 \<lparr>file_handle = 8, mount = 0\<rparr>,
       Op_Remove 5] fh_init = Ret ([0, 0, 0], s) \<and>
    used_prefix s = [1] \<and>
    lookup_file_handle 1 s = Ret None \<and>
    lookup_file_handle 6 s = Ret (Some \<lparr>file_handle = 8, mount = 0\<rparr>)"
  by (simp add: insert_file_handle_def remove_file_handle_def fh_init_def fht_instance_def
      MAX_FILES_def arr_get_def arr_set_def file_handle_use_count_internal_def
      allocate_file_handle_def set_file_handle_def add_use_count_def link_file_descriptor_def
      unlink_file_descriptor_def free_file_handle_def used_prefix_def lookup_file_handle_def
      eval_nat_numeral)

end
