(* ===== verification/Shared_Space.thy ===== *)
theory Shared_Space
  imports Mount_Points Descriptor_Table
begin

text \<open>
  The state of a process that uses libdefuse, and \<^verbatim>\<open>libdefuse/shared_space.c\<close>: the file in \<^verbatim>\<open>/tmp\<close>, mapped
  into memory, through which open handles survive an \<^verbatim>\<open>exec\<close>.
\<close>

section \<open>The process\<close>

datatype mapping_ptr = Null_Ptr | Map_Failed | Mapped bytes

record shared_space =
  ss_fd :: int
  ss_size :: nat
  space_ptr :: mapping_ptr

text \<open>The static variables of the library (with their initialisation flags), and the environment.\<close>

record 'w proc =
  mp_initialized :: bool
  mounts_loaded_flag :: bool
  mount_points :: "'w mount_point_array"
  fhs :: fh_state
  space :: shared_space
  penv :: "'w env"

definition ss_instance :: shared_space where
  "ss_instance = \<lparr>ss_fd = - 1, ss_size = 0, space_ptr = Null_Ptr\<rparr>"

definition proc_start :: "'w env \<Rightarrow> 'w proc" where
  "proc_start e = \<lparr>mp_initialized = False, mounts_loaded_flag = False, mount_points = [], fhs = fh_init,
     space = ss_instance, penv = e\<rparr>"

section \<open>The shared space\<close>

definition O_RDONLY :: int where "O_RDONLY = 0"
definition O_RDWR :: int where "O_RDWR = 2"
definition O_CREAT :: int where "O_CREAT = 64"
definition F_RDLCK :: int where "F_RDLCK = 0"
definition F_UNLCK :: int where "F_UNLCK = 2"
definition SEEK_SET :: int where "SEEK_SET = 0"
definition SEEK_CUR :: int where "SEEK_CUR = 1"
definition SEEK_END :: int where "SEEK_END = 2"

lemmas c_constants = O_RDONLY_def O_RDWR_def O_CREAT_def F_RDLCK_def F_UNLCK_def SEEK_SET_def
  SEEK_CUR_def SEEK_END_def

definition get_file_size :: "'w kernel \<Rightarrow> int \<Rightarrow> 'w env \<Rightarrow> int \<times> 'w env" where
  "get_file_size k fd e =
     (case k_setlk k fd F_RDLCK e of
        (fcntl_rv, e1) \<Rightarrow>
          if fcntl_rv = - 1 then (0, e1)
          else
            (case k_lseek k fd 0 SEEK_SET e1 of (current_pos, e2) \<Rightarrow>
             case k_lseek k fd 0 SEEK_END e2 of (sz, e3) \<Rightarrow>
             case k_lseek k fd current_pos SEEK_SET e3 of (_, e4) \<Rightarrow>
             case k_setlk k fd F_UNLCK e4 of (_, e5) \<Rightarrow> (sz, e5)))"

function dec_digits :: "nat \<Rightarrow> string" where
  "dec_digits n =
     (if n < 10 then [char_of (48 + n)] else dec_digits (n div 10) @ [char_of (48 + n mod 10)])"
  by pat_completeness auto
termination
  by (relation "measure id") auto

declare dec_digits.simps [simp del]

definition get_shared_space_file_name :: "'w kernel \<Rightarrow> 'w env \<Rightarrow> string" where
  "get_shared_space_file_name k e = take 31 (''/tmp/defuse_'' @ dec_digits (k_getpid k e))"

definition mapped_bytes :: "mapping_ptr \<Rightarrow> bytes" where
  "mapped_bytes p = (case p of Mapped b \<Rightarrow> b | _ \<Rightarrow> [])"

definition release_shared_space :: "'w kernel \<Rightarrow> 'w proc \<Rightarrow> 'w proc" where
  "release_shared_space k p =
     (if ss_fd (space p) \<ge> 0 then
        (case k_munmap k (mapped_bytes (space_ptr (space p))) (ss_size (space p)) (penv p) of (_, e1) \<Rightarrow>
         case k_close k (ss_fd (space p)) e1 of (_, e2) \<Rightarrow>
           p\<lparr>space := (space p)\<lparr>ss_fd := - 1\<rparr>, penv := e2\<rparr>)
      else p)"

text \<open>The pointer the functions below return is \<^verbatim>\<open>NULL\<close> or the mapping in the state.\<close>

definition map_space :: "'w kernel \<Rightarrow> int \<Rightarrow> nat \<Rightarrow> 'w proc \<Rightarrow> mapping_ptr \<times> 'w proc" where
  "map_space k fd n p =
     (case k_mmap k fd n (penv p) of
        (None, e) \<Rightarrow> (Null_Ptr, p\<lparr>space := \<lparr>ss_fd = fd, ss_size = n, space_ptr = Map_Failed\<rparr>, penv := e\<rparr>)
      | (Some b, e) \<Rightarrow> (Mapped b, p\<lparr>space := \<lparr>ss_fd = fd, ss_size = n, space_ptr = Mapped b\<rparr>, penv := e\<rparr>))"

definition get_shared_space :: "'w kernel \<Rightarrow> 'w proc \<Rightarrow> mapping_ptr \<times> 'w proc" where
  "get_shared_space k p =
     (if ss_fd (space p) = - 1 then
        (case k_open k (get_shared_space_file_name k (penv p)) O_RDWR 0 (penv p) of
           (fd, e1) \<Rightarrow>
             if fd = - 1 then (Null_Ptr, p\<lparr>space := (space p)\<lparr>ss_fd := fd\<rparr>, penv := e1\<rparr>)
             else
               (case get_file_size k fd e1 of
                  (n, e2) \<Rightarrow> map_space k fd (nat n) (p\<lparr>penv := e2\<rparr>)))
      else (space_ptr (space p), p))"

definition init_shared_space :: "'w kernel \<Rightarrow> nat \<Rightarrow> 'w proc \<Rightarrow> mapping_ptr \<times> 'w proc" where
  "init_shared_space k sz p =
     (let e0 = (if ss_fd (space p) \<noteq> - 1
                then snd (k_munmap k (mapped_bytes (space_ptr (space p))) (ss_size (space p)) (penv p))
                else penv p) in
      case k_open k (get_shared_space_file_name k e0) (O_RDWR OR O_CREAT) 384 e0 of
        (fd, e1) \<Rightarrow>
          if fd = - 1 then (Null_Ptr, p\<lparr>space := (space p)\<lparr>ss_fd := fd\<rparr>, penv := e1\<rparr>)
          else
            (case k_ftruncate k fd (int sz) e1 of
               (r, e2) \<Rightarrow>
                 if r = - 1 then
                   (Null_Ptr, p\<lparr>space := (space p)\<lparr>ss_fd := fd, ss_size := sz\<rparr>, penv := e2\<rparr>)
                 else map_space k fd sz (p\<lparr>penv := e2\<rparr>)))"

end
