(* ===== verification/Byte_Codec.thy ===== *)
theory Byte_Codec
  imports Defuse_Prelude
begin

text \<open>
  Integers and characters as bytes in memory: the little-endian layout of the 64-bit fields that
  \<^verbatim>\<open>file_handles.c\<close> copies into the shared space, and stores into and loads from a byte buffer.
\<close>

fun le_bytes :: "nat \<Rightarrow> nat \<Rightarrow> bytes" where
  "le_bytes 0 n = []"
| "le_bytes (Suc k) n = of_nat n # le_bytes k (n div 256)"

fun le_nat :: "bytes \<Rightarrow> nat" where
  "le_nat [] = 0"
| "le_nat (b # bs) = unat b + 256 * le_nat bs"

lemma length_le_bytes [simp]: "length (le_bytes k n) = k"
  by (induction k arbitrary: n) auto

lemma unat_byte: "unat (of_nat n :: u8) = n mod 256"
  by (simp add: unat_of_nat)

lemma le_nat_le_bytes: "le_nat (le_bytes k n) = n mod 256 ^ k"
proof (induction k arbitrary: n)
  case (Suc k)
  then show ?case
    using mod_mult2_eq [of n 256 "256 ^ k"] by (simp add: unat_byte)
qed simp

lemma le_bytes_zero: "le_bytes k 0 = replicate k 0"
  by (induction k) auto

lemma le_bytes_small: "n < 256 \<Longrightarrow> le_bytes (Suc k) n = of_nat n # replicate k 0"
  by (simp add: le_bytes_zero)

section \<open>Stores and loads\<close>

text \<open>\<^verbatim>\<open>copy_with_offset\<close>, and the loads through cast pointers.\<close>

definition copy_with_offset :: "bytes \<Rightarrow> bytes \<Rightarrow> nat \<Rightarrow> (bytes \<times> nat) cres" where
  "copy_with_offset target source offset =
     (if offset + length source \<le> length target
      then Ret (take offset target @ source @ drop (offset + length source) target, offset + length source)
      else Undef Out_Of_Bounds)"

definition load_u64 :: "bytes \<Rightarrow> nat \<Rightarrow> nat cres" where
  "load_u64 b off =
     (if off + 8 \<le> length b then Ret (le_nat (take 8 (drop off b))) else Undef Out_Of_Bounds)"

lemma copy_with_offset_end:
  "length src \<le> length rest \<Longrightarrow>
    copy_with_offset (done @ rest) src (length done) =
      Ret ((done @ src) @ drop (length src) rest, length (done @ src))"
  by (simp add: copy_with_offset_def)

lemma load_u64_at:
  "n < 2 ^ 64 \<Longrightarrow> load_u64 (pre @ le_bytes 8 n @ rest) (length pre) = Ret n"
  by (simp add: load_u64_def le_nat_le_bytes)

section \<open>Characters\<close>

definition byte_of_char :: "char \<Rightarrow> u8" where
  "byte_of_char c = of_nat (of_char c)"

definition char_of_byte :: "u8 \<Rightarrow> char" where
  "char_of_byte b = char_of (unat b)"

lemma char_of_byte_of_char [simp]: "char_of_byte (byte_of_char c) = c"
  by (simp add: char_of_byte_def byte_of_char_def unat_byte)

lemma map_char_of_byte [simp]: "map char_of_byte (map byte_of_char s) = s"
  by (simp add: comp_def map_idI)

text \<open>What a decoder must undo: the laws of an encoding and the scan of a sequence of encoded values.\<close>

end
