(* ===== verification/Save_Restore.thy ===== *)
theory Save_Restore
  imports Shared_Space Byte_Codec
begin

text \<open>
  Saving the open handles before an \<^verbatim>\<open>exec\<close> and restoring them afterwards
  (\<^verbatim>\<open>save_file_handles_to_shared_space\<close> and \<^verbatim>\<open>restore_file_handles_from_shared_space\<close> of
  \<^verbatim>\<open>libdefuse/file_handles.c\<close>). The image in the shared space is laid out byte by byte.
\<close>

section \<open>Saving\<close>

text \<open>\<^verbatim>\<open>struct shared_space_mount_point_data\<close> and \<^verbatim>\<open>struct shared_space_file_data\<close> in memory.\<close>

definition mount_point_record :: "'w mount_point_data \<Rightarrow> bytes" where
  "mount_point_record m =
     le_bytes 8 (nat (index m mod 2 ^ 64)) @ le_bytes 8 (length (mount_path m) + 1)"

definition file_record :: "u64 \<Rightarrow> int \<Rightarrow> int \<Rightarrow> bytes" where
  "file_record fh fd idx =
     le_bytes 8 (unat fh) @ le_bytes 8 (nat (fd mod 2 ^ 64)) @ le_bytes 8 (nat (idx mod 2 ^ 64))"

fun save_mounts :: "'w mount_point_array \<Rightarrow> bytes \<Rightarrow> nat \<Rightarrow> (bytes \<times> nat) cres" where
  "save_mounts [] b off = Ret (b, off)"
| "save_mounts (m # ms) b off =
     cbind (copy_with_offset b (mount_point_record m) off) (\<lambda>(b1, off1).
     cbind (copy_with_offset b1 (map byte_of_char (mount_path m)) off1) (\<lambda>(b2, off2).
     cbind (copy_with_offset b2 [0] off2) (\<lambda>(b3, off3).
     save_mounts ms b3 off3)))"

text \<open>One handle: \<^verbatim>\<open>&fht->file_handles[fd]->f_data\<close>, its mount, the library's save routine, the record.\<close>

definition entry_data :: "fh_state \<Rightarrow> int \<Rightarrow> file_handle_data cres" where
  "entry_data s fd =
     cbind (arr_get (file_handles (fht s)) fd) (\<lambda>p.
     case p of
       None \<Rightarrow> Undef Null_Deref
     | Some a \<Rightarrow> (case fh_heap s a of None \<Rightarrow> Undef Use_After_Free | Some n \<Rightarrow> Ret (f_data n)))"

definition mount_at :: "'w mount_point_array \<Rightarrow> nat \<Rightarrow> 'w mount_point_data cres" where
  "mount_at ms i = (if i < length ms then Ret (ms ! i) else Undef Out_Of_Bounds)"

definition call_hook :: "(u64 \<Rightarrow> 'w env \<Rightarrow> int \<times> 'w env) option \<Rightarrow> u64 \<Rightarrow> 'w env \<Rightarrow> 'w env" where
  "call_hook f h e = (case f of None \<Rightarrow> e | Some g \<Rightarrow> snd (g h e))"

fun save_files :: "'w mount_point_array \<Rightarrow> fh_state \<Rightarrow> int list \<Rightarrow> bytes \<Rightarrow> nat \<Rightarrow> 'w env \<Rightarrow>
    (bytes \<times> nat \<times> 'w env) cres" where
  "save_files ms s [] b off e = Ret (b, off, e)"
| "save_files ms s (fd # fds) b off e =
     cbind (entry_data s fd) (\<lambda>fhd.
     cbind (mount_at ms (mount fhd)) (\<lambda>m.
     cbind (copy_with_offset b (file_record (file_handle fhd) fd (index m)) off) (\<lambda>(b1, off1).
     save_files ms s fds b1 off1 (call_hook (usfs_save (ops m)) (file_handle fhd) e))))"

definition shared_space_size :: "'w mount_point_array \<Rightarrow> nat \<Rightarrow> nat" where
  "shared_space_size ms file_count =
     8 + sum_list (map (\<lambda>m. 16 + length (mount_path m)) ms) + 8 + file_count * 24"

text \<open>The stores into the mapping, in order.\<close>

definition save_image :: "'w mount_point_array \<Rightarrow> fh_state \<Rightarrow> bytes \<Rightarrow> 'w env \<Rightarrow> (bytes \<times> 'w env) cres" where
  "save_image ms s b e =
     cbind (copy_with_offset b (le_bytes 8 (length ms)) 0) (\<lambda>(b1, off1).
     cbind (save_mounts ms b1 off1) (\<lambda>(b2, off2).
     cbind (copy_with_offset b2 (le_bytes 8 (nat (used_file_descriptor_pos (fht s)))) off2) (\<lambda>(b3, off3).
     cmap (\<lambda>(b4, off4, e1). (b4, e1))
       (save_files ms s
          (take (nat (used_file_descriptor_pos (fht s))) (used_file_descriptors (fht s))) b3 off3 e))))"

definition save_file_handles_to_shared_space :: "'w kernel \<Rightarrow> 'w proc \<Rightarrow> (int \<times> 'w proc) cres" where
  "save_file_handles_to_shared_space k p =
     (if used_file_descriptor_pos (fht (fhs p)) > 0 then
        (case init_shared_space k
                (shared_space_size (mount_points p) (nat (used_file_descriptor_pos (fht (fhs p))))) p of
           (Mapped b, p1) \<Rightarrow>
             cmap (\<lambda>(b1, e1).
                 (0, release_shared_space k
                       (p1\<lparr>space := (space p1)\<lparr>space_ptr := Mapped b1\<rparr>, penv := e1\<rparr>)))
               (save_image (mount_points p) (fhs p) b (penv p1))
         | (_, p1) \<Rightarrow> Ret (- 1, p1))
      else Ret (0, p))"

section \<open>Restoring\<close>

text \<open>The positions of the mount paths in the mapping, and where the file section starts.\<close>

fun scan_mounts :: "nat \<Rightarrow> bytes \<Rightarrow> nat \<Rightarrow> (nat list \<times> nat) cres" where
  "scan_mounts 0 b off = Ret ([], off)"
| "scan_mounts (Suc n) b off =
     cbind (load_u64 b (off + 8)) (\<lambda>len.
     cmap (\<lambda>(ps, off'). ((off + 16) # ps, off')) (scan_mounts n b (off + 16 + len)))"

definition path_at :: "bytes \<Rightarrow> nat \<Rightarrow> string cres" where
  "path_at b off =
     (if 0 \<in> set (drop off b)
      then Ret (map char_of_byte (takeWhile (\<lambda>x. x \<noteq> 0) (drop off b)))
      else Undef Unterminated)"

fun restore_files :: "'w mount_point_array \<Rightarrow> nat list \<Rightarrow> nat \<Rightarrow> bytes \<Rightarrow> nat \<Rightarrow> fh_state \<Rightarrow> 'w env \<Rightarrow>
    (fh_state \<times> 'w env) cres" where
  "restore_files ms paths 0 b off s e = Ret (s, e)"
| "restore_files ms paths (Suc n) b off s e =
     cbind (load_u64 b off) (\<lambda>fh.
     cbind (load_u64 b (off + 8)) (\<lambda>fd.
     cbind (load_u64 b (off + 16)) (\<lambda>idx.
     if idx < length paths then
       cbind (path_at b (paths ! idx)) (\<lambda>path.
       case find_mount_from_path ms path of
         None \<Rightarrow> restore_files ms paths n b (off + 24) s e
       | Some i \<Rightarrow>
           (let real_fd = to_c_int (int fd) in
            cbind (file_handle_exists real_fd s) (\<lambda>ex.
            if ex then restore_files ms paths n b (off + 24) s e
            else
              cbind (insert_file_handle real_fd \<lparr>file_handle = of_nat fh, mount = i\<rparr> s) (\<lambda>(rv, s1).
              restore_files ms paths n b (off + 24) s1
                (call_hook (usfs_restore (ops (ms ! i))) (of_nat fh) e)))))
     else restore_files ms paths n b (off + 24) s e)))"

definition restore_image :: "'w mount_point_array \<Rightarrow> bytes \<Rightarrow> fh_state \<Rightarrow> 'w env \<Rightarrow> (fh_state \<times> 'w env) cres" where
  "restore_image ms b s e =
     cbind (load_u64 b 0) (\<lambda>mount_point_count.
     cbind (scan_mounts mount_point_count b 8) (\<lambda>(paths, off).
     cbind (load_u64 b off) (\<lambda>file_count.
     restore_files ms paths file_count b (off + 8) s e)))"

text \<open>The function has no \<^verbatim>\<open>return\<close> statement; its only caller ignores the result.\<close>

definition restore_file_handles_from_shared_space :: "'w kernel \<Rightarrow> 'w proc \<Rightarrow> 'w proc cres" where
  "restore_file_handles_from_shared_space k p =
     (case get_shared_space k p of
        (Mapped b, p1) \<Rightarrow>
          cmap (\<lambda>(s, e). release_shared_space k (p1\<lparr>fhs := s, penv := e\<rparr>))
            (restore_image (mount_points p1) b (fhs p1) (penv p1))
      | (Map_Failed, p1) \<Rightarrow> Undef Out_Of_Bounds
      | (Null_Ptr, p1) \<Rightarrow> Ret p1)"


section \<open>The image\<close>

definition mounts_image :: "'w mount_point_array \<Rightarrow> bytes" where
  "mounts_image ms = concat (map (\<lambda>m. mount_point_record m @ map byte_of_char (mount_path m) @ [0]) ms)"

definition files_image :: "(u64 \<times> int \<times> int) list \<Rightarrow> bytes" where
  "files_image rs = concat (map (\<lambda>(fh, fd, idx). file_record fh fd idx) rs)"

definition handle_image :: "'w mount_point_array \<Rightarrow> (u64 \<times> int \<times> int) list \<Rightarrow> bytes" where
  "handle_image ms rs = le_bytes 8 (length ms) @ mounts_image ms @ le_bytes 8 (length rs) @ files_image rs"

lemma image_simps [simp]:
  "mounts_image [] = []"
  "mounts_image (m # ms) = mount_point_record m @ map byte_of_char (mount_path m) @ [0] @ mounts_image ms"
  "files_image [] = []"
  "files_image ((fh, fd, idx) # rs) = file_record fh fd idx @ files_image rs"
  "files_image (rs @ rs') = files_image rs @ files_image rs'"
  by (simp_all add: mounts_image_def files_image_def)

lemma length_records [simp]: "length (mount_point_record m) = 16" "length (file_record fh fd idx) = 24"
  by (simp_all add: mount_point_record_def file_record_def)

lemma length_files_image [simp]: "length (files_image rs) = 24 * length rs"
  by (induction rs) auto

lemma length_image: "length (handle_image ms rs) = shared_space_size ms (length rs) + length ms"
proof -
  have "length (mounts_image ms) = sum_list (map (\<lambda>m. 16 + length (mount_path m)) ms) + length ms"
    by (induction ms) auto
  then show ?thesis
    by (simp add: handle_image_def shared_space_size_def)
qed

lemma copy_with_offset_over:
  "length rest < length src \<Longrightarrow> copy_with_offset (pre @ rest) src (length pre) = Undef Out_Of_Bounds"
  by (simp add: copy_with_offset_def)

text \<open>What a sequence of stores starting at the end of \<open>pre\<close> does: all of \<open>img\<close>, or an access out of bounds.\<close>

definition stores :: "bytes \<Rightarrow> bytes \<Rightarrow> bytes \<Rightarrow> (bytes \<times> nat) cres" where
  "stores img pre rest =
     (if length img \<le> length rest then Ret ((pre @ img) @ drop (length img) rest, length (pre @ img))
      else Undef Out_Of_Bounds)"

lemma copy_stores: "copy_with_offset (pre @ rest) src (length pre) = stores src pre rest"
  by (simp add: stores_def copy_with_offset_end copy_with_offset_over)

lemma stores_bind_map:
  assumes "\<And>rest'. f ((pre @ a) @ rest') (length (pre @ a)) = cmap g (stores c (pre @ a) rest')"
  shows "cbind (stores a pre rest) (\<lambda>(b, off). f b off) = cmap g (stores (a @ c) pre rest)"
  using assms [of "drop (length a) rest"] by (auto simp: stores_def add.commute)

lemma stores_bind:
  assumes "\<And>rest'. f ((pre @ a) @ rest') (length (pre @ a)) = stores c (pre @ a) rest'"
  shows "cbind (stores a pre rest) (\<lambda>(b, off). f b off) = stores (a @ c) pre rest"
  using assms [of "drop (length a) rest"] by (auto simp: stores_def add.commute)

lemma save_mounts_stores: "save_mounts ms (pre @ rest) (length pre) = stores (mounts_image ms) pre rest"
proof (induction ms arbitrary: pre rest)
  case Nil
  then show ?case by (simp add: stores_def)
next
  case (Cons m ms)
  have 3: "cbind (copy_with_offset (d @ r) [0] (length d)) (\<lambda>(b3, off3). save_mounts ms b3 off3) =
      stores ([0] @ mounts_image ms) d r" for d r
    unfolding copy_stores by (rule stores_bind) (rule Cons.IH)
  have 2: "cbind (copy_with_offset (d @ r) (map byte_of_char (mount_path m)) (length d)) (\<lambda>(b2, off2).
      cbind (copy_with_offset b2 [0] off2) (\<lambda>(b3, off3). save_mounts ms b3 off3)) =
      stores (map byte_of_char (mount_path m) @ [0] @ mounts_image ms) d r" for d r
    unfolding copy_stores by (rule stores_bind) (rule 3)
  show ?case
    unfolding save_mounts.simps copy_stores image_simps by (rule stores_bind) (rule 2)
qed

text \<open>The record of an open descriptor.\<close>

definition record_of :: "'w mount_point_array \<Rightarrow> fh_state \<Rightarrow> int \<Rightarrow> u64 \<times> int \<times> int" where
  "record_of ms s fd =
     (let h = the (fh_abs s fd) in (file_handle h, fd, index (ms ! mount h)))"

lemma entry_data_abs:
  assumes "fh_inv s" and "fh_abs s fd = Some h"
  shows "entry_data s fd = Ret h"
proof -
  have fd: "0 \<le> fd" "fd < MAX_FILES"
    using assms(2) by (auto simp: fh_abs_def split: if_splits)
  obtain a n where "file_handles (fht s) ! nat fd = Some a" "fh_heap s a = Some n" "f_data n = h"
    using fh_abs_Some_entry [OF assms(1) fd assms(2)] by blast
  then show ?thesis
    using fd fh_inv_len(1) [OF assms(1)] by (simp add: entry_data_def)
qed

text \<open>The environment after the save routines of the open handles.\<close>

definition save_hooks :: "'w mount_point_array \<Rightarrow> fh_state \<Rightarrow> int list \<Rightarrow> 'w env \<Rightarrow> 'w env" where
  "save_hooks ms s fds e =
     fold (\<lambda>fd. let h = the (fh_abs s fd) in call_hook (usfs_save (ops (ms ! mount h))) (file_handle h)) fds e"

lemma save_files_stores:
  assumes "fh_inv s"
    and "\<forall>fd \<in> set fds. \<exists>h. fh_abs s fd = Some h \<and> mount h < length ms"
  shows "save_files ms s fds (pre @ rest) (length pre) e =
    cmap (\<lambda>(b, off). (b, off, save_hooks ms s fds e)) (stores (files_image (map (record_of ms s) fds)) pre rest)"
  using assms(2)
proof (induction fds arbitrary: pre rest e)
  case Nil
  then show ?case by (simp add: stores_def save_hooks_def)
next
  case (Cons fd fds)
  then obtain h where h: "fh_abs s fd = Some h" "mount h < length ms" by auto
  note ed = entry_data_abs [OF assms(1) h(1)]
  let ?r = "file_record (file_handle h) fd (index (ms ! mount h))"
  have r: "record_of ms s fd = (file_handle h, fd, index (ms ! mount h))"
    using h(1) by (simp add: record_of_def)
  let ?e = "call_hook (usfs_save (ops (ms ! mount h))) (file_handle h) e"
  have hk: "save_hooks ms s (fd # fds) e = save_hooks ms s fds ?e"
    using h(1) by (simp add: save_hooks_def)
  have "cbind (stores ?r pre rest) (\<lambda>(b1, off1). save_files ms s fds b1 off1 ?e) =
      cmap (\<lambda>(b, off). (b, off, save_hooks ms s fds ?e))
        (cbind (stores ?r pre rest) (\<lambda>(b1, off1). stores (files_image (map (record_of ms s) fds)) (take off1 b1) (drop off1 b1)))"
    using Cons.IH [of "pre @ ?r" "drop 24 rest" ?e] Cons.prems by (simp add: stores_def)
  also have "cbind (stores ?r pre rest) (\<lambda>(b1, off1). stores (files_image (map (record_of ms s) fds)) (take off1 b1) (drop off1 b1)) =
      stores (?r @ files_image (map (record_of ms s) fds)) pre rest"
    by (rule stores_bind) simp
  finally show ?case
    using ed h(2) hk r by (simp add: mount_at_def copy_stores)
qed

lemma save_image_stores:
  assumes "fh_inv s" and "\<forall>fd \<in> set (used_prefix s). \<exists>h. fh_abs s fd = Some h \<and> mount h < length ms"
  shows "save_image ms s b e =
    cmap (\<lambda>(b', off). (b', save_hooks ms s (used_prefix s) e))
      (stores (handle_image ms (map (record_of ms s) (used_prefix s))) [] b)"
proof -
  let ?rs = "map (record_of ms s) (used_prefix s)" and ?e = "save_hooks ms s (used_prefix s) e"
  have pos: "nat (used_file_descriptor_pos (fht s)) = length ?rs"
    using fh_inv_pos_bounds [OF assms(1)] fh_inv_len(3) [OF assms(1)] by (simp add: used_prefix_def)
  let ?g = "\<lambda>(b' :: bytes, off :: nat). (b', ?e)"
  let ?wf = "\<lambda>b3 off3. cmap (\<lambda>(b4, off4, e1). (b4, e1)) (save_files ms s (used_prefix s) b3 off3 e)"
  let ?wc = "\<lambda>b2 off2. cbind (copy_with_offset b2 (le_bytes 8 (length ?rs)) off2) (\<lambda>(b3, off3). ?wf b3 off3)"
  let ?wm = "\<lambda>b1 off1. cbind (save_mounts ms b1 off1) (\<lambda>(b2, off2). ?wc b2 off2)"
  have f: "?wf (d @ r) (length d) = cmap ?g (stores (files_image ?rs) d r)" for d r
    by (simp add: save_files_stores [OF assms] stores_def)
  have c: "?wc (d @ r) (length d) = cmap ?g (stores (le_bytes 8 (length ?rs) @ files_image ?rs) d r)" for d r
    unfolding copy_stores by (rule stores_bind_map) (rule f)
  have m: "?wm (d @ r) (length d) =
      cmap ?g (stores (mounts_image ms @ le_bytes 8 (length ?rs) @ files_image ?rs) d r)" for d r
    unfolding save_mounts_stores by (rule stores_bind_map) (rule c)
  have "cbind (copy_with_offset ([] @ b) (le_bytes 8 (length ms)) (length ([] :: bytes))) (\<lambda>(b1, off1). ?wm b1 off1) =
      cmap ?g (stores (handle_image ms ?rs) [] b)"
    unfolding copy_stores handle_image_def by (rule stores_bind_map) (rule m)
  moreover have "save_image ms s b e =
      cbind (copy_with_offset b (le_bytes 8 (length ms)) 0) (\<lambda>(b1, off1). ?wm b1 off1)"
    unfolding save_image_def used_prefix_def [symmetric] unfolding pos ..
  ultimately show ?thesis
    by simp
qed

section \<open>Reading an image back\<close>

fun mount_offsets :: "'w mount_point_array \<Rightarrow> nat \<Rightarrow> nat list" where
  "mount_offsets [] off = []"
| "mount_offsets (m # ms) off = (off + 16) # mount_offsets ms (off + 16 + (length (mount_path m) + 1))"

lemma length_mount_offsets [simp]: "length (mount_offsets ms off) = length ms"
  by (induction ms arbitrary: off) auto

lemma scan_mounts_image:
  assumes "\<forall>m \<in> set ms. length (mount_path m) + 1 < 2 ^ 64"
  shows "scan_mounts (length ms) (pre @ mounts_image ms @ rest) (length pre) =
    Ret (mount_offsets ms (length pre), length (pre @ mounts_image ms))"
  using assms
proof (induction ms arbitrary: pre)
  case (Cons m ms)
  let ?l = "length (mount_path m) + 1"
  let ?rec = "mount_point_record m @ map byte_of_char (mount_path m) @ [0]"
  have "load_u64 (pre @ mounts_image (m # ms) @ rest) (length pre + 8) = Ret ?l"
    using load_u64_at [of ?l "pre @ le_bytes 8 (nat (index m mod 2 ^ 64))"] Cons.prems
    by (simp add: mount_point_record_def)
  moreover have "scan_mounts (length ms) (pre @ mounts_image (m # ms) @ rest) (length pre + 16 + ?l) =
      Ret (mount_offsets ms (length pre + 16 + ?l), length (pre @ mounts_image (m # ms)))"
    using Cons.IH [of "pre @ ?rec"] Cons.prems by (simp add: add.assoc add.commute add.left_commute)
  ultimately show ?case
    by simp
qed simp

lemma byte_of_char_nonzero: "c \<noteq> NUL \<Longrightarrow> byte_of_char c \<noteq> 0"
proof
  assume "c \<noteq> NUL" and "byte_of_char c = 0"
  then have "char_of_byte 0 = c"
    by (metis char_of_byte_of_char)
  moreover have "char_of_byte 0 = NUL"
    by (simp add: char_of_byte_def char_of_def)
  ultimately show False
    using \<open>c \<noteq> NUL\<close> by simp
qed

lemma path_at_here:
  assumes "nul_free s"
  shows "path_at (pre @ map byte_of_char s @ 0 # rest) (length pre) = Ret s"
proof -
  have "takeWhile (\<lambda>x. x \<noteq> 0) (map byte_of_char s @ 0 # rest) = map byte_of_char s"
    using assms by (induction s) (auto simp: byte_of_char_nonzero)
  then show ?thesis
    by (simp add: path_at_def del: map_map)
qed

lemma path_at_image:
  assumes "\<forall>m \<in> set ms. nul_free (mount_path m)"
  shows "i < length ms \<Longrightarrow>
    path_at (pre @ mounts_image ms @ rest) (mount_offsets ms (length pre) ! i) = Ret (mount_path (ms ! i))"
  using assms
proof (induction ms arbitrary: pre i)
  case (Cons m ms)
  let ?rec = "mount_point_record m @ map byte_of_char (mount_path m) @ [0]"
  show ?case
  proof (cases i)
    case 0
    with path_at_here [of "mount_path m" "pre @ mount_point_record m"] Cons.prems show ?thesis
      by simp
  next
    case (Suc j)
    with Cons.IH [of j "pre @ ?rec"] Cons.prems show ?thesis
      by (simp add: add.assoc add.commute add.left_commute)
  qed
qed simp

lemma load_file_record:
  assumes "0 \<le> fd" "fd < 2 ^ 64" "0 \<le> idx" "idx < 2 ^ 64"
  shows "load_u64 (pre @ file_record fh fd idx @ rest) (length pre) = Ret (unat fh)"
    and "load_u64 (pre @ file_record fh fd idx @ rest) (length pre + 8) = Ret (nat fd)"
    and "load_u64 (pre @ file_record fh fd idx @ rest) (length pre + 16) = Ret (nat idx)"
proof -
  let ?a = "le_bytes 8 (unat fh)" and ?b = "le_bytes 8 (nat fd)" and ?c = "le_bytes 8 (nat idx)"
  have eq: "pre @ file_record fh fd idx @ rest = pre @ ?a @ ?b @ ?c @ rest"
    using assms by (simp add: file_record_def)
  have b: "unat fh < 2 ^ 64" "nat fd < 2 ^ 64" "nat idx < 2 ^ 64"
    using assms unsigned_less [of fh] by (simp_all add: nat_less_iff)
  show "load_u64 (pre @ file_record fh fd idx @ rest) (length pre) = Ret (unat fh)"
    using load_u64_at [OF b(1), of pre "?b @ ?c @ rest"] unfolding eq by simp
  show "load_u64 (pre @ file_record fh fd idx @ rest) (length pre + 8) = Ret (nat fd)"
    using load_u64_at [OF b(2), of "pre @ ?a" "?c @ rest"] unfolding eq by simp
  show "load_u64 (pre @ file_record fh fd idx @ rest) (length pre + 16) = Ret (nat idx)"
    using load_u64_at [OF b(3), of "pre @ ?a @ ?b" rest] unfolding eq by simp
qed

text \<open>The table entry a record stands for.\<close>

definition entry_of :: "u64 \<times> int \<times> int \<Rightarrow> int \<times> file_handle_data" where
  "entry_of r = (case r of (fh, fd, idx) \<Rightarrow> (fd, \<lparr>file_handle = fh, mount = nat idx\<rparr>))"

definition good_record :: "'w mount_point_array \<Rightarrow> bytes \<Rightarrow> nat list \<Rightarrow> u64 \<times> int \<times> int \<Rightarrow> bool" where
  "good_record ms b paths r \<longleftrightarrow> (case r of (fh, fd, idx) \<Rightarrow>
     0 \<le> fd \<and> fd < MAX_FILES \<and> 0 \<le> idx \<and> idx < 2 ^ 64 \<and> nat idx < length paths \<and>
     (\<exists>p. path_at b (paths ! nat idx) = Ret p \<and> find_mount_from_path ms p = Some (nat idx)))"

lemma restore_files_image:
  assumes "fh_inv s" and "list_all (good_record ms b paths) rs" and "distinct (map (fst \<circ> entry_of) rs)"
    and "\<forall>r \<in> set rs. fh_abs s (fst (entry_of r)) = None" and "b = pre @ files_image rs @ rest"
  shows "\<exists>s' e'. restore_files ms paths (length rs) b (length pre) s e = Ret (s', e') \<and> fh_inv s' \<and>
    fh_abs s' = fh_abs s ++ map_of (map entry_of rs)"
  using assms
proof (induction rs arbitrary: s e pre)
  case Nil
  then show ?case by simp
next
  case (Cons r rs)
  obtain fh fd idx where r: "r = (fh, fd, idx)" by (cases r)
  from Cons.prems(2) r obtain p where g: "0 \<le> fd" "fd < MAX_FILES" "0 \<le> idx" "idx < 2 ^ 64" "nat idx < length paths"
      "path_at b (paths ! nat idx) = Ret p" "find_mount_from_path ms p = Some (nat idx)"
    by (auto simp: good_record_def)
  let ?h = "\<lparr>file_handle = fh, mount = nat idx\<rparr>"
  have fd: "fd < 2 ^ 64" "to_c_int (int (nat fd)) = fd"
    using g(1,2) by (simp_all add: MAX_FILES_def to_c_int_id)
  have b: "b = pre @ file_record fh fd idx @ files_image rs @ rest"
    using Cons.prems(5) r by simp
  note ld = load_file_record [OF g(1) fd(1) g(3,4), of pre fh "files_image rs @ rest", folded b]
  have none: "fh_abs s fd = None"
    using Cons.prems(4) r by (simp add: entry_of_def)
  have ex: "file_handle_exists fd s = Ret False"
    using file_handle_exists_abs [OF Cons.prems(1) g(1)] none by simp
  obtain s1 where s1: "insert_file_handle fd ?h s = Ret (0, s1)" "fh_inv s1" "fh_abs s1 = (fh_abs s)(fd \<mapsto> ?h)"
    using insert_refines [OF Cons.prems(1) g(1), of ?h] none g(2) by (auto simp: insert_spec_def)
  let ?e = "call_hook (usfs_restore (ops (ms ! nat idx))) fh e"
  have "\<forall>r' \<in> set rs. fst (entry_of r') \<noteq> fd"
    using Cons.prems(3) r by (auto simp: entry_of_def image_iff split: prod.splits)
  then have nfd: "\<forall>r' \<in> set rs. fh_abs s1 (fst (entry_of r')) = None" "fd \<notin> dom (map_of (map entry_of rs))"
    using Cons.prems(4) s1(3) by (auto simp: dom_map_of_conv_image_fst)
  obtain s' e' where s': "restore_files ms paths (length rs) b (length (pre @ file_record fh fd idx)) s1 ?e = Ret (s', e')"
      "fh_inv s'" "fh_abs s' = fh_abs s1 ++ map_of (map entry_of rs)"
    using Cons.IH [OF s1(2) _ _ nfd(1), of "pre @ file_record fh fd idx" ?e] Cons.prems(2,3) b by auto
  have "restore_files ms paths (length (r # rs)) b (length pre) s e = Ret (s', e')"
    using ld g(5-7) ex s1(1) s'(1) fd(2) by simp
  moreover have "fh_abs s' = fh_abs s ++ map_of (map entry_of (r # rs))"
    unfolding s'(3) s1(3) using nfd(2) r by (auto simp: entry_of_def map_add_def fun_eq_iff split: option.splits)
  ultimately show ?case
    using s'(2) by blast
qed

definition mounts_ok :: "'w mount_point_array \<Rightarrow> bool" where
  "mounts_ok ms \<longleftrightarrow> length ms \<le> MAX_MOUNTS \<and>
     (\<forall>i < length ms. nul_free (mount_path (ms ! i)) \<and> length (mount_path (ms ! i)) < 512 \<and>
        index (ms ! i) = int i)"

text \<open>Every mount path leads back to its own mount in the array of the restoring process.\<close>

definition paths_found :: "'w mount_point_array \<Rightarrow> 'w mount_point_array \<Rightarrow> bool" where
  "paths_found ms ms' \<longleftrightarrow> (\<forall>i < length ms. find_mount_from_path ms' (mount_path (ms ! i)) = Some i)"

lemma restore_image_reads:
  assumes ok: "mounts_ok ms" and found: "paths_found ms ms'"
    and rs: "\<forall>(fh, fd, idx) \<in> set rs. 0 \<le> fd \<and> fd < MAX_FILES \<and> 0 \<le> idx \<and> idx < int (length ms)"
    and dist: "distinct (map (fst \<circ> entry_of) rs)" and len: "length rs \<le> nat MAX_FILES"
  shows "\<exists>s' e'. restore_image ms' (handle_image ms rs @ rest) fh_init e = Ret (s', e') \<and> fh_inv s' \<and>
    fh_abs s' = map_of (map entry_of rs)"
proof -
  let ?b = "handle_image ms rs @ rest"
  let ?pre = "le_bytes 8 (length ms)" and ?cnt = "le_bytes 8 (length rs)"
  let ?off = "length (?pre @ mounts_image ms)"
  have small: "length ms < 2 ^ 64" "length rs < 2 ^ 64"
    using ok len by (simp_all add: mounts_ok_def MAX_MOUNTS_def MAX_FILES_def)
  have nul: "\<forall>m \<in> set ms. nul_free (mount_path m)" and "\<forall>m \<in> set ms. length (mount_path m) < 512"
    using ok by (auto simp: mounts_ok_def in_set_conv_nth)
  then have lens: "\<forall>m \<in> set ms. length (mount_path m) + 1 < 2 ^ 64"
    by force
  have 1: "load_u64 ?b 0 = Ret (length ms)"
    using load_u64_at [OF small(1), of "[]"] by (simp add: handle_image_def)
  have 2: "scan_mounts (length ms) ?b 8 = Ret (mount_offsets ms 8, ?off)"
    using scan_mounts_image [OF lens, of ?pre] by (simp add: handle_image_def)
  have 3: "load_u64 ?b ?off = Ret (length rs)"
    using load_u64_at [OF small(2), of "?pre @ mounts_image ms" "files_image rs @ rest"] by (simp add: handle_image_def)
  have path: "path_at ?b (mount_offsets ms 8 ! i) = Ret (mount_path (ms ! i))" if "i < length ms" for i
    using path_at_image [OF nul that, of ?pre] by (simp add: handle_image_def)
  have good: "list_all (good_record ms' ?b (mount_offsets ms 8)) rs"
    unfolding list_all_iff
  proof
    fix r assume "r \<in> set rs"
    then obtain fh fd idx where r: "r = (fh, fd, idx)" "0 \<le> fd" "fd < MAX_FILES" "0 \<le> idx" "idx < int (length ms)"
      using rs by (cases r) auto
    moreover have "int (length ms) < 2 ^ 64"
      using small(1) by simp
    ultimately have i: "nat idx < length ms" "idx < 2 ^ 64"
      by linarith+
    then have "find_mount_from_path ms' (mount_path (ms ! nat idx)) = Some (nat idx)"
      using found by (simp add: paths_found_def)
    with path [OF i(1)] r i show "good_record ms' ?b (mount_offsets ms 8) r"
      by (simp add: good_record_def)
  qed
  have none: "\<forall>r \<in> set rs. fh_abs fh_init (fst (entry_of r)) = None"
    by (simp add: fh_abs_init)
  have b: "?b = (?pre @ mounts_image ms @ ?cnt) @ files_image rs @ rest"
    by (simp add: handle_image_def)
  obtain s' e' where "restore_files ms' (mount_offsets ms 8) (length rs) ?b (length (?pre @ mounts_image ms @ ?cnt)) fh_init e
      = Ret (s', e')" "fh_inv s'" "fh_abs s' = map_of (map entry_of rs)"
    using restore_files_image [OF fh_inv_init good dist none b, of e] by (auto simp: fh_abs_init)
  then show ?thesis
    using 1 2 3 by (simp add: restore_image_def)
qed

text \<open>
  The file is shorter than the image by one byte per mount; what was cut off reads as zeros from the rest
  of the last page.
\<close>

lemma truncated_image:
  assumes "rs = rs0 @ [(fh, fd, idx)]" and "0 \<le> idx" and "idx < 256" and "n \<le> 7" and "n \<le> z"
  shows "take (length (handle_image ms rs) - n) (handle_image ms rs) @ replicate z 0 = handle_image ms rs @ replicate (z - n) 0"
proof -
  define X where "X = le_bytes 8 (length ms) @ mounts_image ms @ le_bytes 8 (length rs) @ files_image rs0 @
    le_bytes 8 (unat fh) @ le_bytes 8 (nat (fd mod 2 ^ 64))"
  have "idx mod 2 ^ 64 = idx"
    using assms(2,3) by simp
  then have X: "handle_image ms rs = X @ le_bytes 8 (nat idx)"
    unfolding handle_image_def X_def assms(1) by (simp only: image_simps file_record_def append_assoc append_Nil2)
  have le: "le_bytes 8 (nat idx) = (of_nat (nat idx) :: u8) # replicate 7 0"
    using le_bytes_small [of "nat idx" 7] assms(2,3) by (simp del: le_bytes.simps)
  let ?i = "of_nat (nat idx) :: u8"
  have t: "take (length (X @ ?i # replicate 7 0) - n) (X @ ?i # replicate 7 0) = X @ ?i # replicate (7 - n) 0"
    using assms(4) by (simp add: take_Cons' take_replicate)
  have "replicate (7 - n) 0 @ replicate z (0 :: u8) = replicate 7 0 @ replicate (z - n) 0"
    using assms(4,5) by (simp add: replicate_add [symmetric])
  then show ?thesis
    unfolding X le t by simp
qed

lemma records_of_table:
  assumes inv: "fh_inv s" and ue: "used_exact s" and ok: "mounts_ok ms"
    and mnt: "\<forall>fd h. fh_abs s fd = Some h \<longrightarrow> mount h < length ms"
  defines "rs \<equiv> map (record_of ms s) (used_prefix s)"
  shows "\<forall>(fh, fd, idx) \<in> set rs. 0 \<le> fd \<and> fd < MAX_FILES \<and> 0 \<le> idx \<and> idx < int (length ms)"
    and "distinct (map (fst \<circ> entry_of) rs)" and "length rs \<le> nat MAX_FILES"
    and "map_of (map entry_of rs) = fh_abs s"
proof -
  have dom: "set (used_prefix s) = dom (fh_abs s)" and dist: "distinct (used_prefix s)"
    using ue by (simp_all add: used_exact_def)
  have e: "entry_of (record_of ms s fd) = (fd, the (fh_abs s fd))" if "fd \<in> set (used_prefix s)" for fd
    using that ok mnt unfolding dom by (auto simp: entry_of_def record_of_def mounts_ok_def)
  have *: "map entry_of rs = map (\<lambda>fd. (fd, the (fh_abs s fd))) (used_prefix s)"
    using e by (simp add: rs_def)
  have "map (fst \<circ> entry_of) rs = map fst (map entry_of rs)"
    by simp
  also have "\<dots> = used_prefix s"
    unfolding * by (simp add: comp_def)
  finally show "distinct (map (fst \<circ> entry_of) rs)"
    using dist by simp
  show "map_of (map entry_of rs) = fh_abs s"
    unfolding * map_of_map_restrict dom by (auto simp: restrict_map_def fun_eq_iff domIff)
  show "length rs \<le> nat MAX_FILES"
    using fh_inv_len(3) [OF inv] by (simp add: rs_def used_prefix_def)
  show "\<forall>(fh, fd, idx) \<in> set rs. 0 \<le> fd \<and> fd < MAX_FILES \<and> 0 \<le> idx \<and> idx < int (length ms)"
  proof
    fix r assume "r \<in> set rs"
    then obtain fd h where h: "r = record_of ms s fd" "fh_abs s fd = Some h"
      unfolding rs_def using dom by auto
    moreover have "0 \<le> fd" "fd < MAX_FILES"
      using h(2) by (auto simp: fh_abs_def split: if_splits)
    ultimately show "case r of (fh, fd, idx) \<Rightarrow> 0 \<le> fd \<and> fd < MAX_FILES \<and> 0 \<le> idx \<and> idx < int (length ms)"
      using mnt ok by (auto simp: record_of_def mounts_ok_def)
  qed
qed

section \<open>Properties\<close>


lemma one_handle:
  obtains s where "insert_file_handle 5 h fh_init = Ret (0, s)" and "fh_inv s" and "used_exact s"
    and "fh_abs s = [5 \<mapsto> h]" and "used_prefix s = [5]"
proof -
  obtain s where s: "insert_file_handle 5 h fh_init = Ret (0, s)" "fh_inv s" "fh_abs s = [5 \<mapsto> h]"
    using insert_refines [OF fh_inv_init, of 5 h] by (auto simp: insert_spec_def fh_abs_init MAX_FILES_def)
  moreover have "used_exact s"
    using insert_used_exact [OF fh_inv_init used_exact_init _ s(1)] by simp
  moreover have "used_prefix s = [5]"
    using insert_file_handle_eq [OF fh_inv_init, of 5 h] after_insert_used_prefix [OF fh_inv_init, of 5 h] s(1)
    by (simp add: fh_abs_init MAX_FILES_def used_prefix_def [of fh_init]) (simp add: fh_init_def fht_instance_def)
  ultimately show ?thesis
    using that by blast
qed


lemma map_of_last:
  "distinct (map fst (xs @ [(fd, v')])) \<Longrightarrow> map_of (xs @ [(fd, v')]) = (map_of (xs @ [(fd, v)]))(fd \<mapsto> v')"
  by (auto simp: map_add_def fun_eq_iff map_of_eq_None_iff [symmetric] split: option.splits)

lemma truncated_image_mount:
  assumes rs: "rs = rs0 @ [(fh, fd, idx)]" and fd: "0 \<le> fd" "fd < MAX_FILES" and n: "8 \<le> n" "n \<le> 14" "n \<le> z"
  shows "take (length (handle_image ms rs) - n) (handle_image ms rs) @ replicate z 0 =
    handle_image ms (rs0 @ [(fh, fd, 0)]) @ replicate (z - n) 0"
proof -
  define Y where "Y = le_bytes 8 (length ms) @ mounts_image ms @ le_bytes 8 (length rs) @ files_image rs0 @
    le_bytes 8 (unat fh)"
  have m: "fd mod 2 ^ 64 = fd"
    using fd by (simp add: MAX_FILES_def)
  let ?i = "le_bytes 8 (nat (idx mod 2 ^ 64))"
  have Y: "handle_image ms rs = Y @ le_bytes 8 (nat fd) @ ?i"
    "handle_image ms (rs0 @ [(fh, fd, 0)]) = Y @ le_bytes 8 (nat fd) @ replicate 8 0"
    using m le_bytes_zero [of 8] unfolding handle_image_def Y_def rs
    by (simp_all add: file_record_def del: le_bytes.simps)
  have "nat fd div 256 < 256"
    using fd by (simp add: MAX_FILES_def)
  then obtain x y where xy: "le_bytes 8 (nat fd) = x # y # replicate 6 0"
    using le_bytes_small [of "nat fd div 256" 6] le_bytes.simps(2) [of 7 "nat fd"]
    by (simp del: le_bytes.simps)
  have t: "take (length (Y @ (x # y # replicate 6 0) @ ?i) - n) (Y @ (x # y # replicate 6 0) @ ?i) = Y @ x # y # replicate (14 - n) 0"
    using n by (simp add: take_Cons' take_replicate)
  have "replicate (14 - n) 0 @ replicate z (0 :: u8) = replicate 6 0 @ replicate 8 0 @ replicate (z - n) 0"
    using n by (simp add: replicate_add [symmetric])
  then show ?thesis
    unfolding Y xy t by simp
qed

text \<open>
  With eight to fourteen mounts the last saved record loses its mount: the size of the shared space leaves
  out the terminators of the mount paths, the bytes beyond it are cut off, and the last descriptor of the used
  list is restored on mount 0 whatever mount it was opened on.
\<close>

theorem save_restore_loses_mount:
  assumes "fh_inv s" and "used_exact s" and "used_prefix s = fds @ [fd]" and "fh_abs s fd = Some h"
    and "mounts_ok ms" and "paths_found ms ms'"
    and "\<forall>fd h. fh_abs s fd = Some h \<longrightarrow> mount h < length ms" and "8 \<le> length ms" and "length ms \<le> 14"
    and "shared_space_size ms (length (used_prefix s)) + length ms \<le> length b" and "length ms \<le> z"
  shows "\<exists>b' e1 s' e2. save_image ms s b e = Ret (b', e1) \<and>
    restore_image ms' (take (shared_space_size ms (length (used_prefix s))) b' @ replicate z 0) fh_init e' = Ret (s', e2) \<and>
    fh_abs s' = (fh_abs s)(fd \<mapsto> h\<lparr>mount := 0\<rparr>)"
proof -
  let ?rs = "map (record_of ms s) (used_prefix s)" and ?sz = "shared_space_size ms (length (used_prefix s))"
  let ?ri = "map (record_of ms s) fds"
  let ?bad = "?ri @ [(file_handle h, fd, 0)]"
  note r = records_of_table [OF assms(1,2,5,7)]
  have dom: "set (used_prefix s) = dom (fh_abs s)"
    using assms(2) by (simp add: used_exact_def)
  have rs: "?rs = ?ri @ [(file_handle h, fd, index (ms ! mount h))]"
    using assms(3,4) by (simp add: record_of_def)
  have fd: "0 \<le> fd" "fd < MAX_FILES"
    using assms(4) by (auto simp: fh_abs_def split: if_splits)
  have len: "length (handle_image ms ?rs) = ?sz + length ms"
    by (simp add: length_image)
  have sv: "save_image ms s b e = Ret (handle_image ms ?rs @ drop (length (handle_image ms ?rs)) b, save_hooks ms s (used_prefix s) e)"
    using save_image_stores [OF assms(1)] dom assms(7,10) len by (fastforce simp: stores_def)
  have "take ?sz (handle_image ms ?rs @ drop (length (handle_image ms ?rs)) b) = take (length (handle_image ms ?rs) - length ms) (handle_image ms ?rs)"
    using len by simp
  then have cut: "take ?sz (handle_image ms ?rs @ drop (length (handle_image ms ?rs)) b) @ replicate z 0 = handle_image ms ?bad @ replicate (z - length ms) 0"
    using truncated_image_mount [OF rs fd assms(8,9,11)] by simp
  have bad: "\<forall>(fh, fd, idx) \<in> set ?bad. 0 \<le> fd \<and> fd < MAX_FILES \<and> 0 \<le> idx \<and> idx < int (length ms)"
    "distinct (map (fst \<circ> entry_of) ?bad)" "length ?bad \<le> nat MAX_FILES"
    using r(1-3) fd assms(8) unfolding rs by (auto simp: entry_of_def)
  have d: "distinct (map fst (map entry_of ?bad))"
    by (subst map_map) (rule bad(2))
  have e: "map entry_of (?ri @ [(file_handle h, fd, i)]) = map entry_of ?ri @ [(fd, \<lparr>file_handle = file_handle h, mount = nat i\<rparr>)]" for i
    by (simp add: entry_of_def)
  have hh: "h\<lparr>mount := 0\<rparr> = \<lparr>file_handle = file_handle h, mount = nat 0\<rparr>"
    by (cases h) simp
  have "map_of (map entry_of ?bad) = (map_of (map entry_of ?rs))(fd \<mapsto> h\<lparr>mount := 0\<rparr>)"
    unfolding rs e hh by (rule map_of_last) (use d in \<open>simp only: e\<close>)
  then show ?thesis
    using sv cut restore_image_reads [OF assms(5,6) bad, of "replicate (z - length ms) 0" e'] r(4) by auto
qed

definition numbered_mount :: "nat \<Rightarrow> 'w mount_point_data" where
  "numbered_mount i = (sample_mount (''/m'' @ [char_of (48 + i)]))\<lparr>index := int i\<rparr>"

lemma numbered_mount_sel [simp]:
  "mount_path (numbered_mount i) = ''/m'' @ [char_of (48 + i)]" "index (numbered_mount i) = int i"
  "ops (numbered_mount i) = quiet_usfs"
  by (simp_all add: numbered_mount_def sample_mount_def)

definition eight_mounts :: "'w mount_point_array" where
  "eight_mounts = map numbered_mount [0..<8]"

lemma digit_inject:
  assumes "i < 8" and "j < 8" and "(char_of (48 + i) :: char) = char_of (48 + j)"
  shows "i = (j :: nat)"
proof -
  have "(48 + i) mod 256 = (48 + j) mod 256"
    using arg_cong [OF assms(3), of "of_char :: char \<Rightarrow> nat"] by simp
  with assms(1,2) show ?thesis
    by simp
qed

lemma digit_not_NUL:
  assumes "i < (8 :: nat)"
  shows "char_of (48 + i) \<noteq> NUL"
proof
  assume "char_of (48 + i) = NUL"
  then have "(48 + i) mod 256 = of_char NUL"
    by (metis of_char_of)
  with assms show False
    by simp
qed

lemma eight_mounts_ok:
  "mounts_ok (eight_mounts :: 'w mount_point_array)" "paths_found (eight_mounts :: 'w mount_point_array) eight_mounts"
proof -
  show "mounts_ok (eight_mounts :: 'w mount_point_array)"
    by (auto simp: mounts_ok_def eight_mounts_def MAX_MOUNTS_def digit_not_NUL)
  have "find_mount_from_path_loop (eight_mounts :: 'w mount_point_array) 0 (''/m'' @ [char_of (48 + i)]) = Some i" if "i < 8" for i
    unfolding find_mount_from_path_loop_Some
    using that digit_inject [OF _ that] by (force simp: eight_mounts_def take_map dest: in_set_takeD)
  then show "paths_found (eight_mounts :: 'w mount_point_array) eight_mounts"
    by (simp add: paths_found_def find_mount_from_path_def eight_mounts_def)
qed

theorem save_restore_loses_mount_witness:
  "\<exists>s b' e1 s' e2. insert_file_handle 5 \<lparr>file_handle = 7, mount = 6\<rparr> fh_init = Ret (0, s) \<and>
    save_image eight_mounts s (replicate 4096 0) \<lparr>errno = 0, world = ()\<rparr> = Ret (b', e1) \<and>
    restore_image eight_mounts (take 192 b' @ replicate 3904 0) fh_init \<lparr>errno = 0, world = ()\<rparr> = Ret (s', e2) \<and>
    fh_abs s' = [5 \<mapsto> \<lparr>file_handle = 7, mount = 0\<rparr>]"
proof -
  obtain s where s: "insert_file_handle 5 \<lparr>file_handle = 7, mount = 6\<rparr> fh_init = Ret (0, s)" "fh_inv s"
      "used_exact s" "fh_abs s = [5 \<mapsto> \<lparr>file_handle = 7, mount = 6\<rparr>]" "used_prefix s = [5]"
    by (rule one_handle)
  let ?ms = "eight_mounts :: unit mount_point_array"
  have "shared_space_size ?ms 1 = 192"
    by (simp add: shared_space_size_def eight_mounts_def upt_rec)
  moreover have "length ?ms = 8"
    by (simp add: eight_mounts_def)
  moreover from this have "\<forall>fd h. fh_abs s fd = Some h \<longrightarrow> mount h < length ?ms"
    using s(4) by (auto split: if_splits)
  ultimately show ?thesis
    using save_restore_loses_mount [of s "[]" 5 "\<lparr>file_handle = 7, mount = 6\<rparr>" ?ms ?ms "replicate 4096 0" 3904
        "\<lparr>errno = 0, world = ()\<rparr>" "\<lparr>errno = 0, world = ()\<rparr>"] s eight_mounts_ok
    by auto
qed

text \<open>
  When the computed size fills the mapped pages (the mapping has fewer than one spare byte per mount), the
  stores of the save run out of the mapping.
\<close>

theorem save_out_of_mapping:
  assumes "fh_inv s" and "used_exact s" and "\<forall>fd h. fh_abs s fd = Some h \<longrightarrow> mount h < length ms"
    and "length b < shared_space_size ms (length (used_prefix s)) + length ms"
  shows "save_image ms s b e = Undef Out_Of_Bounds"
proof -
  have dom: "set (used_prefix s) = dom (fh_abs s)"
    using assms(2) by (simp add: used_exact_def)
  then have "\<forall>fd \<in> set (used_prefix s). \<exists>h. fh_abs s fd = Some h \<and> mount h < length ms"
    using assms(3) by blast
  from save_image_stores [OF assms(1) this, of b e] show ?thesis
    using assms(4) length_image [of ms "map (record_of ms s) (used_prefix s)"]
    by (simp add: stores_def)
qed

theorem save_out_of_mapping_witness:
  "\<exists>s. insert_file_handle 5 \<lparr>file_handle = 7, mount = 0\<rparr> fh_init = Ret (0, s) \<and>
    shared_space_size [(sample_mount (replicate 4040 CHR ''a''))] 1 = 4096 \<and>
    save_image [sample_mount (replicate 4040 CHR ''a'')] s (replicate 4096 0) \<lparr>errno = 0, world = ()\<rparr> = Undef Out_Of_Bounds"
proof -
  obtain s where s: "insert_file_handle 5 \<lparr>file_handle = 7, mount = 0\<rparr> fh_init = Ret (0, s)" "fh_inv s"
      "used_exact s" "fh_abs s = [5 \<mapsto> \<lparr>file_handle = 7, mount = 0\<rparr>]" "used_prefix s = [5]"
    by (rule one_handle)
  let ?ms = "[sample_mount (replicate 4040 CHR ''a'')] :: unit mount_point_array"
  have "shared_space_size ?ms 1 = 4096"
    by (simp add: shared_space_size_def sample_mount_def)
  moreover have "\<forall>fd h. fh_abs s fd = Some h \<longrightarrow> mount h < length ?ms"
    using s(4) by (auto split: if_splits)
  ultimately show ?thesis
    using save_out_of_mapping [of s ?ms "replicate 4096 0" "\<lparr>errno = 0, world = ()\<rparr>"] s
    by (auto simp: shared_space_size_def sample_mount_def)
qed

text \<open>
  Closing a descriptor breaks a later save: after descriptors 5 and 6 are inserted and 5 is removed, saving
  reads the handle of descriptor 1, which is not open, through a \<^verbatim>\<open>NULL\<close> pointer.
\<close>

theorem save_after_remove_crashes:
  assumes "length (handle_image ms []) \<le> length b"
  shows "\<exists>s. run_steps fh_step
      [Op_Insert 5 \<lparr>file_handle = 7, mount = 0\<rparr>, Op_Insert 6 \<lparr>file_handle = 8, mount = 0\<rparr>,
       Op_Remove 5] fh_init = Ret ([0, 0, 0], s) \<and>
    save_image ms s b e = Undef Null_Deref"
proof -
  obtain s where s: "run_steps fh_step
      [Op_Insert 5 \<lparr>file_handle = 7, mount = 0\<rparr>, Op_Insert 6 \<lparr>file_handle = 8, mount = 0\<rparr>,
       Op_Remove 5] fh_init = Ret ([0, 0, 0], s)" "used_prefix s = [1]" "file_handles (fht s) ! 1 = None"
      "length (file_handles (fht s)) = 1024"
    by (simp add: insert_file_handle_def remove_file_handle_def fh_init_def fht_instance_def
      MAX_FILES_def arr_get_def arr_set_def file_handle_use_count_internal_def
      allocate_file_handle_def set_file_handle_def add_use_count_def link_file_descriptor_def
      unlink_file_descriptor_def free_file_handle_def used_prefix_def eval_nat_numeral)
  have "save_files ms s [1] b' off e = Undef Null_Deref" for b' off
    using s(3,4) by (simp add: entry_data_def arr_get_def)
  then have f: "save_files ms s (take (nat (used_file_descriptor_pos (fht s))) (used_file_descriptors (fht s))) b' off e
      = Undef Null_Deref" for b' off
    using s(2) by (simp add: used_prefix_def)
  have len: "8 + length (mounts_image ms) + 8 \<le> length b"
    using assms by (simp add: handle_image_def)
  define r1 r2 where "r1 = drop 8 b" and "r2 = drop (length (mounts_image ms)) r1"
  have "copy_with_offset b (le_bytes 8 (length ms)) 0 = Ret (le_bytes 8 (length ms) @ r1, 8)"
    using len by (simp add: copy_with_offset_def r1_def)
  moreover have "save_mounts ms (le_bytes 8 (length ms) @ r1) 8 =
      Ret ((le_bytes 8 (length ms) @ mounts_image ms) @ r2, length (le_bytes 8 (length ms) @ mounts_image ms))"
    using save_mounts_stores [of ms "le_bytes 8 (length ms)" r1] len by (simp add: stores_def r1_def r2_def)
  moreover have "8 \<le> length r2"
    using len unfolding r1_def r2_def length_drop by linarith
  then have "\<exists>b3 off3. copy_with_offset ((le_bytes 8 (length ms) @ mounts_image ms) @ r2) (le_bytes 8 n)
      (length (le_bytes 8 (length ms) @ mounts_image ms)) = Ret (b3, off3)" for n
    unfolding copy_stores by (simp add: stores_def)
  then obtain b3 off3 where "copy_with_offset ((le_bytes 8 (length ms) @ mounts_image ms) @ r2)
      (le_bytes 8 (nat (used_file_descriptor_pos (fht s)))) (length (le_bytes 8 (length ms) @ mounts_image ms)) = Ret (b3, off3)"
    by blast
  ultimately have "save_image ms s b e = Undef Null_Deref"
    using f unfolding save_image_def by simp
  with s(1) show ?thesis
    by blast
qed

theorem save_after_remove_crashes_witness:
  "\<exists>s. run_steps fh_step
      [Op_Insert 5 \<lparr>file_handle = 7, mount = 0\<rparr>, Op_Insert 6 \<lparr>file_handle = 8, mount = 0\<rparr>,
       Op_Remove 5] fh_init = Ret ([0, 0, 0], s) \<and>
    save_image [sample_mount ''/mnt/a''] s (replicate 4096 0) \<lparr>errno = 0, world = ()\<rparr> = Undef Null_Deref"
  using save_after_remove_crashes [of "[sample_mount ''/mnt/a'']" "replicate 4096 0" "\<lparr>errno = 0, world = ()\<rparr>"]
  by (simp add: length_image shared_space_size_def sample_mount_def del: run_steps.simps)
end
