(* ===== verification/Paths.thy ===== *)
theory Paths
  imports C_Strings
begin

text \<open>
  The path functions of \<^verbatim>\<open>libdefuse/util.c\<close>: \<^verbatim>\<open>remove_path_string\<close>, \<^verbatim>\<open>remove_dot_dot\<close> and
  \<^verbatim>\<open>resolve_path\<close>, which work in place in a buffer of \<^verbatim>\<open>PATH_MAX\<close> characters. They are shown to
  compute a function on path components.
\<close>

section \<open>The code\<close>

definition PATH_MAX :: nat where
  "PATH_MAX = 4096"

text \<open>The loop of \<^verbatim>\<open>remove_path_string\<close>. Lengths are \<^verbatim>\<open>size_t\<close>: a negative one wraps to a size no buffer has.\<close>

function remove_path_string_loop :: "string \<Rightarrow> string \<Rightarrow> nat \<Rightarrow> string cres" where
  "remove_path_string_loop p str p_len =
     (let str_len = length str - 1 in
      if NUL \<notin> set p then Undef Unterminated
      else
        (case strstr (cstr p) str of
           None \<Rightarrow> Ret p
         | Some p_ptr \<Rightarrow>
             if p_len < p_ptr \<or> p_len < str_len then Undef Out_Of_Bounds
             else
               cbind (memmove p p_ptr (p_ptr + str_len) (p_len - p_ptr)) (\<lambda>p1.
               cbind (set_char p1 (p_len - str_len) NUL) (\<lambda>p2.
               if str_len = 0 then Undef Diverges
               else remove_path_string_loop p2 str (p_len - str_len)))))"
  by pat_completeness auto
termination
  by (relation "measure (\<lambda>(p, str, p_len). p_len)") auto

definition remove_path_string :: "string \<Rightarrow> string \<Rightarrow> string cres" where
  "remove_path_string p str = cbind (c_strlen p) (\<lambda>p_len. remove_path_string_loop p str p_len)"

text \<open>The inner loop of \<^verbatim>\<open>remove_dot_dot\<close>: back to the previous slash, or below the buffer.\<close>

fun scan_back :: "string \<Rightarrow> nat \<Rightarrow> nat option" where
  "scan_back p 0 = (if p ! 0 = CHR ''/'' then Some 0 else None)"
| "scan_back p (Suc k) = (if p ! Suc k = CHR ''/'' then Some (Suc k) else scan_back p k)"

lemma scan_back_le: "scan_back p k = Some i \<Longrightarrow> i \<le> k"
  by (induction p k rule: scan_back.induct) (auto split: if_splits)

function remove_dot_dot_loop :: "string \<Rightarrow> nat \<Rightarrow> string cres" where
  "remove_dot_dot_loop p p_len =
     (if NUL \<notin> set p then Undef Unterminated
      else
        (case strstr (cstr p) ''/../'' of
           None \<Rightarrow> Ret p
         | Some p_ptr \<Rightarrow>
             if p_ptr = 0 then Ret p
             else
               (let p_end = p_ptr + 3 in
                case scan_back p (p_ptr - 1) of
                  None \<Rightarrow> Undef Out_Of_Bounds
                | Some p_start \<Rightarrow>
                    (let chars_to_remove = p_end - p_start in
                     if p_len < chars_to_remove then Undef Out_Of_Bounds
                     else
                       cbind (memmove p p_start p_end (p_len - chars_to_remove)) (\<lambda>p1.
                       cbind (set_char p1 (p_len - chars_to_remove) NUL) (\<lambda>p2.
                       remove_dot_dot_loop p2 (p_len - chars_to_remove)))))))"
  by pat_completeness auto
termination
  by (relation "measure (\<lambda>(p, p_len). p_len)") (auto dest!: scan_back_le)

definition remove_dot_dot :: "string \<Rightarrow> string cres" where
  "remove_dot_dot p = cbind (c_strlen p) (\<lambda>p_len. remove_dot_dot_loop p p_len)"

text \<open>
  \<^verbatim>\<open>resolve_path\<close>. The argument \<open>cwd\<close> is what \<^verbatim>\<open>get_current_dir_name\<close> returns, \<open>None\<close> for \<^verbatim>\<open>NULL\<close>. The
  buffer starts uninitialised, but the first \<^verbatim>\<open>strncpy\<close> always writes all its \<^verbatim>\<open>PATH_MAX\<close> characters.
\<close>

definition copy_path :: "string option \<Rightarrow> string \<Rightarrow> string cres" where
  "copy_path cwd p =
     (let path = replicate PATH_MAX NUL in
      if p ! 0 \<noteq> CHR ''/'' then
        (case cwd of
           None \<Rightarrow> Undef Null_Deref
         | Some d \<Rightarrow>
             cbind (strncpy path 0 d PATH_MAX) (\<lambda>path1.
             if length d \<ge> PATH_MAX then Undef Out_Of_Bounds
             else
               cbind (strncpy path1 (length d) ''/'' (PATH_MAX - length d)) (\<lambda>path2.
               strncpy path2 (length d + 1) p (PATH_MAX - (length d + 1)))))
      else strncpy path 0 p PATH_MAX)"

definition resolve_path :: "string option \<Rightarrow> string option \<Rightarrow> string option cres" where
  "resolve_path cwd p =
     (case p of
        None \<Rightarrow> Ret None
      | Some p \<Rightarrow>
          if p = [] then Ret None
          else
            cbind (copy_path cwd p) (\<lambda>path.
            cbind (c_strlen path) (\<lambda>path_len.
            cbind (remove_path_string path ''/./'') (\<lambda>path1.
            cbind (remove_path_string path1 ''//'') (\<lambda>path2.
            cbind (remove_dot_dot path2) (\<lambda>path3.
            Ret (Some (cstr path3))))))))"

declare remove_path_string_loop.simps [simp del] remove_dot_dot_loop.simps [simp del]

section \<open>What it computes on components\<close>

definition drop_component :: "string \<Rightarrow> string list \<Rightarrow> string list" where
  "drop_component w cs = (if cs = [] then [] else filter (\<lambda>c. c \<noteq> w) (butlast cs) @ [last cs])"

fun pop_dot_dot :: "string list \<Rightarrow> string list \<Rightarrow> string list" where
  "pop_dot_dot acc [] = rev acc"
| "pop_dot_dot acc [c] = rev acc @ [c]"
| "pop_dot_dot acc (c # d # cs) =
     (if c = ''..'' then
        (case acc of [] \<Rightarrow> c # d # cs | _ # acc' \<Rightarrow> pop_dot_dot acc' (d # cs))
      else pop_dot_dot (c # acc) (d # cs))"

definition normalise :: "string list \<Rightarrow> string list" where
  "normalise cs = pop_dot_dot [] (drop_component [] (drop_component ''.'' cs))"

lemma drop_component_absent: "w \<notin> set (butlast cs) \<Longrightarrow> drop_component w cs = cs"
  by (cases cs rule: rev_cases) (auto simp: drop_component_def filter_id_conv)

lemma drop_component_first:
  "w \<notin> set pre \<Longrightarrow> post \<noteq> [] \<Longrightarrow> drop_component w (pre @ w # post) = drop_component w (pre @ post)"
  by (cases post rule: rev_cases) (auto simp: drop_component_def butlast_append)

lemma drop_component_component: "list_all component cs \<Longrightarrow> list_all component (drop_component w cs)"
  by (cases cs rule: rev_cases) (auto simp: drop_component_def list_all_iff)

lemma drop_component_not_Nil [simp]: "drop_component w cs = [] \<longleftrightarrow> cs = []"
  by (simp add: drop_component_def)

lemma length_join_filter: "length (join (filter P cs)) \<le> length (join cs)"
  by (induction cs) auto

lemma length_drop_component: "length (join (drop_component w cs)) \<le> length (join cs)"
  using length_join_filter [of "\<lambda>c. c \<noteq> w" "butlast cs"]
  by (cases cs rule: rev_cases) (auto simp: drop_component_def)

lemma pop_dot_dot_skip:
  "''..'' \<notin> set pre \<Longrightarrow> post \<noteq> [] \<Longrightarrow> pop_dot_dot acc (pre @ post) = pop_dot_dot (rev pre @ acc) post"
proof (induction pre arbitrary: acc)
  case (Cons c pre)
  then obtain d cs where "pre @ post = d # cs" by (cases "pre @ post") auto
  with Cons show ?case by auto
qed simp

lemma pop_dot_dot_absent: "''..'' \<notin> set (butlast cs) \<Longrightarrow> pop_dot_dot [] cs = cs"
  using pop_dot_dot_skip [of "butlast cs" "[last cs]" "[]"] by (cases cs rule: rev_cases) auto

lemma pop_dot_dot_first:
  assumes "''..'' \<notin> set (pre @ [c])" and "post \<noteq> []"
  shows "pop_dot_dot [] (pre @ [c] @ ''..'' # post) = pop_dot_dot [] (pre @ post)"
proof -
  obtain d cs where post: "post = d # cs" using assms(2) by (cases post) auto
  have "pop_dot_dot [] ((pre @ [c]) @ ''..'' # post) = pop_dot_dot (rev (pre @ [c])) (''..'' # post)"
    using pop_dot_dot_skip [OF assms(1), of "''..'' # post" "[]"] by simp
  then show ?thesis
    using pop_dot_dot_skip [of pre post "[]"] assms post by simp
qed

section \<open>The loops compute these functions\<close>

lemma remove_path_string_loop_correct:
  assumes "holds p n (join cs)" and "list_all component cs" and "component w"
    and "length (join cs) + Suc (length w) \<le> n"
  shows "\<exists>p'. remove_path_string_loop p (CHR ''/'' # w @ [CHR ''/'']) (length (join cs)) = Ret p' \<and>
    holds p' n (join (drop_component w cs))"
  using assms(1,2,4)
proof (induction "length cs" arbitrary: p cs rule: less_induct)
  case less
  have w: "CHR ''/'' \<notin> set w" using assms(3) by (simp add: component_def)
  have nul: "NUL \<in> set p" "cstr p = join cs"
    using less.prems(1) by (auto simp: holds_def)
  show ?case
  proof (cases "w \<in> set (butlast cs)")
    case False
    with less.prems nul show ?thesis
      using strstr_no_component [OF w less.prems(2)]
      by (simp add: remove_path_string_loop.simps drop_component_absent)
  next
    case True
    then obtain pre post where cs: "cs = pre @ w # post" "w \<notin> set pre" "post \<noteq> []"
      by (rule first_component)
    let ?i = "length (join pre)" and ?k = "Suc (length w)"
    have st: "strstr (join cs) (CHR ''/'' # w @ [CHR ''/'']) = Some ?i"
      using strstr_components [OF w _ cs(2,3)] less.prems(2) cs(1) by simp
    obtain p1 p2 where p: "memmove p ?i (?i + ?k) (length (join cs) - ?i) = Ret p1"
        "set_char p1 (length (join cs) - ?k) NUL = Ret p2"
        "holds p2 n (take ?i (join cs) @ drop (?i + ?k) (join cs))"
      using holds_delete [OF less.prems(1), of ?i "?i + ?k" "length (join cs) - ?i"] less.prems(3) cs(1)
      by auto
    have s: "take ?i (join cs) @ drop (?i + ?k) (join cs) = join (pre @ post)"
      and l: "length (join cs) - ?k = length (join (pre @ post))"
      using cs(1) by simp_all
    have "\<exists>p'. remove_path_string_loop p2 (CHR ''/'' # w @ [CHR ''/'']) (length (join (pre @ post))) = Ret p' \<and>
        holds p' n (join (drop_component w (pre @ post)))"
      using less.hyps [of "pre @ post" p2] p(3) less.prems(2,3) cs(1) unfolding s by simp
    then show ?thesis
      using nul st p(1,2) l cs drop_component_first [OF cs(2,3)]
      by (subst remove_path_string_loop.simps) (simp add: Let_def)
  qed
qed

lemma scan_back_component:
  assumes "q < length p" and "p ! q = CHR ''/''" and "\<And>j. q < j \<Longrightarrow> j \<le> q + k \<Longrightarrow> p ! j \<noteq> CHR ''/''"
  shows "scan_back p (q + k) = Some q"
  using assms(3)
proof (induction k)
  case 0
  then show ?case using assms(2) by (cases q) simp_all
next
  case (Suc k)
  then show ?case by simp
qed

lemma scan_back_join:
  assumes "CHR ''/'' \<notin> set c"
  shows "scan_back (join pre @ CHR ''/'' # c @ t) (length (join pre) + length c) = Some (length (join pre))"
proof (rule scan_back_component)
  fix j assume "length (join pre) < j" "j \<le> length (join pre) + length c"
  then obtain i where "j = Suc (length (join pre) + i)" "i < length c"
    by (metis add_Suc_right less_imp_Suc_add less_eq_Suc_le nat_add_left_cancel_le)
  moreover from this have "c ! i \<noteq> CHR ''/''"
    using assms by (metis nth_mem)
  ultimately show "(join pre @ CHR ''/'' # c @ t) ! j \<noteq> CHR ''/''"
    by (simp add: nth_append)
qed simp_all

lemma remove_dot_dot_loop_correct:
  assumes "holds p n (join cs)" and "list_all component cs" and "2 * length (join cs) \<le> n"
  shows "\<exists>p'. remove_dot_dot_loop p (length (join cs)) = Ret p' \<and> holds p' n (join (pop_dot_dot [] cs))"
  using assms
proof (induction "length cs" arbitrary: p cs rule: less_induct)
  case less
  have w: "CHR ''/'' \<notin> set ''..''" by simp
  have nul: "NUL \<in> set p" "cstr p = join cs"
    using less.prems(1) by (auto simp: holds_def)
  consider "''..'' \<notin> set (butlast cs)" | pre post where "cs = pre @ ''..'' # post" "''..'' \<notin> set pre" "post \<noteq> []"
    by (cases "''..'' \<in> set (butlast cs)") (auto elim: first_component)
  then show ?case
  proof cases
    case 1
    with less.prems nul show ?thesis
      using strstr_no_component [OF w less.prems(2)]
      by (simp add: remove_dot_dot_loop.simps pop_dot_dot_absent)
  next
    case cs: (2 pre post)
    have st: "strstr (join cs) ''/../'' = Some (length (join pre))"
      using strstr_components [OF w _ cs(2,3)] less.prems(2) cs(1) by simp
    show ?thesis
    proof (cases pre rule: rev_cases)
      case Nil
      then obtain d ds where "post = d # ds" using cs(3) by (cases post) auto
      with Nil st nul less.prems(1) cs(1) show ?thesis
        by (simp add: remove_dot_dot_loop.simps)
    next
      case (snoc pre' c)
      let ?i = "length (join pre)" and ?q = "length (join pre')"
      let ?e = "?i + 3"
      have i: "?i = ?q + Suc (length c)" and c: "CHR ''/'' \<notin> set c"
        using snoc less.prems(2) cs(1) by (auto simp: component_def)
      obtain t where t: "p = join cs @ NUL # t"
        using less.prems(1) by (auto simp: holds_def)
      have sb: "scan_back p (?i - 1) = Some ?q"
        using scan_back_join [OF c, of pre'] snoc unfolding t cs(1) i by simp
      let ?m = "length (join cs) - (?e - ?q)"
      have le: "?e \<le> length (join cs)" "?q \<le> ?e" "?q \<le> length (join cs)"
        using cs(1) i by simp_all
      have m: "length (join cs) - ?e \<le> ?m" "?e + ?m \<le> n"
        using le less.prems(3) by linarith+
      obtain p1 p2 where p: "memmove p ?q ?e ?m = Ret p1" "set_char p1 ?m NUL = Ret p2"
          "holds p2 n (take ?q (join cs) @ drop ?e (join cs))"
        using holds_delete [OF less.prems(1) le(2,1) m] by blast
      have "drop ?e (join cs) = join post" "take ?q (join cs) = join pre'"
        using cs(1) by simp (simp add: cs(1) snoc)
      then have s: "take ?q (join cs) @ drop ?e (join cs) = join (pre' @ post)"
        by simp
      have l: "?m = length (join (pre' @ post))"
        using cs(1) snoc by simp
      have "\<exists>p'. remove_dot_dot_loop p2 (length (join (pre' @ post))) = Ret p' \<and>
          holds p' n (join (pop_dot_dot [] (pre' @ post)))"
        using less.hyps [of "pre' @ post" p2] p(3) less.prems(2,3) cs(1) snoc unfolding s by simp
      moreover have "pop_dot_dot [] cs = pop_dot_dot [] (pre' @ post)"
        using pop_dot_dot_first [of pre' c post] cs snoc by simp
      moreover have "\<not> length (join cs) < ?e - ?q"
        using le by simp
      ultimately show ?thesis
        using nul st sb p(1,2) l i
        by (subst remove_dot_dot_loop.simps) (simp add: Let_def)
    qed
  qed
qed

section \<open>Resolving a path\<close>

lemma resolve_buffer:
  assumes h: "holds path PATH_MAX (join cs)" and c: "copy_path cwd p = Ret path" and ne: "p \<noteq> []"
    and comps: "list_all component cs" and len: "2 * length (join cs) \<le> PATH_MAX"
  shows "resolve_path cwd (Some p) = Ret (Some (join (normalise cs)))"
proof -
  let ?ds = "drop_component ''.'' cs"
  have small: "length (join cs) + 2 \<le> PATH_MAX"
    using len by (simp add: PATH_MAX_def)
  have comp: "component ''.''" "component []"
    by (simp_all add: component_def)
  obtain p1 where p1: "remove_path_string path ''/./'' = Ret p1" "holds p1 PATH_MAX (join ?ds)"
    using remove_path_string_loop_correct [OF h comps comp(1)] small holdsD(3) [OF h]
    by (auto simp: remove_path_string_def)
  note ds = drop_component_component [OF comps, of "''.''"] length_drop_component [of "''.''" cs]
  obtain p2 where p2: "remove_path_string p1 ''//'' = Ret p2"
      "holds p2 PATH_MAX (join (drop_component [] ?ds))"
    using remove_path_string_loop_correct [OF p1(2) ds(1) comp(2)] small ds(2) holdsD(3) [OF p1(2)]
    by (auto simp: remove_path_string_def)
  obtain p3 where "remove_dot_dot p2 = Ret p3" "holds p3 PATH_MAX (join (normalise cs))"
    using remove_dot_dot_loop_correct [OF p2(2) drop_component_component [OF ds(1)]]
      len ds(2) length_drop_component [of "[]" ?ds] holdsD(3) [OF p2(2)]
    by (auto simp: remove_dot_dot_def normalise_def)
  with p1 p2 h ne show ?thesis
    using c by (simp add: resolve_path_def holdsD)
qed

lemma copy_absolute:
  assumes "list_all component cs" and "cs \<noteq> []" and "length (join cs) < PATH_MAX"
  shows "\<exists>path. copy_path cwd (join cs) = Ret path \<and> holds path PATH_MAX (join cs)"
proof -
  have "join cs ! 0 = CHR ''/''"
    using assms(2) by (cases cs) auto
  then show ?thesis
    using holds_strncpy [OF join_nul_free [OF assms(1)] assms(3)] by (simp add: copy_path_def)
qed

lemma strncpy_tail:
  "length src \<le> length y \<Longrightarrow>
    strncpy (x @ y) (length x) src (length y) = Ret (x @ src @ replicate (length y - length src) NUL)"
  by (simp add: strncpy_def take_replicate)

lemma copy_relative:
  assumes "nul_free d" and "nul_free q" and "q ! 0 \<noteq> CHR ''/''" and "length d + 1 + length q < PATH_MAX"
  shows "\<exists>path. copy_path (Some d) q = Ret path \<and> holds path PATH_MAX (d @ CHR ''/'' # q)"
proof -
  let ?k = "PATH_MAX - length d"
  have 1: "strncpy (replicate PATH_MAX NUL) 0 d PATH_MAX = Ret (d @ replicate ?k NUL)"
    using strncpy_tail [of d "replicate PATH_MAX NUL" "[]"] assms(4) by simp
  have 2: "strncpy (d @ replicate ?k NUL) (length d) ''/'' ?k = Ret ((d @ ''/'') @ replicate (?k - 1) NUL)"
    using strncpy_tail [of "''/''" "replicate ?k NUL" d] assms(4) by simp
  have 3: "strncpy ((d @ ''/'') @ replicate (?k - 1) NUL) (length d + 1) q (PATH_MAX - (length d + 1)) =
      Ret ((d @ ''/'') @ q @ replicate (?k - 1 - length q) NUL)"
    using strncpy_tail [of q "replicate (?k - 1) NUL" "d @ ''/''"] assms(4) by simp
  obtain m where m: "?k - 1 - length q = Suc m" "PATH_MAX = length d + Suc (length q + Suc m)"
    using that [of "PATH_MAX - (length d + 2 + length q)"] assms(4) by simp
  have "copy_path (Some d) q = Ret (d @ CHR ''/'' # q @ NUL # replicate m NUL)"
    using assms(3,4) 1 2 3 m(1) by (simp add: copy_path_def)
  then show ?thesis
    using assms(1,2) m(2) by (auto simp: holds_def)
qed

lemma resolve_absolute_eq:
  assumes "list_all component cs" and "cs \<noteq> []" and "2 * length (join cs) \<le> PATH_MAX"
  shows "resolve_path cwd (Some (join cs)) = Ret (Some (join (normalise cs)))"
proof -
  have "length (join cs) < PATH_MAX"
    using assms(3) by (simp add: PATH_MAX_def)
  then obtain path where "copy_path cwd (join cs) = Ret path" "holds path PATH_MAX (join cs)"
    using copy_absolute [OF assms(1,2)] by blast
  then show ?thesis
    using resolve_buffer assms by simp
qed

lemma pop_dot_dot_component:
  "list_all component acc \<Longrightarrow> list_all component cs \<Longrightarrow> list_all component (pop_dot_dot acc cs)"
  by (induction acc cs rule: pop_dot_dot.induct) (auto simp: list_all_iff split: list.splits)

lemma normalise_component: "list_all component cs \<Longrightarrow> list_all component (normalise cs)"
  by (simp add: normalise_def pop_dot_dot_component drop_component_component)

text \<open>Every absolute path is a list of components.\<close>

fun components :: "string \<Rightarrow> string list" where
  "components [] = [[]]"
| "components (c # s) =
     (if c = CHR ''/'' then [] # components s
      else (case components s of [] \<Rightarrow> [[c]] | d # ds \<Rightarrow> (c # d) # ds))"

lemma components_not_Nil [simp]: "components s \<noteq> []"
  by (induction s) (auto split: list.splits)

lemma join_components: "join (components s) = CHR ''/'' # s"
proof (induction s)
  case (Cons c s)
  then show ?case
    by (cases "components s") auto
qed simp

lemma components_component: "nul_free s \<Longrightarrow> list_all component (components s)"
proof (induction s)
  case (Cons c s)
  then show ?case
    by (cases "components s") (auto simp: component_def)
qed (simp add: component_def)

section \<open>The location a path names\<close>

text \<open>Walking the components from a directory, given as the stack of names below the root.\<close>

fun walk :: "string list \<Rightarrow> string list \<Rightarrow> string list" where
  "walk st [] = st"
| "walk st (c # cs) =
     walk (if c = [] \<or> c = ''.'' then st else if c = ''..'' then tl st else c # st) cs"

text \<open>No prefix of the path climbs above the root.\<close>

fun stays_below :: "nat \<Rightarrow> string list \<Rightarrow> bool" where
  "stays_below n [] = True"
| "stays_below n (c # cs) =
     (if c = [] \<or> c = ''.'' then stays_below n cs
      else if c = ''..'' then 0 < n \<and> stays_below (n - 1) cs
      else stays_below (Suc n) cs)"

definition plain :: "string \<Rightarrow> bool" where
  "plain c \<longleftrightarrow> c \<noteq> [] \<and> c \<noteq> ''.'' \<and> c \<noteq> ''..''"

lemma walk_append: "walk st (cs @ ds) = walk (walk st cs) ds"
  by (induction cs arbitrary: st) auto

lemma stays_below_append:
  "stays_below n (cs @ ds) \<Longrightarrow> stays_below n cs"
  by (induction cs arbitrary: n) (auto split: if_splits)

lemma walk_filter: "w = [] \<or> w = ''.'' \<Longrightarrow> walk st (filter (\<lambda>c. c \<noteq> w) cs) = walk st cs"
  by (induction cs arbitrary: st) auto

lemma walk_drop_component: "w = [] \<or> w = ''.'' \<Longrightarrow> walk st (drop_component w cs) = walk st cs"
  by (cases cs rule: rev_cases) (auto simp: drop_component_def walk_append walk_filter)

lemma stays_below_filter:
  "w = [] \<or> w = ''.'' \<Longrightarrow> stays_below n (filter (\<lambda>c. c \<noteq> w) cs) = stays_below n cs"
  by (induction cs arbitrary: n) auto

lemma butlast_drop_component: "butlast (drop_component w cs) = filter (\<lambda>c. c \<noteq> w) (butlast cs)"
  by (simp add: drop_component_def)

lemma walk_plain: "list_all plain acc \<Longrightarrow> walk st (rev acc) = acc @ st"
  by (induction acc) (auto simp: walk_append plain_def)

lemma in_set_tl: "x \<in> set (tl xs) \<Longrightarrow> x \<in> set xs"
  by (cases xs) auto

lemma pop_dot_dot_walk:
  "list_all plain acc \<Longrightarrow> \<forall>c \<in> set (butlast cs). c \<noteq> [] \<and> c \<noteq> ''.'' \<Longrightarrow>
    walk st (pop_dot_dot acc cs) = walk (acc @ st) cs"
  by (induction acc cs rule: pop_dot_dot.induct)
    (auto simp: walk_plain walk_append plain_def split: list.splits)

lemma pop_dot_dot_no_dots:
  "w \<notin> set acc \<Longrightarrow> w \<notin> set (butlast cs) \<Longrightarrow> w \<notin> set (butlast (pop_dot_dot acc cs))"
  by (induction acc cs rule: pop_dot_dot.induct)
    (auto simp: butlast_rev split: list.splits dest: in_set_butlastD in_set_tl)

lemma pop_dot_dot_clean:
  "list_all plain acc \<Longrightarrow> \<forall>c \<in> set (butlast cs). c \<noteq> [] \<and> c \<noteq> ''.'' \<Longrightarrow>
    stays_below (length acc) (butlast cs) \<Longrightarrow> ''..'' \<notin> set (butlast (pop_dot_dot acc cs))"
  by (induction acc cs rule: pop_dot_dot.induct)
    (auto simp: plain_def list_all_iff butlast_rev split: list.splits if_splits dest: in_set_butlastD in_set_tl)

lemma normalise_location:
  "walk st (normalise cs) = walk st cs"
  "[] \<notin> set (butlast (normalise cs))" "''.'' \<notin> set (butlast (normalise cs))"
  "stays_below 0 (butlast cs) \<Longrightarrow> ''..'' \<notin> set (butlast (normalise cs))"
proof -
  let ?ds = "drop_component [] (drop_component ''.'' cs)"
  have b: "butlast ?ds = filter (\<lambda>c. c \<noteq> []) (filter (\<lambda>c. c \<noteq> ''.'') (butlast cs))"
    by (simp only: butlast_drop_component)
  have n: "\<forall>c \<in> set (butlast ?ds). c \<noteq> [] \<and> c \<noteq> ''.''"
    unfolding b by simp
  show "walk st (normalise cs) = walk st cs"
    using pop_dot_dot_walk [of "[]" ?ds st] n by (simp add: normalise_def walk_drop_component)
  show "[] \<notin> set (butlast (normalise cs))" "''.'' \<notin> set (butlast (normalise cs))"
    using pop_dot_dot_no_dots [of _ "[]" ?ds] n by (auto simp: normalise_def)
  assume "stays_below 0 (butlast cs)"
  then have "stays_below 0 (butlast ?ds)"
    unfolding b by (simp add: stays_below_filter del: filter_filter)
  then show "''..'' \<notin> set (butlast (normalise cs))"
    using pop_dot_dot_clean [of "[]" ?ds] n by (simp add: normalise_def)
qed

section \<open>Properties\<close>



text \<open>
  C33. A relative path is resolved like the absolute path that starts with the components of the current
  working directory.
\<close>

theorem resolve_relative_path:
  assumes "list_all component ds" and "list_all component (c # cs)" and "c \<noteq> []"
    and "2 * length (join (ds @ c # cs)) \<le> PATH_MAX"
  shows "resolve_path (Some (join ds)) (Some (c @ join cs)) = Ret (Some (join (normalise (ds @ c # cs))))"
proof -
  have len: "length (join ds) + 1 + length (c @ join cs) < PATH_MAX"
    using assms(4) by (simp add: PATH_MAX_def)
  have c0: "(c @ join cs) ! 0 \<noteq> CHR ''/''"
    using assms(2,3) by (cases c) (auto simp: component_def)
  have "nul_free (c @ join cs)" "nul_free (join ds)"
    using join_nul_free [of cs] join_nul_free [of ds] assms(1,2) by (auto simp: component_def)
  from copy_relative [OF this(2,1) c0 len] obtain path where
    "copy_path (Some (join ds)) (c @ join cs) = Ret path" "holds path PATH_MAX (join (ds @ c # cs))"
    by auto
  with resolve_buffer [OF this(2,1)] assms show ?thesis
    by simp
qed

theorem resolve_relative_path_witness:
  "resolve_path (Some ''/home/u'') (Some ''../x'') = Ret (Some ''/home/x'')"
  using resolve_relative_path [of "[''home'', ''u'']" "''..''" "[''x'']"]
  by (simp add: component_def PATH_MAX_def normalise_def drop_component_def)


end
