(* ===== verification/Process.thy ===== *)
theory Process
  imports Save_Restore Paths
begin

text \<open>
  How the parts of libdefuse come together in a process: the mounts are loaded on first use and then the
  saved handles are restored (\<^verbatim>\<open>load_mounts\<close>, \<^verbatim>\<open>get_instance\<close> and \<^verbatim>\<open>load_mounts_void\<close> of
  \<^verbatim>\<open>mount_points.c\<close>), handles are looked up through \<^verbatim>\<open>find_file_handle\<close> of \<^verbatim>\<open>file_handles.c\<close>, and the
  macros \<^verbatim>\<open>DEFUSE_OP\<close> and \<^verbatim>\<open>DEFUSE_FD_OP\<close> of \<^verbatim>\<open>libdefuse.h\<close> send a call to a mounted library or to the
  real operation.
\<close>

section \<open>Loading on first use\<close>

definition load_mounts :: "'w kernel \<Rightarrow> 'w proc \<Rightarrow> 'w proc cres" where
  "load_mounts k p =
     (if mounts_loaded_flag p then Ret p
      else
        cbind (load_mounts_from_file k ''/proc/mounts'' (penv p)) (\<lambda>(ms, e).
        restore_file_handles_from_shared_space k
          (p\<lparr>mounts_loaded_flag := True, mount_points := ms, penv := e\<rparr>)))"

definition get_mounts :: "'w kernel \<Rightarrow> 'w proc \<Rightarrow> 'w proc cres" where
  "get_mounts k p =
     (if mp_initialized p then Ret p
      else load_mounts k (p\<lparr>mp_initialized := True, mount_points := []\<rparr>))"

definition load_mounts_void :: "'w kernel \<Rightarrow> 'w proc \<Rightarrow> 'w proc cres" where
  "load_mounts_void k p = cbind (get_mounts k p) (load_mounts k)"

definition find_file_handle :: "'w kernel \<Rightarrow> int \<Rightarrow> 'w proc \<Rightarrow> (file_handle_data option \<times> 'w proc) cres" where
  "find_file_handle k fd p =
     (if fd \<ge> MAX_FILES then Ret (None, p)
      else
        cbind (load_mounts_void k p) (\<lambda>p1.
        cmap (\<lambda>h. (h, p1)) (lookup_file_handle fd (fhs p1))))"

section \<open>Dispatch\<close>

definition DEFUSE_OP :: "'w kernel \<Rightarrow> string option \<Rightarrow> (nat \<Rightarrow> string \<Rightarrow> 'w proc \<Rightarrow> ('r \<times> 'w proc) cres) \<Rightarrow>
    ('w proc \<Rightarrow> ('r \<times> 'w proc) cres) \<Rightarrow> 'w proc \<Rightarrow> ('r \<times> 'w proc) cres" where
  "DEFUSE_OP k path op real p =
     cbind (resolve_path (k_getcwd k (penv p)) path) (\<lambda>cpath.
     cbind (get_mounts k p) (\<lambda>p1.
     cbind (find_mount_and_strip_path (mount_points p1) (map_option strdup cpath)) (\<lambda>(mp_data, cpath1).
     case mp_data of
       Some i \<Rightarrow> op i (cstr (the cpath1)) p1
     | None \<Rightarrow> real p1)))"

definition DEFUSE_FD_OP :: "'w kernel \<Rightarrow> int \<Rightarrow> (file_handle_data \<Rightarrow> 'w proc \<Rightarrow> ('r \<times> 'w proc) cres) \<Rightarrow>
    ('w proc \<Rightarrow> ('r \<times> 'w proc) cres) \<Rightarrow> 'w proc \<Rightarrow> ('r \<times> 'w proc) cres" where
  "DEFUSE_FD_OP k fd op real p =
     cbind (find_file_handle k fd p) (\<lambda>(fhd, p1).
     case fhd of Some h \<Rightarrow> op h p1 | None \<Rightarrow> real p1)"

section \<open>A loaded process\<close>

definition proc_inv :: "'w proc \<Rightarrow> bool" where
  "proc_inv p \<longleftrightarrow> mp_initialized p \<and> mounts_loaded_flag p \<and> fh_inv (fhs p) \<and>
     (\<forall>m \<in> set (mount_points p). usfs_complete (ops m)) \<and>
     (\<forall>fd h. fh_abs (fhs p) fd = Some h \<longrightarrow> mount h < length (mount_points p))"

lemma proc_invD:
  assumes "proc_inv p"
  shows "mp_initialized p" "mounts_loaded_flag p" "fh_inv (fhs p)"
    "\<forall>m \<in> set (mount_points p). usfs_complete (ops m)"
    "fh_abs (fhs p) fd = Some h \<Longrightarrow> mount h < length (mount_points p)"
  using assms by (auto simp: proc_inv_def)

lemma get_mounts_loaded [simp]: "mp_initialized p \<Longrightarrow> get_mounts k p = Ret p"
  by (simp add: get_mounts_def)

lemma load_mounts_loaded [simp]: "mounts_loaded_flag p \<Longrightarrow> load_mounts k p = Ret p"
  by (simp add: load_mounts_def)

lemma load_mounts_void_loaded [simp]:
  "mp_initialized p \<Longrightarrow> mounts_loaded_flag p \<Longrightarrow> load_mounts_void k p = Ret p"
  by (simp add: load_mounts_void_def)

lemma find_file_handle_abs:
  assumes "proc_inv p" and "0 \<le> fd"
  shows "find_file_handle k fd p = Ret (fh_abs (fhs p) fd, p)"
proof (cases "fd < MAX_FILES")
  case True
  then show ?thesis
    using proc_invD(1-3) [OF assms(1)] lookup_file_handle_abs [of "fhs p" fd] assms(2)
    by (simp add: find_file_handle_def)
next
  case False
  then show ?thesis
    by (simp add: find_file_handle_def fh_abs_def)
qed

lemma find_file_handle_negative:
  assumes "mp_initialized p" and "mounts_loaded_flag p" and "fd < 0"
  shows "find_file_handle k fd p = Undef Out_Of_Bounds"
  using assms by (simp add: find_file_handle_def lookup_file_handle_def MAX_FILES_def)

lemma DEFUSE_FD_OP_abs:
  assumes "proc_inv p" and "0 \<le> fd"
  shows "DEFUSE_FD_OP k fd op real p =
    (case fh_abs (fhs p) fd of Some h \<Rightarrow> op h p | None \<Rightarrow> real p)"
  using find_file_handle_abs [OF assms] by (simp add: DEFUSE_FD_OP_def)

text \<open>The mount a path belongs to, and the rest of the path, as \<^verbatim>\<open>DEFUSE_OP\<close> finds them.\<close>

definition mount_of_path :: "'w mount_point_array \<Rightarrow> string \<Rightarrow> (nat \<times> string) option" where
  "mount_of_path ms s =
     (if length s \<le> 1 then None
      else map_option (\<lambda>i. (i, stripped (mount_path (ms ! i)) s)) (find_mount_from_path ms s))"

lemma find_mount_short:
  assumes "length s \<le> 1" and "nul_free s"
  shows "find_mount_loop ms i (strdup s) = Ret (None, strdup s)"
  using assms by (induction ms arbitrary: i) (auto simp: cstr_id strdup_def)

lemma DEFUSE_OP_resolved:
  assumes "proc_inv p" and "resolve_path (k_getcwd k (penv p)) path = Ret (Some s)" and "nul_free s"
  shows "DEFUSE_OP k path op real p =
    (case mount_of_path (mount_points p) s of Some (i, rest) \<Rightarrow> op i rest p | None \<Rightarrow> real p)"
proof -
  have h: "holds (strdup s) (Suc (length s)) s"
    using holds_strdup [of s] assms(3) by (simp add: cstr_id)
  show ?thesis
  proof (cases "length s \<le> 1")
    case True
    then show ?thesis
      using find_mount_short [OF True assms(3), of "mount_points p" 0] proc_invD(1) [OF assms(1)] assms(2)
      by (simp add: DEFUSE_OP_def find_mount_and_strip_path_def mount_of_path_def)
  next
    case False
    then have l: "1 < length s" by simp
    show ?thesis
    proof (cases "find_mount_from_path (mount_points p) s")
      case None
      then show ?thesis
        using find_mount_loop_correct(1) [OF h l, of "mount_points p" 0] proc_invD(1) [OF assms(1)] assms(2) False
        by (simp add: DEFUSE_OP_def find_mount_and_strip_path_def mount_of_path_def find_mount_from_path_def)
    next
      case (Some i)
      then obtain b where "find_mount_loop (mount_points p) 0 (strdup s) = Ret (Some i, b)"
          "holds b (Suc (length s)) (stripped (mount_path (mount_points p ! i)) s)"
        using find_mount_loop_correct(2) [OF h l, of "mount_points p" 0 i]
        by (auto simp: find_mount_from_path_def)
      then show ?thesis
        using Some proc_invD(1) [OF assms(1)] assms(2) False
        by (simp add: DEFUSE_OP_def find_mount_and_strip_path_def mount_of_path_def holdsD(2))
    qed
  qed
qed

end
