(* ===== verification/Syscall_Ops.thy ===== *)
theory Syscall_Ops
  imports Process
begin

text \<open>
  The operations of libdefuse on a mounted file system (\<^verbatim>\<open>open.c\<close>, \<^verbatim>\<open>close.c\<close>, \<^verbatim>\<open>read.c\<close>, \<^verbatim>\<open>write.c\<close>, \<^verbatim>\<open>seek.c\<close>,
  \<^verbatim>\<open>stat.c\<close>, \<^verbatim>\<open>sync.c\<close>, \<^verbatim>\<open>truncate.c\<close>, \<^verbatim>\<open>access.c\<close>, \<^verbatim>\<open>readlink.c\<close>, \<^verbatim>\<open>unlink.c\<close>): a call into the mount's library,
  whose error code becomes \<open>-1\<close> and \<^verbatim>\<open>errno\<close>, around the kernel's descriptor that carries the offset.
\<close>

section \<open>Operations that only translate the error code\<close>

definition set_errno :: "int \<Rightarrow> 'w env \<Rightarrow> 'w env" where
  "set_errno v e = e\<lparr>errno := v\<rparr>"

lemma set_errno_sel [simp]: "errno (set_errno v e) = v" "world (set_errno v e) = world e"
  by (simp_all add: set_errno_def)

definition defuse_access :: "'w mount_point_data \<Rightarrow> string \<Rightarrow> int \<Rightarrow> 'w env \<Rightarrow> (int \<times> 'w env) cres" where
  "defuse_access mp cpath mode e =
     cbind (fptr (usfs_access (ops mp))) (\<lambda>f.
     case f cpath mode e of (rv, e1) \<Rightarrow>
       if rv \<noteq> 0 then Ret (- 1, set_errno rv e1) else Ret (rv, e1))"

definition defuse_unlink :: "'w mount_point_data \<Rightarrow> string \<Rightarrow> 'w env \<Rightarrow> (int \<times> 'w env) cres" where
  "defuse_unlink mp cpath e =
     cbind (fptr (usfs_unlink (ops mp))) (\<lambda>f.
     case f cpath e of (rv, e1) \<Rightarrow>
       if rv \<noteq> 0 then Ret (- 1, set_errno rv e1) else Ret (rv, e1))"

definition defuse_truncate :: "'w mount_point_data \<Rightarrow> string \<Rightarrow> int \<Rightarrow> 'w env \<Rightarrow> (int \<times> 'w env) cres" where
  "defuse_truncate mp cpath len e =
     cbind (fptr (usfs_truncate (ops mp))) (\<lambda>f.
     case f cpath len e of (rv, e1) \<Rightarrow>
       if rv \<noteq> 0 then Ret (- 1, set_errno rv e1) else Ret (rv, e1))"

definition defuse_ftruncate :: "'w mount_point_data \<Rightarrow> u64 \<Rightarrow> int \<Rightarrow> 'w env \<Rightarrow> (int \<times> 'w env) cres" where
  "defuse_ftruncate mp fh len e =
     cbind (fptr (usfs_ftruncate (ops mp))) (\<lambda>f.
     case f fh len e of (rv, e1) \<Rightarrow>
       if rv \<noteq> 0 then Ret (- 1, set_errno rv e1) else Ret (rv, e1))"

definition defuse_fsync :: "'w mount_point_data \<Rightarrow> u64 \<Rightarrow> int \<Rightarrow> 'w env \<Rightarrow> (int \<times> 'w env) cres" where
  "defuse_fsync mp fh data_sync e =
     cbind (fptr (usfs_fsync (ops mp))) (\<lambda>f.
     case f fh data_sync e of (rv, e1) \<Rightarrow>
       if rv \<noteq> 0 then Ret (- 1, set_errno rv e1) else Ret (rv, e1))"

definition defuse_getattr :: "'w mount_point_data \<Rightarrow> string \<Rightarrow> int \<Rightarrow> 'w env \<Rightarrow> ((int \<times> stat) \<times> 'w env) cres" where
  "defuse_getattr mp cpath flags e =
     cbind (fptr (usfs_getattr (ops mp))) (\<lambda>f.
     case f cpath flags e of ((rv, statbuf), e1) \<Rightarrow>
       if rv \<noteq> 0 then Ret ((- 1, statbuf), set_errno rv e1) else Ret ((rv, statbuf), e1))"

definition defuse_fgetattr :: "'w mount_point_data \<Rightarrow> u64 \<Rightarrow> 'w env \<Rightarrow> ((int \<times> stat) \<times> 'w env) cres" where
  "defuse_fgetattr mp fh e =
     cbind (fptr (usfs_fgetattr (ops mp))) (\<lambda>f.
     case f fh e of ((rv, statbuf), e1) \<Rightarrow>
       if rv \<noteq> 0 then Ret ((- 1, statbuf), set_errno rv e1) else Ret ((rv, statbuf), e1))"

definition defuse_readlink :: "'w mount_point_data \<Rightarrow> string \<Rightarrow> nat \<Rightarrow> 'w env \<Rightarrow> ((int \<times> string) \<times> 'w env) cres" where
  "defuse_readlink mp cpath bufsiz e =
     cbind (fptr (usfs_readlink (ops mp))) (\<lambda>f.
     case f cpath bufsiz e of ((ret_rc, buf, bytes_written), e1) \<Rightarrow>
       if ret_rc \<noteq> 0 then Ret ((- 1, buf), set_errno ret_rc e1)
       else Ret ((int bytes_written, buf), set_errno 0 e1))"

section \<open>Reading, writing, seeking\<close>

definition defuse_read :: "'w kernel \<Rightarrow> 'w mount_point_data \<Rightarrow> u64 \<Rightarrow> int \<Rightarrow> nat \<Rightarrow> 'w env \<Rightarrow>
    ((int \<times> string) \<times> 'w env) cres" where
  "defuse_read k mp fh fd n e =
     (case k_setlk k fd F_RDLCK e of (fcntl_rv, e1) \<Rightarrow>
      if fcntl_rv = - 1 then Ret ((0, []), e1)
      else
        (case k_lseek k fd 0 SEEK_CUR e1 of (offset, e2) \<Rightarrow>
         if offset \<noteq> - 1 then
           cbind (fptr (usfs_read (ops mp))) (\<lambda>f.
           case f fh n offset e2 of ((ret_rc, buf, bytes_read), e3) \<Rightarrow>
             if ret_rc \<noteq> 0 then Ret ((- 1, buf), set_errno ret_rc e3)
             else
               (case k_lseek k fd (offset + int bytes_read) SEEK_SET e3 of (_, e4) \<Rightarrow>
                case k_setlk k fd F_UNLCK e4 of (_, e5) \<Rightarrow>
                Ret ((int bytes_read, buf), set_errno 0 e5)))
         else Ret ((0, []), e2)))"

definition defuse_write :: "'w kernel \<Rightarrow> 'w mount_point_data \<Rightarrow> u64 \<Rightarrow> int \<Rightarrow> string \<Rightarrow> 'w env \<Rightarrow>
    (int \<times> 'w env) cres" where
  "defuse_write k mp fh fd buf e =
     (case k_setlk k fd F_RDLCK e of (fcntl_rv, e1) \<Rightarrow>
      if fcntl_rv = - 1 then Ret (0, e1)
      else
        (case k_lseek k fd 0 SEEK_CUR e1 of (offset, e2) \<Rightarrow>
         if offset \<noteq> - 1 then
           cbind (fptr (usfs_write (ops mp))) (\<lambda>f.
           case f fh buf offset e2 of ((ret_rc, bytes_written), e3) \<Rightarrow>
             if ret_rc \<noteq> 0 then Ret (- 1, set_errno ret_rc e3)
             else
               (case k_lseek k fd (offset + int bytes_written) SEEK_SET e3 of (_, e4) \<Rightarrow>
                case k_setlk k fd F_UNLCK e4 of (_, e5) \<Rightarrow>
                Ret (int bytes_written, set_errno 0 e5)))
         else Ret (0, e2)))"

definition SEEK_DATA :: int where "SEEK_DATA = 3"
definition SEEK_HOLE :: int where "SEEK_HOLE = 4"

text \<open>\<^verbatim>\<open>defuse_lseek\<close> returns an \<^verbatim>\<open>int\<close>: every offset passes through its 32 bits.\<close>

definition defuse_lseek :: "'w kernel \<Rightarrow> 'w mount_point_data \<Rightarrow> u64 \<Rightarrow> int \<Rightarrow> int \<Rightarrow> int \<Rightarrow> 'w env \<Rightarrow>
    (int \<times> 'w env) cres" where
  "defuse_lseek k mp fh fd offset whence e =
     (if whence = SEEK_CUR \<or> whence = SEEK_SET then
        (case k_lseek k fd offset whence e of (r, e1) \<Rightarrow> Ret (to_c_int r, e1))
      else
        cbind (fptr (usfs_fgetattr (ops mp))) (\<lambda>f.
        case f fh e of ((rv, statbuf), e1) \<Rightarrow>
          if rv \<noteq> 0 then Ret (- 1, set_errno rv e1)
          else if (whence = SEEK_HOLE \<or> whence = SEEK_DATA) \<and> offset \<ge> st_size statbuf then
            Ret (- 1, set_errno ENXIO e1)
          else
            (let offset1 = (if whence = SEEK_HOLE then st_size statbuf
                            else if whence = SEEK_DATA then offset
                            else if whence = SEEK_END then offset + st_size statbuf
                            else offset) in
             case k_lseek k fd offset1 SEEK_SET e1 of (r, e2) \<Rightarrow> Ret (to_c_int r, e2))))"

section \<open>Opening and closing\<close>

definition defuse_open :: "'w kernel \<Rightarrow> nat \<Rightarrow> string \<Rightarrow> string \<Rightarrow> int \<Rightarrow> int \<Rightarrow> 'w proc \<Rightarrow> (int \<times> 'w proc) cres" where
  "defuse_open k i cpath filename flags mode p =
     cbind (mount_at (mount_points p) i) (\<lambda>mp.
     cbind (fptr (usfs_open (ops mp))) (\<lambda>f.
     case f cpath flags mode (penv p) of ((rv, fh), e1) \<Rightarrow>
       if rv = 0 then
         (case k_open k filename O_RDONLY 0 e1 of (real_fd, e2) \<Rightarrow>
          if real_fd \<ge> 0 then
            cbind (insert_file_handle real_fd \<lparr>file_handle = fh, mount = i\<rparr> (fhs p)) (\<lambda>(rv1, s1).
            if rv1 \<noteq> 0 then
              cbind (fptr (usfs_close (ops mp))) (\<lambda>g.
              case g fh e2 of (_, e3) \<Rightarrow> Ret (- 1, p\<lparr>fhs := s1, penv := set_errno rv1 e3\<rparr>))
            else Ret (real_fd, p\<lparr>fhs := s1, penv := e2\<rparr>))
          else
            cbind (fptr (usfs_close (ops mp))) (\<lambda>g.
            case g fh e2 of (_, e3) \<Rightarrow> Ret (real_fd, p\<lparr>penv := e3\<rparr>)))
       else Ret (- 1, p\<lparr>penv := set_errno rv e1\<rparr>)))"

definition defuse_close :: "'w kernel \<Rightarrow> file_handle_data \<Rightarrow> int \<Rightarrow> 'w proc \<Rightarrow> (int \<times> 'w proc) cres" where
  "defuse_close k fhd fd p =
     cbind (mount_at (mount_points p) (mount fhd)) (\<lambda>mp.
     cbind (fptr (usfs_close (ops mp))) (\<lambda>f.
     case f (file_handle fhd) (penv p) of (rv, e1) \<Rightarrow>
       if rv \<noteq> 0 then Ret (- 1, p\<lparr>penv := set_errno rv e1\<rparr>)
       else
         cbind (remove_file_handle fd (fhs p)) (\<lambda>(rv1, s1).
         if rv1 = 0 then
           (case k_close k fd e1 of (rv2, e2) \<Rightarrow> Ret (rv2, p\<lparr>fhs := s1, penv := e2\<rparr>))
         else Ret (- 1, p\<lparr>fhs := s1, penv := set_errno rv1 e1\<rparr>))))"

section \<open>The contract of the error-code wrappers\<close>

text \<open>
  A wrapper around a library call: \<open>raw a\<close> is the call the wrapper makes for the arguments \<open>a\<close> (none if the
  function pointer is \<^verbatim>\<open>NULL\<close>).
\<close>

locale errno_wrapper =
  fixes wrap :: "'a \<Rightarrow> 'w env \<Rightarrow> (int \<times> 'w env) cres"
    and raw :: "'a \<Rightarrow> ('w env \<Rightarrow> int \<times> 'w env) option"
  assumes wrap_law: "wrap a e =
    (case raw a of
       None \<Rightarrow> Undef Null_Deref
     | Some f \<Rightarrow> (case f e of (rv, e1) \<Rightarrow> Ret (if rv = 0 then (0, e1) else (- 1, set_errno rv e1))))"
begin

lemma wrap_outcome:
  assumes "raw a = Some f"
  shows "\<exists>e'. wrap a e = Ret (if fst (f e) = 0 then 0 else - 1, e') \<and>
    world e' = world (snd (f e)) \<and> (fst (f e) \<noteq> 0 \<longrightarrow> errno e' = fst (f e)) \<and> (fst (f e) = 0 \<longrightarrow> e' = snd (f e))"
  using assms by (cases "f e") (simp add: wrap_law)

lemma wrap_result_range:
  assumes "wrap a e = Ret (r, e')"
  shows "r = 0 \<or> r = - 1"
  using assms by (auto simp: wrap_law split: option.splits prod.splits if_splits)

end

interpretation wac: errno_wrapper "\<lambda>(mp, c, m). defuse_access mp c m"
    "\<lambda>(mp, c, m). map_option (\<lambda>f. f c m) (usfs_access (ops mp))"
  by unfold_locales (auto simp: defuse_access_def split: option.splits prod.splits)

interpretation wun: errno_wrapper "\<lambda>(mp, c). defuse_unlink mp c"
    "\<lambda>(mp, c). map_option (\<lambda>f. f c) (usfs_unlink (ops mp))"
  by unfold_locales (auto simp: defuse_unlink_def split: option.splits prod.splits)

interpretation wtr: errno_wrapper "\<lambda>(mp, c, l). defuse_truncate mp c l"
    "\<lambda>(mp, c, l). map_option (\<lambda>f. f c l) (usfs_truncate (ops mp))"
  by unfold_locales (auto simp: defuse_truncate_def split: option.splits prod.splits)

interpretation wft: errno_wrapper "\<lambda>(mp, h, l). defuse_ftruncate mp h l"
    "\<lambda>(mp, h, l). map_option (\<lambda>f. f h l) (usfs_ftruncate (ops mp))"
  by unfold_locales (auto simp: defuse_ftruncate_def split: option.splits prod.splits)

interpretation wfs: errno_wrapper "\<lambda>(mp, h, d). defuse_fsync mp h d"
    "\<lambda>(mp, h, d). map_option (\<lambda>f. f h d) (usfs_fsync (ops mp))"
  by unfold_locales (auto simp: defuse_fsync_def split: option.splits prod.splits)

interpretation wga: errno_wrapper "\<lambda>(mp, c, fl) e. cmap (\<lambda>((r, st), e'). (r, e')) (defuse_getattr mp c fl e)"
    "\<lambda>(mp, c, fl). map_option (\<lambda>f e. case f c fl e of ((r, st), e') \<Rightarrow> (r, e')) (usfs_getattr (ops mp))"
  by unfold_locales (auto simp: defuse_getattr_def split: option.splits prod.splits)

interpretation wfg: errno_wrapper "\<lambda>(mp, h) e. cmap (\<lambda>((r, st), e'). (r, e')) (defuse_fgetattr mp h e)"
    "\<lambda>(mp, h). map_option (\<lambda>f e. case f h e of ((r, st), e') \<Rightarrow> (r, e')) (usfs_fgetattr (ops mp))"
  by unfold_locales (auto simp: defuse_fgetattr_def split: option.splits prod.splits)

section \<open>A file behind a descriptor\<close>

text \<open>
  What reading and writing rely on: \<^verbatim>\<open>lseek\<close> keeps one offset for the descriptor, locking succeeds and changes
  neither the offset nor the file, and the library's read and write are those of a file of bytes. \<open>pos\<close> and
  \<open>content\<close> observe the offset and the file in the world.
\<close>

definition splice :: "string \<Rightarrow> nat \<Rightarrow> string \<Rightarrow> string" where
  "splice c off d = take off c @ replicate (off - length c) NUL @ d @ drop (off + length d) c"

definition file_laws :: "'w kernel \<Rightarrow> 'w mount_point_data \<Rightarrow> u64 \<Rightarrow> int \<Rightarrow> ('w \<Rightarrow> nat) \<Rightarrow> ('w \<Rightarrow> string) \<Rightarrow> bool" where
  "file_laws k mp fh fd pos content \<longleftrightarrow>
     (\<forall>e. \<exists>e'. k_lseek k fd 0 SEEK_CUR e = (int (pos (world e)), e') \<and>
        pos (world e') = pos (world e) \<and> content (world e') = content (world e)) \<and>
     (\<forall>n e. \<exists>e'. k_lseek k fd (int n) SEEK_SET e = (int n, e') \<and>
        pos (world e') = n \<and> content (world e') = content (world e)) \<and>
     (\<forall>t e. \<exists>e'. k_setlk k fd t e = (0, e') \<and>
        pos (world e') = pos (world e) \<and> content (world e') = content (world e)) \<and>
     (\<exists>f. usfs_read (ops mp) = Some f \<and>
        (\<forall>n off e. \<exists>e'. f fh n (int off) e =
            ((0, take n (drop off (content (world e))), length (take n (drop off (content (world e))))), e') \<and>
          pos (world e') = pos (world e) \<and> content (world e') = content (world e))) \<and>
     (\<exists>g. usfs_write (ops mp) = Some g \<and>
        (\<forall>d off e. \<exists>e'. g fh d (int off) e = ((0, length d), e') \<and>
          pos (world e') = pos (world e) \<and> content (world e') = splice (content (world e)) off d))"

lemma defuse_read_law:
  assumes "file_laws k mp fh fd pos content"
  shows "\<exists>e'. defuse_read k mp fh fd n e =
      (let d = take n (drop (pos (world e)) (content (world e))) in Ret ((int (length d), d), e')) \<and>
    content (world e') = content (world e) \<and>
    pos (world e') = pos (world e) + length (take n (drop (pos (world e)) (content (world e)))) \<and> errno e' = 0"
proof -
  note L = assms [unfolded file_laws_def]
  obtain e1 where 1: "k_setlk k fd F_RDLCK e = (0, e1)" "pos (world e1) = pos (world e)" "content (world e1) = content (world e)"
    using L by metis
  obtain e2 where 2: "k_lseek k fd 0 SEEK_CUR e1 = (int (pos (world e)), e2)" "content (world e2) = content (world e)"
    using L 1 by metis
  let ?d = "take n (drop (pos (world e)) (content (world e)))"
  obtain f e3 where 3: "usfs_read (ops mp) = Some f" "f fh n (int (pos (world e))) e2 = ((0, ?d, length ?d), e3)"
      "content (world e3) = content (world e)"
    using L 2 by metis
  obtain e4 where 4: "k_lseek k fd (int (pos (world e) + length ?d)) SEEK_SET e3 = (int (pos (world e) + length ?d), e4)"
      "pos (world e4) = pos (world e) + length ?d" "content (world e4) = content (world e)"
    using L 3(3) by metis
  obtain e5 where 5: "k_setlk k fd F_UNLCK e4 = (0, e5)" "pos (world e5) = pos (world e) + length ?d"
      "content (world e5) = content (world e)"
    using L 4(2,3) by metis
  have "defuse_read k mp fh fd n e = Ret ((int (length ?d), ?d), set_errno 0 e5)"
    using 1(1) 2(1) 3(1,2) 4(1) 5(1) by (simp add: defuse_read_def)
  with 5 show ?thesis
    by (simp add: Let_def)
qed

lemma defuse_write_law:
  assumes "file_laws k mp fh fd pos content"
  shows "\<exists>e'. defuse_write k mp fh fd d e = Ret (int (length d), e') \<and>
    content (world e') = splice (content (world e)) (pos (world e)) d \<and>
    pos (world e') = pos (world e) + length d \<and> errno e' = 0"
proof -
  note L = assms [unfolded file_laws_def]
  obtain e1 where 1: "k_setlk k fd F_RDLCK e = (0, e1)" "pos (world e1) = pos (world e)" "content (world e1) = content (world e)"
    using L by metis
  obtain e2 where 2: "k_lseek k fd 0 SEEK_CUR e1 = (int (pos (world e)), e2)" "content (world e2) = content (world e)"
    using L 1 by metis
  let ?c = "splice (content (world e)) (pos (world e)) d"
  obtain f e3 where 3: "usfs_write (ops mp) = Some f" "f fh d (int (pos (world e))) e2 = ((0, length d), e3)"
      "content (world e3) = ?c"
    using L 2 by metis
  obtain e4 where 4: "k_lseek k fd (int (pos (world e) + length d)) SEEK_SET e3 = (int (pos (world e) + length d), e4)"
      "pos (world e4) = pos (world e) + length d" "content (world e4) = ?c"
    using L 3(3) by metis
  obtain e5 where 5: "k_setlk k fd F_UNLCK e4 = (0, e5)" "pos (world e5) = pos (world e) + length d"
      "content (world e5) = ?c"
    using L 4(2,3) by metis
  have "defuse_write k mp fh fd d e = Ret (int (length d), set_errno 0 e5)"
    using 1(1) 2(1) 3(1,2) 4(1) 5(1) by (simp add: defuse_write_def)
  with 5 show ?thesis
    by simp
qed

fun read_seq :: "'w kernel \<Rightarrow> 'w mount_point_data \<Rightarrow> u64 \<Rightarrow> int \<Rightarrow> nat list \<Rightarrow> 'w env \<Rightarrow>
    ((int \<times> string) list \<times> 'w env) cres" where
  "read_seq k mp fh fd [] e = Ret ([], e)"
| "read_seq k mp fh fd (n # ns) e =
     cbind (defuse_read k mp fh fd n e) (\<lambda>(r, e1).
     cmap (\<lambda>(rs, e2). (r # rs, e2)) (read_seq k mp fh fd ns e1))"

fun write_seq :: "'w kernel \<Rightarrow> 'w mount_point_data \<Rightarrow> u64 \<Rightarrow> int \<Rightarrow> string list \<Rightarrow> 'w env \<Rightarrow>
    (int list \<times> 'w env) cres" where
  "write_seq k mp fh fd [] e = Ret ([], e)"
| "write_seq k mp fh fd (d # ds) e =
     cbind (defuse_write k mp fh fd d e) (\<lambda>(r, e1).
     cmap (\<lambda>(rs, e2). (r # rs, e2)) (write_seq k mp fh fd ds e1))"

lemma read_seq_law:
  assumes "file_laws k mp fh fd pos content"
  shows "\<exists>rs e'. read_seq k mp fh fd ns e = Ret (rs, e') \<and>
    concat (map snd rs) = take (sum_list ns) (drop (pos (world e)) (content (world e))) \<and>
    map fst rs = map (int \<circ> length \<circ> snd) rs \<and> content (world e') = content (world e) \<and>
    pos (world e') = pos (world e) + length (concat (map snd rs))"
proof (induction ns arbitrary: e)
  case (Cons n ns)
  let ?c = "content (world e)" and ?p = "pos (world e)"
  let ?d = "take n (drop ?p ?c)"
  obtain e1 where e1: "defuse_read k mp fh fd n e = Ret ((int (length ?d), ?d), e1)"
      "content (world e1) = ?c" "pos (world e1) = ?p + length ?d"
    using defuse_read_law [OF assms, of n e] by (auto simp: Let_def)
  obtain rs e' where rs: "read_seq k mp fh fd ns e1 = Ret (rs, e')"
      "concat (map snd rs) = take (sum_list ns) (drop (?p + length ?d) ?c)"
      "map fst rs = map (int \<circ> length \<circ> snd) rs" "content (world e') = ?c"
      "pos (world e') = ?p + length ?d + length (concat (map snd rs))"
    using Cons.IH [of e1] e1(2,3) by auto
  have "?d @ take (sum_list ns) (drop (?p + length ?d) ?c) = take (n + sum_list ns) (drop ?p ?c)"
    by (cases "n \<le> length (drop ?p ?c)") (auto simp: take_add add.commute)
  then have cc: "concat (map snd ((int (length ?d), ?d) # rs)) = take (sum_list (n # ns)) (drop ?p ?c)"
    using rs(2) by simp
  have pp: "pos (world e') = ?p + length (concat (map snd ((int (length ?d), ?d) # rs)))"
    using rs(5) by simp
  have "read_seq k mp fh fd (n # ns) e = Ret ((int (length ?d), ?d) # rs, e')"
    using e1(1) rs(1) by simp
  moreover have "map fst ((int (length ?d), ?d) # rs) = map (int \<circ> length \<circ> snd) ((int (length ?d), ?d) # rs)"
    using rs(3) by simp
  ultimately show ?case
    using cc pp rs(4) by blast
qed simp

lemma write_seq_law:
  assumes "file_laws k mp fh fd pos content"
  shows "length (content (world e)) = pos (world e) \<Longrightarrow>
    \<exists>e'. write_seq k mp fh fd ds e = Ret (map (int \<circ> length) ds, e') \<and>
      content (world e') = content (world e) @ concat ds \<and> pos (world e') = pos (world e) + length (concat ds)"
proof (induction ds arbitrary: e)
  case (Cons d ds)
  obtain e1 where e1: "defuse_write k mp fh fd d e = Ret (int (length d), e1)"
      "content (world e1) = content (world e) @ d" "pos (world e1) = pos (world e) + length d"
    using defuse_write_law [OF assms, of d e] Cons.prems by (auto simp: splice_def)
  with Cons.IH [of e1] Cons.prems show ?case
    by auto
qed simp

section \<open>Opening and closing keep the process consistent\<close>

lemma mount_at_complete:
  assumes "proc_inv p" and "i < length (mount_points p)"
  obtains mp where "mount_at (mount_points p) i = Ret mp" and "usfs_complete (ops mp)" and "mp = mount_points p ! i"
  using assms proc_invD(4) [OF assms(1)] that by (auto simp: mount_at_def)

lemma proc_inv_env [simp]: "proc_inv (p\<lparr>penv := e\<rparr>) = proc_inv p"
  by (simp add: proc_inv_def)

lemma proc_inv_fhs:
  assumes "proc_inv p" and "fh_inv s" and "\<forall>fd h. fh_abs s fd = Some h \<longrightarrow> mount h < length (mount_points p)"
  shows "proc_inv (p\<lparr>fhs := s, penv := e\<rparr>)"
  using assms by (simp add: proc_inv_def)

lemma usfs_completeD:
  assumes "usfs_complete t"
  shows "\<exists>f. usfs_open t = Some f" "\<exists>f. usfs_close t = Some f" "\<exists>f. usfs_read t = Some f" "\<exists>f. usfs_write t = Some f"
    "\<exists>f. usfs_fsync t = Some f" "\<exists>f. usfs_ftruncate t = Some f" "\<exists>f. usfs_truncate t = Some f"
    "\<exists>f. usfs_fgetattr t = Some f" "\<exists>f. usfs_getattr t = Some f" "\<exists>f. usfs_readlink t = Some f"
    "\<exists>f. usfs_unlink t = Some f" "\<exists>f. usfs_access t = Some f"
  using assms by (simp_all add: usfs_complete_def)

lemma defuse_open_inv:
  assumes inv: "proc_inv p" and i: "i < length (mount_points p)"
  shows "\<exists>r p'. defuse_open k i cpath filename flags mode p = Ret (r, p') \<and> proc_inv p' \<and>
    mount_points p' = mount_points p \<and>
    (r < 0 \<longrightarrow> fh_abs (fhs p') = fh_abs (fhs p)) \<and>
    (0 \<le> r \<longrightarrow> fh_abs (fhs p) r = None \<and> r < MAX_FILES \<and>
       (\<exists>fh. fh_abs (fhs p') = (fh_abs (fhs p))(r \<mapsto> \<lparr>file_handle = fh, mount = i\<rparr>)))"
proof -
  obtain mp where mp: "mount_at (mount_points p) i = Ret mp" "usfs_complete (ops mp)"
    using mount_at_complete [OF inv i] by blast
  obtain f g where f: "usfs_open (ops mp) = Some f" and g: "usfs_close (ops mp) = Some g"
    using usfs_completeD(1,2) [OF mp(2)] by blast
  obtain rv fh e1 where o: "f cpath flags mode (penv p) = ((rv, fh), e1)"
    by (cases "f cpath flags mode (penv p)") auto
  obtain fd e2 where fd: "k_open k filename O_RDONLY 0 e1 = (fd, e2)"
    by fastforce
  obtain crv e3 where c: "g fh e2 = (crv, e3)"
    by fastforce
  let ?h = "\<lparr>file_handle = fh, mount = i\<rparr>"
  consider "rv \<noteq> 0" | "rv = 0" "fd < 0" | "rv = 0" "0 \<le> fd" by linarith
  then show ?thesis
  proof cases
    case 3
    obtain s where s: "insert_file_handle fd ?h (fhs p) = Ret (fst (insert_spec fd ?h (fh_abs (fhs p))), s)"
        "fh_inv s" "fh_abs s = snd (insert_spec fd ?h (fh_abs (fhs p)))"
      using insert_refines [OF proc_invD(3) [OF inv] 3(2)] by blast
    show ?thesis
    proof (cases "fst (insert_spec fd ?h (fh_abs (fhs p))) = 0")
      case True
      then have a: "fh_abs s = (fh_abs (fhs p))(fd \<mapsto> ?h)" "fh_abs (fhs p) fd = None" "fd < MAX_FILES"
        using s(3) by (auto simp: insert_spec_def errno_defs split: if_splits)
      have "defuse_open k i cpath filename flags mode p = Ret (fd, p\<lparr>fhs := s, penv := e2\<rparr>)"
        using mp(1) f o fd 3 s(1) True by (simp add: defuse_open_def)
      moreover have "proc_inv (p\<lparr>fhs := s, penv := e2\<rparr>)"
        using proc_inv_fhs [OF inv s(2)] a(1) proc_invD(5) [OF inv] i by auto
      ultimately show ?thesis
        using a 3(2) by auto
    next
      case False
      then have a: "fh_abs s = fh_abs (fhs p)"
        using s(3) by (auto simp: insert_spec_def split: if_splits)
      have "defuse_open k i cpath filename flags mode p =
          Ret (- 1, p\<lparr>fhs := s, penv := set_errno (fst (insert_spec fd ?h (fh_abs (fhs p)))) e3\<rparr>)"
        using mp(1) f g c o fd 3 s(1) False by (simp add: defuse_open_def)
      moreover have "proc_inv (p\<lparr>fhs := s, penv := e\<rparr>)" for e
        using proc_inv_fhs [OF inv s(2)] a proc_invD(5) [OF inv] by simp
      ultimately show ?thesis
        using a by auto
    qed
  qed (use mp(1) f g o fd c inv in \<open>simp_all add: defuse_open_def\<close>)
qed

lemma defuse_close_inv:
  assumes inv: "proc_inv p" and h: "fh_abs (fhs p) fd = Some h" and fd: "0 \<le> fd"
  shows "\<exists>r p'. defuse_close k h fd p = Ret (r, p') \<and> proc_inv p' \<and> mount_points p' = mount_points p \<and>
    fh_abs (fhs p') =
      (if fst (the (usfs_close (ops (mount_points p ! mount h))) (file_handle h) (penv p)) = 0
       then (fh_abs (fhs p))(fd := None) else fh_abs (fhs p))"
proof -
  have i: "mount h < length (mount_points p)"
    using proc_invD(5) [OF inv h] .
  obtain mp where mp: "mount_at (mount_points p) (mount h) = Ret mp" "usfs_complete (ops mp)"
      "mp = mount_points p ! mount h"
    using mount_at_complete [OF inv i] by blast
  obtain g where g: "usfs_close (ops mp) = Some g"
    using usfs_completeD(2) [OF mp(2)] by blast
  obtain rv e1 where c: "g (file_handle h) (penv p) = (rv, e1)"
    by fastforce
  show ?thesis
  proof (cases "rv = 0")
    case False
    then show ?thesis
      using mp(1,3) g c inv by (simp add: defuse_close_def)
  next
    case True
    have lt: "fd < MAX_FILES"
      using h by (auto simp: fh_abs_def split: if_splits)
    obtain s where s: "remove_file_handle fd (fhs p) = Ret (0, s)" "fh_inv s" "fh_abs s = (fh_abs (fhs p))(fd := None)"
      using remove_refines [OF proc_invD(3) [OF inv] fd] h lt by (auto simp: remove_spec_def)
    obtain rv2 e2 where k: "k_close k fd e1 = (rv2, e2)"
      by fastforce
    have "defuse_close k h fd p = Ret (rv2, p\<lparr>fhs := s, penv := e2\<rparr>)"
      using mp(1) g c True s(1) k by (simp add: defuse_close_def)
    moreover have "proc_inv (p\<lparr>fhs := s, penv := e2\<rparr>)"
      using proc_inv_fhs [OF inv s(2)] s(3) proc_invD(5) [OF inv] by (auto split: if_splits)
    ultimately show ?thesis
      using s(3) True c g mp(3) by simp
  qed
qed

section \<open>Properties\<close>

text \<open>The translation of a library's result \<open>(rv, e1)\<close> into a return value and \<^verbatim>\<open>errno\<close>.\<close>

definition translates :: "(int \<times> 'w env) cres \<Rightarrow> int \<times> 'w env \<Rightarrow> bool" where
  "translates r lib \<longleftrightarrow>
     (\<exists>e'. r = Ret (if fst lib = 0 then 0 else - 1, e') \<and> world e' = world (snd lib) \<and>
        (if fst lib = 0 then e' = snd lib else errno e' = fst lib))"



text \<open>
  C36. Reads through \<^verbatim>\<open>defuse_read\<close> are consecutive: for a descriptor with an offset and a library whose read is that of a
  file of bytes, any sequence of reads returns in each call the number of bytes it delivers, delivers together the
  bytes of the file from the offset on (as many as were asked for in total, or all that are left), and leaves the
  offset behind them.
\<close>

theorem reads_are_consecutive:
  assumes "file_laws k mp fh fd pos content"
  shows "\<exists>rs e'. read_seq k mp fh fd ns e = Ret (rs, e') \<and>
    concat (map snd rs) = take (sum_list ns) (drop (pos (world e)) (content (world e))) \<and>
    map fst rs = map (int \<circ> length \<circ> snd) rs \<and>
    pos (world e') = pos (world e) + length (concat (map snd rs))"
  using read_seq_law [OF assms, of ns e] by auto

text \<open>A descriptor and a library that satisfy the laws: the world holds the offset and the bytes.\<close>

definition mem_kernel :: "(nat \<times> string) kernel" where
  "mem_kernel = quiet_kernel\<lparr>k_lseek := \<lambda>fd off w e.
     if w = SEEK_CUR then (int (fst (world e)), e)
     else (off, e\<lparr>world := (nat off, snd (world e))\<rparr>)\<rparr>"

definition mem_mount :: "(nat \<times> string) mount_point_data" where
  "mem_mount = (sample_mount ''/m'')\<lparr>ops := quiet_usfs\<lparr>
     usfs_read := Some (\<lambda>h n off e.
       let d = take n (drop (nat off) (snd (world e))) in ((0, d, length d), e)),
     usfs_write := Some (\<lambda>h d off e.
       ((0, length d), e\<lparr>world := (fst (world e), splice (snd (world e)) (nat off) d)\<rparr>))\<rparr>\<rparr>"

lemma mem_file_laws: "file_laws mem_kernel mem_mount fh fd fst snd"
  by (simp add: file_laws_def mem_kernel_def mem_mount_def sample_mount_def quiet_kernel_def quiet_usfs_def
      SEEK_CUR_def SEEK_SET_def Let_def)

theorem reads_are_consecutive_witness:
  "\<exists>rs e'. read_seq mem_kernel mem_mount 7 3 [2, 3] \<lparr>errno = 0, world = (1, ''abcde'')\<rparr> = Ret (rs, e') \<and>
    concat (map snd rs) = ''bcde''"
  using reads_are_consecutive [OF mem_file_laws, of 7 3 "[2, 3]" "\<lparr>errno = 0, world = (1, ''abcde'')\<rparr>"]
  by (auto simp del: read_seq.simps)

text \<open>
  C17. What is written is read back: writing any sequence of buffers to an empty file, seeking to the start with
  \<^verbatim>\<open>defuse_lseek\<close> and reading at least that many bytes returns the buffers joined, and every write reports all its bytes.
\<close>

theorem write_seek_read:
  assumes laws: "file_laws k mp fh fd pos content" and "content (world e) = []" and "pos (world e) = 0"
    and "length (concat ds) \<le> n"
  shows "\<exists>e1 e2 e3. write_seq k mp fh fd ds e = Ret (map (int \<circ> length) ds, e1) \<and>
    defuse_lseek k mp fh fd 0 SEEK_SET e1 = Ret (0, e2) \<and>
    defuse_read k mp fh fd n e2 = Ret ((int (length (concat ds)), concat ds), e3)"
proof -
  obtain e1 where e1: "write_seq k mp fh fd ds e = Ret (map (int \<circ> length) ds, e1)" "content (world e1) = concat ds"
    using write_seq_law [OF laws, of e ds] assms(2,3) by auto
  obtain e2 where e2: "k_lseek k fd (int 0) SEEK_SET e1 = (int 0, e2)" "pos (world e2) = 0" "content (world e2) = concat ds"
    using laws e1(2) unfolding file_laws_def by metis
  then have "defuse_lseek k mp fh fd 0 SEEK_SET e1 = Ret (0, e2)"
    by (simp add: defuse_lseek_def to_c_int_def)
  moreover obtain e3 where "defuse_read k mp fh fd n e2 = Ret ((int (length (concat ds)), concat ds), e3)"
    using defuse_read_law [OF laws, of n e2] e2(2,3) assms(4) by (auto simp: Let_def)
  ultimately show ?thesis
    using e1(1) by blast
qed

theorem write_seek_read_witness:
  "\<exists>e1 e2 e3. write_seq mem_kernel mem_mount 7 3 [''ab'', ''c''] \<lparr>errno = 0, world = (0, [])\<rparr> = Ret ([2, 1], e1) \<and>
    defuse_lseek mem_kernel mem_mount 7 3 0 SEEK_SET e1 = Ret (0, e2) \<and>
    defuse_read mem_kernel mem_mount 7 3 10 e2 = Ret ((3, ''abc''), e3)"
  using write_seek_read [OF mem_file_laws, of "\<lparr>errno = 0, world = (0, [])\<rparr>" "[''ab'', ''c'']" 10 7 3]
  by (simp del: write_seq.simps)


definition loaded_proc :: "'w env \<Rightarrow> 'w proc" where
  "loaded_proc e = (proc_start e)\<lparr>mp_initialized := True, mounts_loaded_flag := True,
     mount_points := [sample_mount ''/mnt/a'']\<rparr>"

lemma loaded_proc_inv: "proc_inv (loaded_proc e)"
  by (simp add: proc_inv_def loaded_proc_def proc_start_def fh_inv_init fh_abs_init sample_mount_def
      quiet_usfs_def usfs_complete_def)

lemma loaded_proc_mounts [simp]: "mount_points (loaded_proc e) = [sample_mount ''/mnt/a'']"
  by (simp add: loaded_proc_def)


text \<open>
  \<^verbatim>\<open>defuse_lseek\<close> returns an \<^verbatim>\<open>int\<close>: for an offset from 2 GiB to 4 GiB the kernel's descriptor is moved but the
  returned value is negative.
\<close>

theorem lseek_truncates_offset:
  assumes "k_lseek k fd off SEEK_SET e = (off, e1)" and "2 ^ 31 \<le> off" and "off < 2 ^ 32"
  shows "defuse_lseek k mp fh fd off SEEK_SET e = Ret (off - 2 ^ 32, e1)"
proof -
  have "(off + 2 ^ 31) mod 2 ^ 32 = (off + 2 ^ 31 - 2 ^ 32) mod 2 ^ 32"
    by (rule minus_mod_self2 [symmetric])
  also have "\<dots> = off + 2 ^ 31 - 2 ^ 32"
    using assms(2,3) by (intro mod_pos_pos_trivial) simp_all
  finally show ?thesis
    using assms(1) by (simp add: defuse_lseek_def to_c_int_def)
qed

theorem lseek_truncates_offset_witness:
  "defuse_lseek mem_kernel mem_mount 7 3 3000000000 SEEK_SET \<lparr>errno = 0, world = (0, [])\<rparr> =
    Ret (- 1294967296, \<lparr>errno = 0, world = (3000000000, [])\<rparr>)"
  using lseek_truncates_offset [of mem_kernel 3 3000000000 "\<lparr>errno = 0, world = (0, [])\<rparr>"
      "\<lparr>errno = 0, world = (3000000000, [])\<rparr>" mem_mount 7]
  by (simp add: mem_kernel_def SEEK_SET_def SEEK_CUR_def)

text \<open>
  A failed open leaks the kernel's descriptor: with a kernel that records its open descriptors and hands out
  descriptor 1024, \<^verbatim>\<open>defuse_open\<close> returns -1 with EBADF and the descriptor stays open.
\<close>

theorem failed_open_leaks_descriptor:
  "cmap (\<lambda>(r, p). (r, errno (penv p), world (penv p)))
     (defuse_open (quiet_kernel\<lparr>k_open := \<lambda>p f m e. (1024, e\<lparr>world := 1024 # world e\<rparr>),
                                k_close := \<lambda>fd e. (0, e\<lparr>world := removeAll fd (world e)\<rparr>)\<rparr>)
        0 ''/f'' ''/mnt/a/f'' 0 0 (loaded_proc \<lparr>errno = 0, world = []\<rparr>)) = Ret (- 1, EBADF, [1024])"
  by (simp add: defuse_open_def loaded_proc_def proc_start_def mount_at_def sample_mount_def quiet_usfs_def
      insert_file_handle_def MAX_FILES_def errno_defs set_errno_def)

end
