(* ===== verification/Lddefuse.thy ===== *)
theory Lddefuse
  imports Syscall_Ops
begin

text \<open>
  The interposition library \<^verbatim>\<open>lddefuse\<close>: the C library's file functions as redefined in \<^verbatim>\<open>fcntl.c\<close>, \<^verbatim>\<open>stat.c\<close> and
  \<^verbatim>\<open>unistd.c\<close>, and the table of real operations of \<^verbatim>\<open>glibc_ops.c\<close>. The build sets no large-file macro for
  \<^verbatim>\<open>fcntl.c\<close> and \<^verbatim>\<open>stat.c\<close> and defines \<^verbatim>\<open>_GNU_SOURCE\<close> in \<^verbatim>\<open>glibc_ops.c\<close>; the model follows it.
\<close>

section \<open>Loading the real operations\<close>

text \<open>
  \<^verbatim>\<open>dlsym\<close> is given by the set of symbols the next library in the search order has. The table \<^verbatim>\<open>real_ops\<close> is the set of
  its members that are not \<^verbatim>\<open>NULL\<close>.
\<close>

definition dlsym_exit_on_error :: "string set \<Rightarrow> string \<Rightarrow> string cres" where
  "dlsym_exit_on_error symbols name = (if name \<in> symbols then Ret name else Exited)"

definition load_real_op :: "string set \<Rightarrow> string \<Rightarrow> string cres" where
  "load_real_op symbols name = dlsym_exit_on_error symbols name"

definition glibc_op_names :: "string list" where
  "glibc_op_names =
     [''open'', ''open64'', ''openat'', ''openat64'', ''creat'', ''creat64'', ''unlink'', ''unlinkat'', ''rename'',
      ''renameat'', ''read'', ''pread'', ''readv'', ''write'', ''pwrite'', ''writev'', ''truncate'', ''ftruncate'',
      ''fallocate'', ''close'', ''lseek'', ''__xstat'', ''__fxstat'', ''__fxstatat'', ''__lxstat'', ''futimesat'',
      ''utimes'', ''utime'', ''futimes'', ''dup'', ''dup2'', ''dup3'', ''chown'', ''fchown'', ''fchownat'',
      ''lchown'', ''chmod'', ''fchmod'', ''fchmodat'', ''lchmod'', ''mkdir'', ''mkdirat'', ''rmdir'', ''readlink'',
      ''readlinkat'', ''symlink'', ''symlinkat'', ''link'', ''linkat'', ''opendir'', ''fdopendir'', ''readdir'',
      ''readdir64'', ''readdir_r'', ''readdir64_r'', ''closedir'', ''access'', ''faccessat'', ''flock'', ''fcntl'',
      ''sync'', ''fsync'', ''fdatasync'', ''posix_fadvise'', ''statfs'', ''fstatfs'', ''statvfs'', ''fstatvfs'',
      ''__xmknod'', ''__xmknodat'', ''sendfile'', ''setxattr'', ''lsetxattr'', ''fsetxattr'', ''getxattr'',
      ''lgetxattr'', ''fgetxattr'', ''listxattr'', ''llistxattr'', ''flistxattr'', ''removexattr'', ''lremovexattr'',
      ''fremovexattr'', ''munmap'', ''msync'', ''execl'', ''execlp'', ''execle'', ''execv'', ''execve'', ''execvp'',
      ''execvpe'', ''fexecve'', ''__xstat64'', ''__fxstat64'', ''__fxstatat64'', ''__lxstat64'', ''statfs64'',
      ''fstatfs64'', ''posix_fadvise64'', ''sendfile64'']"

fun load_ops :: "string set \<Rightarrow> string list \<Rightarrow> string set \<Rightarrow> string set cres" where
  "load_ops symbols [] real_ops = Ret real_ops"
| "load_ops symbols (name # names) real_ops =
     cbind (dlsym_exit_on_error symbols name) (\<lambda>f. load_ops symbols names (insert f real_ops))"

text \<open>The flag \<^verbatim>\<open>load_glibc_ops_flag\<close> and the table it guards are one value: \<^const>\<open>None\<close> until the table is loaded.\<close>

definition load_glibc_ops :: "string set \<Rightarrow> string set option \<Rightarrow> string set cres" where
  "load_glibc_ops symbols real_ops =
     (case real_ops of
       Some loaded \<Rightarrow> Ret loaded
     | None \<Rightarrow> load_ops symbols glibc_op_names {})"

text \<open>\<^verbatim>\<open>real_mmap\<close>, which libdefuse calls for the shared space: a call through the member \<^verbatim>\<open>mmap\<close> of \<^verbatim>\<open>real_ops\<close>.\<close>

definition real_mmap :: "string set \<Rightarrow> 'w kernel \<Rightarrow> int \<Rightarrow> nat \<Rightarrow> 'w env \<Rightarrow> (bytes option \<times> 'w env) cres" where
  "real_mmap real_ops k fd len e =
     (if ''mmap'' \<in> real_ops then Ret (k_mmap k fd len e) else Undef Null_Deref)"

section \<open>Interposed functions\<close>

definition on_env :: "('w env \<Rightarrow> 'r \<times> 'w env) \<Rightarrow> 'w proc \<Rightarrow> ('r \<times> 'w proc) cres" where
  "on_env f p = (case f (penv p) of (r, e) \<Rightarrow> Ret (r, p\<lparr>penv := e\<rparr>))"

definition on_mount :: "('w mount_point_data \<Rightarrow> 'w env \<Rightarrow> ('r \<times> 'w env) cres) \<Rightarrow> nat \<Rightarrow> 'w proc \<Rightarrow> ('r \<times> 'w proc) cres" where
  "on_mount f i p =
     cbind (mount_at (mount_points p) i) (\<lambda>mp. cmap (\<lambda>(r, e). (r, p\<lparr>penv := e\<rparr>)) (f mp (penv p)))"

definition open_common :: "'w kernel \<Rightarrow> string option \<Rightarrow> int \<Rightarrow> int \<Rightarrow> 'w proc \<Rightarrow> (int \<times> 'w proc) cres" where
  "open_common k path flags mode =
     DEFUSE_OP k path (\<lambda>i cpath. defuse_open k i cpath (the path) flags mode) (on_env (k_openp k path flags mode))"

definition O_WRONLY :: int where "O_WRONLY = 1"
definition O_TRUNC :: int where "O_TRUNC = 512"

definition openat :: "'w kernel \<Rightarrow> int \<Rightarrow> string option \<Rightarrow> int \<Rightarrow> int \<Rightarrow> 'w proc \<Rightarrow> (int \<times> 'w proc) cres" where
  "openat k dirfd path flags arg =
     open_common k path flags (if flags AND O_CREAT \<noteq> 0 then arg else 0)"

definition ld_open :: "'w kernel \<Rightarrow> string option \<Rightarrow> int \<Rightarrow> int \<Rightarrow> 'w proc \<Rightarrow> (int \<times> 'w proc) cres" where
  "ld_open k path flags arg =
     open_common k path flags (if flags AND O_CREAT \<noteq> 0 then arg else 0)"

definition creat :: "'w kernel \<Rightarrow> string option \<Rightarrow> int \<Rightarrow> 'w proc \<Rightarrow> (int \<times> 'w proc) cres" where
  "creat k path mode = open_common k path (O_CREAT OR O_WRONLY OR O_TRUNC) mode"

definition open64 :: "'w kernel \<Rightarrow> string option \<Rightarrow> int \<Rightarrow> int \<Rightarrow> 'w proc \<Rightarrow> (int \<times> 'w proc) cres" where
  "open64 k path flags arg p = Ret (ENOSYS, p)"

definition AT_SYMLINK_NOFOLLOW :: int where "AT_SYMLINK_NOFOLLOW = 256"

definition xstat :: "'w kernel \<Rightarrow> int \<Rightarrow> string option \<Rightarrow> 'w proc \<Rightarrow> ((int \<times> stat) \<times> 'w proc) cres" where
  "xstat k vers path =
     DEFUSE_OP k path (\<lambda>i cpath. on_mount (\<lambda>mp. defuse_getattr mp cpath 0) i) (on_env (k_xstat k vers path))"

definition lxstat :: "'w kernel \<Rightarrow> int \<Rightarrow> string option \<Rightarrow> 'w proc \<Rightarrow> ((int \<times> stat) \<times> 'w proc) cres" where
  "lxstat k vers path =
     DEFUSE_OP k path (\<lambda>i cpath. on_mount (\<lambda>mp. defuse_getattr mp cpath AT_SYMLINK_NOFOLLOW) i)
       (on_env (k_lxstat k vers path))"

definition fxstat :: "'w kernel \<Rightarrow> int \<Rightarrow> int \<Rightarrow> 'w proc \<Rightarrow> ((int \<times> stat) \<times> 'w proc) cres" where
  "fxstat k vers fd =
     DEFUSE_FD_OP k fd (\<lambda>h. on_mount (\<lambda>mp. defuse_fgetattr mp (file_handle h)) (mount h))
       (on_env (k_fxstat k vers fd))"

definition ld_access :: "'w kernel \<Rightarrow> string option \<Rightarrow> int \<Rightarrow> 'w proc \<Rightarrow> (int \<times> 'w proc) cres" where
  "ld_access k path mode =
     DEFUSE_OP k path (\<lambda>i cpath. on_mount (\<lambda>mp. defuse_access mp cpath mode) i) (on_env (k_access k path mode))"

definition ld_close :: "'w kernel \<Rightarrow> int \<Rightarrow> 'w proc \<Rightarrow> (int \<times> 'w proc) cres" where
  "ld_close k fd = DEFUSE_FD_OP k fd (\<lambda>h. defuse_close k h fd) (on_env (k_close k fd))"

definition ld_fdatasync :: "'w kernel \<Rightarrow> int \<Rightarrow> 'w proc \<Rightarrow> (int \<times> 'w proc) cres" where
  "ld_fdatasync k fd =
     DEFUSE_FD_OP k fd (\<lambda>h. on_mount (\<lambda>mp. defuse_fsync mp (file_handle h) 1) (mount h)) (on_env (k_fdatasync k fd))"

definition ld_fsync :: "'w kernel \<Rightarrow> int \<Rightarrow> 'w proc \<Rightarrow> (int \<times> 'w proc) cres" where
  "ld_fsync k fd =
     DEFUSE_FD_OP k fd (\<lambda>h. on_mount (\<lambda>mp. defuse_fsync mp (file_handle h) 0) (mount h)) (on_env (k_fsync k fd))"

definition ld_ftruncate :: "'w kernel \<Rightarrow> int \<Rightarrow> int \<Rightarrow> 'w proc \<Rightarrow> (int \<times> 'w proc) cres" where
  "ld_ftruncate k fd len =
     DEFUSE_FD_OP k fd (\<lambda>h. on_mount (\<lambda>mp. defuse_ftruncate mp (file_handle h) len) (mount h))
       (on_env (k_ftruncate k fd len))"

definition ld_lseek :: "'w kernel \<Rightarrow> int \<Rightarrow> int \<Rightarrow> int \<Rightarrow> 'w proc \<Rightarrow> (int \<times> 'w proc) cres" where
  "ld_lseek k fd offset whence =
     DEFUSE_FD_OP k fd (\<lambda>h. on_mount (\<lambda>mp. defuse_lseek k mp (file_handle h) fd offset whence) (mount h))
       (on_env (k_lseek k fd offset whence))"

definition ld_read :: "'w kernel \<Rightarrow> int \<Rightarrow> nat \<Rightarrow> 'w proc \<Rightarrow> ((int \<times> string) \<times> 'w proc) cres" where
  "ld_read k fd n =
     DEFUSE_FD_OP k fd (\<lambda>h. on_mount (\<lambda>mp. defuse_read k mp (file_handle h) fd n) (mount h)) (on_env (k_read k fd n))"

definition ld_readlink :: "'w kernel \<Rightarrow> string option \<Rightarrow> nat \<Rightarrow> 'w proc \<Rightarrow> ((int \<times> string) \<times> 'w proc) cres" where
  "ld_readlink k path bufsiz =
     DEFUSE_OP k path (\<lambda>i cpath. on_mount (\<lambda>mp. defuse_readlink mp cpath bufsiz) i)
       (on_env (k_readlink k path bufsiz))"

definition ld_truncate :: "'w kernel \<Rightarrow> string option \<Rightarrow> int \<Rightarrow> 'w proc \<Rightarrow> (int \<times> 'w proc) cres" where
  "ld_truncate k path len =
     DEFUSE_OP k path (\<lambda>i cpath. on_mount (\<lambda>mp. defuse_truncate mp cpath len) i) (on_env (k_truncate k path len))"

definition ld_unlink :: "'w kernel \<Rightarrow> string option \<Rightarrow> 'w proc \<Rightarrow> (int \<times> 'w proc) cres" where
  "ld_unlink k path =
     DEFUSE_OP k path (\<lambda>i cpath. on_mount (\<lambda>mp. defuse_unlink mp cpath) i) (on_env (k_unlink k path))"

definition ld_write :: "'w kernel \<Rightarrow> int \<Rightarrow> string \<Rightarrow> 'w proc \<Rightarrow> (int \<times> 'w proc) cres" where
  "ld_write k fd buf =
     DEFUSE_FD_OP k fd (\<lambda>h. on_mount (\<lambda>mp. defuse_write k mp (file_handle h) fd buf) (mount h))
       (on_env (k_write k fd buf))"

text \<open>The constructor, and the exec functions: save the handles, look the real function up again, call it.\<close>

definition start_up :: "string set \<Rightarrow> 'w kernel \<Rightarrow> string set option \<Rightarrow> 'w proc \<Rightarrow> (string set \<times> 'w proc) cres" where
  "start_up symbols k real_ops p =
     cbind (load_glibc_ops symbols real_ops) (\<lambda>ops. cmap (\<lambda>p1. (ops, p1)) (load_mounts_void k p))"

definition exec_via :: "string \<Rightarrow> string set \<Rightarrow> 'w kernel \<Rightarrow> (string \<Rightarrow> 'w env \<Rightarrow> int \<times> 'w env) \<Rightarrow> 'w proc \<Rightarrow>
    (int \<times> 'w proc) cres" where
  "exec_via name symbols k exec p =
     cbind (save_file_handles_to_shared_space k p) (\<lambda>(rv, p1).
     cbind (load_real_op symbols name) (\<lambda>real. on_env (exec real) p1))"

definition execv :: "string set \<Rightarrow> 'w kernel \<Rightarrow> (string \<Rightarrow> 'w env \<Rightarrow> int \<times> 'w env) \<Rightarrow> 'w proc \<Rightarrow> (int \<times> 'w proc) cres" where
  "execv = exec_via ''execv''"

definition execve :: "string set \<Rightarrow> 'w kernel \<Rightarrow> (string \<Rightarrow> 'w env \<Rightarrow> int \<times> 'w env) \<Rightarrow> 'w proc \<Rightarrow> (int \<times> 'w proc) cres" where
  "execve = exec_via ''execve''"

definition execvp :: "string set \<Rightarrow> 'w kernel \<Rightarrow> (string \<Rightarrow> 'w env \<Rightarrow> int \<times> 'w env) \<Rightarrow> 'w proc \<Rightarrow> (int \<times> 'w proc) cres" where
  "execvp = exec_via ''execvp''"

definition execvpe :: "string set \<Rightarrow> 'w kernel \<Rightarrow> (string \<Rightarrow> 'w env \<Rightarrow> int \<times> 'w env) \<Rightarrow> 'w proc \<Rightarrow> (int \<times> 'w proc) cres" where
  "execvpe = exec_via ''execvep''"

definition fexecve :: "string set \<Rightarrow> 'w kernel \<Rightarrow> (string \<Rightarrow> 'w env \<Rightarrow> int \<times> 'w env) \<Rightarrow> 'w proc \<Rightarrow> (int \<times> 'w proc) cres" where
  "fexecve = exec_via ''fexecve''"

section \<open>Every call returns and keeps the process consistent\<close>

named_theorems safe_intros \<open>calls that return and keep the invariant of the process\<close>

definition safe :: "('w proc \<Rightarrow> ('r \<times> 'w proc) cres) \<Rightarrow> 'w proc \<Rightarrow> bool" where
  "safe f p \<longleftrightarrow> (\<exists>r p'. f p = Ret (r, p') \<and> proc_inv p')"

definition returns :: "('r \<times> 'w env) cres \<Rightarrow> bool" where
  "returns c \<longleftrightarrow> (\<exists>r e'. c = Ret (r, e'))"

lemma safe_on_env [safe_intros]: "proc_inv p \<Longrightarrow> safe (on_env f) p"
  by (auto simp: safe_def on_env_def split: prod.splits)

lemma safe_on_mount [safe_intros]:
  assumes "proc_inv p" and "i < length (mount_points p)"
    and "\<And>mp e. usfs_complete (ops mp) \<Longrightarrow> returns (f mp e)"
  shows "safe (on_mount f i) p"
proof -
  obtain mp where mp: "mount_at (mount_points p) i = Ret mp" "usfs_complete (ops mp)"
    using mount_at_complete [OF assms(1,2)] by blast
  then obtain r e' where "f mp (penv p) = Ret (r, e')"
    using assms(3) unfolding returns_def by blast
  with mp(1) assms(1) show ?thesis
    by (simp add: safe_def on_mount_def)
qed

lemma safe_FD_OP [safe_intros]:
  assumes "proc_inv p" and "0 \<le> fd" and "\<And>h. fh_abs (fhs p) fd = Some h \<Longrightarrow> safe (op h) p" and "safe real p"
  shows "safe (DEFUSE_FD_OP k fd op real) p"
  using assms DEFUSE_FD_OP_abs [OF assms(1,2), of k op real] by (auto simp: safe_def split: option.splits)

definition path_ok :: "string \<Rightarrow> bool" where
  "path_ok s \<longleftrightarrow> prefix ''/'' s \<and> nul_free s \<and> 2 * length s \<le> PATH_MAX"

lemma path_ok_resolved:
  assumes "path_ok s"
  obtains r where "resolve_path cwd (Some s) = Ret (Some r)" and "nul_free r"
proof -
  obtain t where t: "s = CHR ''/'' # t" "nul_free t"
    using assms by (auto simp: path_ok_def prefix_def)
  have c: "list_all component (components t)"
    by (rule components_component [OF t(2)])
  have "resolve_path cwd (Some s) = Ret (Some (join (normalise (components t))))"
    using resolve_absolute_eq [OF c] assms t(1) by (simp add: path_ok_def join_components)
  moreover have "nul_free (join (normalise (components t)))"
    by (rule join_nul_free [OF normalise_component [OF c]])
  ultimately show ?thesis
    using that by blast
qed

lemma find_mount_from_path_bound:
  "find_mount_from_path ms s = Some i \<Longrightarrow> i < length ms"
  using find_mount_from_path_loop_Some [of ms 0 s i] by (simp add: find_mount_from_path_def)

lemma safe_OP [safe_intros]:
  assumes "proc_inv p" and "path_ok s" and "\<And>i c. i < length (mount_points p) \<Longrightarrow> safe (op i c) p" and "safe real p"
  shows "safe (DEFUSE_OP k (Some s) op real) p"
proof -
  obtain r where r: "resolve_path (k_getcwd k (penv p)) (Some s) = Ret (Some r)" "nul_free r"
    using path_ok_resolved [OF assms(2)] by blast
  show ?thesis
    unfolding safe_def DEFUSE_OP_resolved [OF assms(1) r]
    using assms(3,4) by (auto simp: safe_def mount_of_path_def dest: find_mount_from_path_bound split: option.splits if_splits)
qed

lemma defuse_returns [safe_intros]:
  assumes "usfs_complete (ops mp)"
  shows "returns (defuse_access mp c m e)" "returns (defuse_unlink mp c e)" "returns (defuse_truncate mp c l e)"
    "returns (defuse_ftruncate mp h l e)" "returns (defuse_fsync mp h d e)" "returns (defuse_getattr mp c fl e)"
    "returns (defuse_fgetattr mp h e)" "returns (defuse_readlink mp c n e)"
  using usfs_completeD [OF assms]
  by (auto simp: returns_def defuse_access_def defuse_unlink_def defuse_truncate_def defuse_ftruncate_def
      defuse_fsync_def defuse_getattr_def defuse_fgetattr_def defuse_readlink_def split: prod.splits)

lemma defuse_io_returns [safe_intros]:
  assumes "usfs_complete (ops mp)"
  shows "returns (defuse_read k mp h fd n e)" "returns (defuse_write k mp h fd d e)"
    "returns (defuse_lseek k mp h fd off w e)"
  using usfs_completeD(3,4,8) [OF assms]
  by (auto simp: returns_def defuse_read_def defuse_write_def defuse_lseek_def Let_def split: prod.splits)

lemma safe_open [safe_intros]:
  "proc_inv p \<Longrightarrow> i < length (mount_points p) \<Longrightarrow> safe (defuse_open k i c f fl m) p"
  using defuse_open_inv [of p i k c f fl m] by (auto simp: safe_def)

lemma safe_close [safe_intros]:
  "proc_inv p \<Longrightarrow> 0 \<le> fd \<Longrightarrow> fh_abs (fhs p) fd = Some h \<Longrightarrow> safe (defuse_close k h fd) p"
  using defuse_close_inv [of p fd h k] by (auto simp: safe_def)

section \<open>The library as a state machine\<close>

datatype ld_call =
    L_open string int int | L_openat int string int int | L_creat string int | L_close int
  | L_read int nat | L_write int string | L_lseek int int int | L_fsync int | L_fdatasync int
  | L_ftruncate int int | L_fstat int | L_access string int | L_stat string | L_lstat string
  | L_readlink string nat | L_truncate string int | L_unlink string

fun ld_step :: "'w kernel \<Rightarrow> ld_call \<Rightarrow> 'w proc \<Rightarrow> (int \<times> 'w proc) cres" where
  "ld_step k (L_open path flags arg) = ld_open k (Some path) flags arg"
| "ld_step k (L_openat dirfd path flags arg) = openat k dirfd (Some path) flags arg"
| "ld_step k (L_creat path mode) = creat k (Some path) mode"
| "ld_step k (L_close fd) = ld_close k fd"
| "ld_step k (L_read fd n) = (\<lambda>p. cmap (\<lambda>((r, d), p'). (r, p')) (ld_read k fd n p))"
| "ld_step k (L_write fd buf) = ld_write k fd buf"
| "ld_step k (L_lseek fd off w) = ld_lseek k fd off w"
| "ld_step k (L_fsync fd) = ld_fsync k fd"
| "ld_step k (L_fdatasync fd) = ld_fdatasync k fd"
| "ld_step k (L_ftruncate fd len) = ld_ftruncate k fd len"
| "ld_step k (L_fstat fd) = (\<lambda>p. cmap (\<lambda>((r, st), p'). (r, p')) (fxstat k 1 fd p))"
| "ld_step k (L_access path mode) = ld_access k (Some path) mode"
| "ld_step k (L_stat path) = (\<lambda>p. cmap (\<lambda>((r, st), p'). (r, p')) (xstat k 1 (Some path) p))"
| "ld_step k (L_lstat path) = (\<lambda>p. cmap (\<lambda>((r, st), p'). (r, p')) (lxstat k 1 (Some path) p))"
| "ld_step k (L_readlink path n) = (\<lambda>p. cmap (\<lambda>((r, d), p'). (r, p')) (ld_readlink k (Some path) n p))"
| "ld_step k (L_truncate path len) = ld_truncate k (Some path) len"
| "ld_step k (L_unlink path) = ld_unlink k (Some path)"

fun ld_valid :: "ld_call \<Rightarrow> bool" where
  "ld_valid (L_open path flags arg) = path_ok path"
| "ld_valid (L_openat dirfd path flags arg) = path_ok path"
| "ld_valid (L_creat path mode) = path_ok path"
| "ld_valid (L_close fd) = (0 \<le> fd)"
| "ld_valid (L_read fd n) = (0 \<le> fd)"
| "ld_valid (L_write fd buf) = (0 \<le> fd)"
| "ld_valid (L_lseek fd off w) = (0 \<le> fd)"
| "ld_valid (L_fsync fd) = (0 \<le> fd)"
| "ld_valid (L_fdatasync fd) = (0 \<le> fd)"
| "ld_valid (L_ftruncate fd len) = (0 \<le> fd)"
| "ld_valid (L_fstat fd) = (0 \<le> fd)"
| "ld_valid (L_access path mode) = path_ok path"
| "ld_valid (L_stat path) = path_ok path"
| "ld_valid (L_lstat path) = path_ok path"
| "ld_valid (L_readlink path n) = path_ok path"
| "ld_valid (L_truncate path len) = path_ok path"
| "ld_valid (L_unlink path) = path_ok path"

inductive ld_reach :: "'w kernel \<Rightarrow> 'w proc \<Rightarrow> 'w proc \<Rightarrow> bool" for k :: "'w kernel" and p0 :: "'w proc" where
  reach_start: "ld_reach k p0 p0"
| reach_step: "ld_reach k p0 p \<Longrightarrow> ld_valid c \<Longrightarrow> ld_step k c p = Ret (r, p') \<Longrightarrow> ld_reach k p0 p'"

lemma safe_cmap: "safe f p \<Longrightarrow> safe (\<lambda>p. cmap (\<lambda>((r, d), p'). (r, p')) (f p)) p"
  by (auto simp: safe_def)

lemma ld_step_safe: "proc_inv p \<Longrightarrow> ld_valid c \<Longrightarrow> safe (ld_step k c) p"
  by (cases c)
    (auto simp: ld_open_def openat_def creat_def open_common_def ld_close_def ld_read_def ld_write_def
      ld_lseek_def ld_fsync_def ld_fdatasync_def ld_ftruncate_def fxstat_def ld_access_def xstat_def lxstat_def
      ld_readlink_def ld_truncate_def ld_unlink_def
      intro!: safe_intros safe_cmap intro: proc_invD(5))

section \<open>Properties\<close>



text \<open>
  C29. Descriptor calls are dispatched by the table: on a descriptor that is not a handle each call is exactly the
  real operation (nothing but the environment changes); on a handle it is the libdefuse operation with the library of the
  handle's mount and the handle stored at open.
\<close>

theorem descriptor_calls_dispatch:
  assumes "proc_inv p" and "0 \<le> fd"
  shows "(fh_abs (fhs p) fd = None \<longrightarrow>
      ld_close k fd p = on_env (k_close k fd) p \<and> ld_read k fd n p = on_env (k_read k fd n) p \<and>
      ld_write k fd d p = on_env (k_write k fd d) p \<and> ld_lseek k fd off w p = on_env (k_lseek k fd off w) p \<and>
      ld_fsync k fd p = on_env (k_fsync k fd) p \<and> ld_fdatasync k fd p = on_env (k_fdatasync k fd) p \<and>
      ld_ftruncate k fd l p = on_env (k_ftruncate k fd l) p \<and> fxstat k v fd p = on_env (k_fxstat k v fd) p) \<and>
    (\<forall>h. fh_abs (fhs p) fd = Some h \<longrightarrow> mount h < length (mount_points p) \<and>
      (let mp = mount_points p ! mount h; lift = (\<lambda>c. cmap (\<lambda>(r, e). (r, p\<lparr>penv := e\<rparr>)) c) in
       ld_close k fd p = defuse_close k h fd p \<and>
       ld_read k fd n p = cmap (\<lambda>(r, e). (r, p\<lparr>penv := e\<rparr>)) (defuse_read k mp (file_handle h) fd n (penv p)) \<and>
       ld_write k fd d p = lift (defuse_write k mp (file_handle h) fd d (penv p)) \<and>
       ld_lseek k fd off w p = lift (defuse_lseek k mp (file_handle h) fd off w (penv p)) \<and>
       ld_fsync k fd p = lift (defuse_fsync mp (file_handle h) 0 (penv p)) \<and>
       ld_fdatasync k fd p = lift (defuse_fsync mp (file_handle h) 1 (penv p)) \<and>
       ld_ftruncate k fd l p = lift (defuse_ftruncate mp (file_handle h) l (penv p)) \<and>
       fxstat k v fd p = cmap (\<lambda>(r, e). (r, p\<lparr>penv := e\<rparr>)) (defuse_fgetattr mp (file_handle h) (penv p))))"
proof (cases "fh_abs (fhs p) fd")
  case None
  then show ?thesis
    by (simp add: ld_close_def ld_read_def ld_write_def ld_lseek_def ld_fsync_def ld_fdatasync_def
        ld_ftruncate_def fxstat_def DEFUSE_FD_OP_abs [OF assms])
next
  case (Some h)
  then show ?thesis
    using proc_invD(5) [OF assms(1) Some]
    by (simp add: ld_close_def ld_read_def ld_write_def ld_lseek_def ld_fsync_def ld_fdatasync_def
        ld_ftruncate_def fxstat_def DEFUSE_FD_OP_abs [OF assms] on_mount_def mount_at_def Let_def)
qed

theorem descriptor_calls_dispatch_witness:
  "ld_read quiet_kernel 5 9 (loaded_proc \<lparr>errno = 0, world = ()\<rparr>) =
    on_env (k_read quiet_kernel 5 9) (loaded_proc \<lparr>errno = 0, world = ()\<rparr>)"
  using descriptor_calls_dispatch [OF loaded_proc_inv, of 5 "\<lparr>errno = 0, world = ()\<rparr>" quiet_kernel 9 "[]" 0 0 0 0]
  by (simp add: loaded_proc_def proc_start_def fh_abs_init)

text \<open>
  C28. Path calls are dispatched by the normalised path: for an absolute path of at most half of \<^verbatim>\<open>PATH_MAX\<close> each call
  looks up the first mount whose path is a prefix of the path with its dots resolved, and is the libdefuse operation on the
  rest of the path with that mount's library, or, if there is no such mount, exactly the real operation on
  the path as given.
\<close>

theorem path_calls_dispatch:
  assumes "proc_inv p" and "path_ok s"
  defines "target \<equiv> mount_of_path (mount_points p) (join (normalise (components (tl s))))"
  shows "(target = None \<longrightarrow>
      ld_unlink k (Some s) p = on_env (k_unlink k (Some s)) p \<and>
      ld_access k (Some s) m p = on_env (k_access k (Some s) m) p \<and>
      ld_truncate k (Some s) l p = on_env (k_truncate k (Some s) l) p \<and>
      open_common k (Some s) fl m p = on_env (k_openp k (Some s) fl m) p \<and>
      xstat k v (Some s) p = on_env (k_xstat k v (Some s)) p \<and>
      lxstat k v (Some s) p = on_env (k_lxstat k v (Some s)) p \<and>
      ld_readlink k (Some s) n p = on_env (k_readlink k (Some s) n) p) \<and>
    (\<forall>i rest. target = Some (i, rest) \<longrightarrow>
      ld_unlink k (Some s) p = on_mount (\<lambda>mp. defuse_unlink mp rest) i p \<and>
      ld_access k (Some s) m p = on_mount (\<lambda>mp. defuse_access mp rest m) i p \<and>
      ld_truncate k (Some s) l p = on_mount (\<lambda>mp. defuse_truncate mp rest l) i p \<and>
      open_common k (Some s) fl m p = defuse_open k i rest s fl m p \<and>
      xstat k v (Some s) p = on_mount (\<lambda>mp. defuse_getattr mp rest 0) i p \<and>
      lxstat k v (Some s) p = on_mount (\<lambda>mp. defuse_getattr mp rest AT_SYMLINK_NOFOLLOW) i p \<and>
      ld_readlink k (Some s) n p = on_mount (\<lambda>mp. defuse_readlink mp rest n) i p)"
proof -
  obtain t where t: "s = CHR ''/'' # t" "nul_free t"
    using assms(2) by (auto simp: path_ok_def prefix_def)
  have c: "list_all component (components t)"
    by (rule components_component [OF t(2)])
  have r: "resolve_path (k_getcwd k (penv p)) (Some s) = Ret (Some (join (normalise (components t))))"
    using resolve_absolute_eq [OF c] assms(2) t(1) by (simp add: path_ok_def join_components)
  note d = DEFUSE_OP_resolved [OF assms(1) r join_nul_free [OF normalise_component [OF c]]]
  have target: "target = mount_of_path (mount_points p) (join (normalise (components t)))"
    by (simp add: target_def t(1))
  show ?thesis
    unfolding target
    by (auto simp: ld_unlink_def ld_access_def ld_truncate_def open_common_def xstat_def lxstat_def ld_readlink_def d)
qed

theorem path_calls_dispatch_witness:
  "ld_unlink quiet_kernel (Some ''/mnt/a/b/../c'') (loaded_proc \<lparr>errno = 0, world = ()\<rparr>) =
     on_mount (\<lambda>mp. defuse_unlink mp ''/c'') 0 (loaded_proc \<lparr>errno = 0, world = ()\<rparr>)"
  using path_calls_dispatch [OF loaded_proc_inv, of "''/mnt/a/b/../c''" "\<lparr>errno = 0, world = ()\<rparr>" quiet_kernel 0 0 0 0 0]
  by (simp add: path_ok_def PATH_MAX_def normalise_def drop_component_def mount_of_path_def find_mount_from_path_def
      sample_mount_def stripped_def)

text \<open>
  A negative descriptor is not rejected: in a loaded process \<^verbatim>\<open>close\<close>, \<^verbatim>\<open>read\<close>, \<^verbatim>\<open>write\<close>, \<^verbatim>\<open>lseek\<close>, \<^verbatim>\<open>fsync\<close> and
  \<^verbatim>\<open>ftruncate\<close> on it read the handle array out of bounds, where the real operations would return EBADF.
\<close>

theorem negative_descriptor_out_of_bounds:
  assumes "mp_initialized p" and "mounts_loaded_flag p" and "fd < 0"
  shows "ld_close k fd p = Undef Out_Of_Bounds \<and> ld_read k fd n p = Undef Out_Of_Bounds \<and>
    ld_write k fd d p = Undef Out_Of_Bounds \<and> ld_lseek k fd off w p = Undef Out_Of_Bounds \<and>
    ld_fsync k fd p = Undef Out_Of_Bounds \<and> ld_ftruncate k fd l p = Undef Out_Of_Bounds"
  using find_file_handle_negative [OF assms, of k]
  by (simp add: ld_close_def ld_read_def ld_write_def ld_lseek_def ld_fsync_def ld_ftruncate_def DEFUSE_FD_OP_def)

theorem negative_descriptor_out_of_bounds_witness:
  "ld_close quiet_kernel (- 1) (loaded_proc \<lparr>errno = 0, world = ()\<rparr>) = Undef Out_Of_Bounds"
  using negative_descriptor_out_of_bounds [of "loaded_proc \<lparr>errno = 0, world = ()\<rparr>" "- 1" quiet_kernel 0 "[]" 0 0 0]
  by (simp add: loaded_proc_def)

text \<open>
  The empty path crashes: with at least one mount loaded, opening, unlinking or checking the empty path (or \<^verbatim>\<open>NULL\<close>)
  passes the \<^verbatim>\<open>NULL\<close> that \<^verbatim>\<open>resolve_path\<close> returns to \<^verbatim>\<open>strstr\<close>, where the real operations would return ENOENT or EFAULT.
\<close>

theorem empty_path_null_deref:
  assumes "mp_initialized p" and "mount_points p \<noteq> []" and "path = None \<or> path = Some []"
  shows "ld_open k path fl m p = Undef Null_Deref \<and> ld_unlink k path p = Undef Null_Deref \<and>
    ld_access k path m p = Undef Null_Deref"
proof -
  have "resolve_path cwd path = Ret None" for cwd
    using assms(3) by (auto simp: resolve_path_def)
  then have "DEFUSE_OP k path op real p = Undef Null_Deref" for op :: "nat \<Rightarrow> string \<Rightarrow> 'a proc \<Rightarrow> (int \<times> 'a proc) cres" and real
    using assms(1,2) by (simp add: DEFUSE_OP_def find_mount_and_strip_path_def)
  then show ?thesis
    by (simp add: ld_open_def open_common_def ld_unlink_def ld_access_def)
qed

theorem empty_path_null_deref_witness:
  "ld_open quiet_kernel (Some []) 0 0 (loaded_proc \<lparr>errno = 0, world = ()\<rparr>) = Undef Null_Deref"
  using empty_path_null_deref [of "loaded_proc \<lparr>errno = 0, world = ()\<rparr>" "Some []" quiet_kernel 0 0]
  by (simp add: loaded_proc_def)

lemma load_ops_result:
  "load_ops symbols names loaded = (if set names \<subseteq> symbols then Ret (set names \<union> loaded) else Exited)"
  by (induction names arbitrary: loaded) (auto simp: dlsym_exit_on_error_def)

text \<open>
  Loading the real operations succeeds exactly when the next library has every name of the list, and then \<^verbatim>\<open>real_mmap\<close>
  still calls a null pointer, because \<^verbatim>\<open>mmap\<close> is the one operation libdefuse uses that is never loaded.
\<close>

theorem real_mmap_never_loaded:
  "(load_glibc_ops symbols None \<noteq> Exited) = (set glibc_op_names \<subseteq> symbols) \<and>
   (\<forall>real_ops. load_glibc_ops symbols None = Ret real_ops \<longrightarrow>
      ''open'' \<in> real_ops \<and> ''read'' \<in> real_ops \<and> ''close'' \<in> real_ops \<and> ''lseek'' \<in> real_ops \<and>
      ''ftruncate'' \<in> real_ops \<and> real_mmap real_ops k fd len e = Undef Null_Deref)"
proof -
  have "''mmap'' \<notin> set glibc_op_names" "{''open'', ''read'', ''close'', ''lseek'', ''ftruncate''} \<subseteq> set glibc_op_names"
    by (simp_all add: glibc_op_names_def)
  then show ?thesis
    by (auto simp: load_glibc_ops_def load_ops_result real_mmap_def split: if_splits)
qed

theorem real_mmap_never_loaded_witness:
  "load_glibc_ops (insert ''mmap'' (set glibc_op_names)) None = Ret (set glibc_op_names) \<and>
    real_mmap (set glibc_op_names) quiet_kernel 3 64 \<lparr>errno = 0, world = ()\<rparr> = Undef Null_Deref"
proof -
  have "load_glibc_ops (insert ''mmap'' (set glibc_op_names)) None = Ret (set glibc_op_names)"
    by (auto simp: load_glibc_ops_def load_ops_result)
  then show ?thesis
    using real_mmap_never_loaded [of "insert ''mmap'' (set glibc_op_names)" quiet_kernel 3 64 "\<lparr>errno = 0, world = ()\<rparr>"]
    by blast
qed

text \<open>
  \<^verbatim>\<open>execvpe\<close> looks up the misspelt symbol \<^verbatim>\<open>execvep\<close>: with a C library that does not have it, the call ends the
  process whenever saving the handles returns, while \<^verbatim>\<open>execvp\<close> goes on to the real function.
\<close>

theorem execvpe_ends_process:
  assumes "''execvep'' \<notin> symbols" and "''execvp'' \<in> symbols" and "save_file_handles_to_shared_space k p = Ret (rv, p1)"
  shows "execvpe symbols k exec p = Exited \<and> execvp symbols k exec p = on_env (exec ''execvp'') p1"
  using assms by (simp add: execvpe_def execvp_def exec_via_def load_real_op_def dlsym_exit_on_error_def)

theorem execvpe_ends_process_witness:
  "execvpe (set glibc_op_names) quiet_kernel (\<lambda>f e. (0, e)) (loaded_proc \<lparr>errno = 0, world = ()\<rparr>) = Exited"
proof -
  have "save_file_handles_to_shared_space quiet_kernel (loaded_proc \<lparr>errno = 0, world = ()\<rparr>) =
      Ret (0, loaded_proc \<lparr>errno = 0, world = ()\<rparr>)"
    by (simp add: save_file_handles_to_shared_space_def loaded_proc_def proc_start_def fh_init_def fht_instance_def)
  then show ?thesis
    using execvpe_ends_process [of "set glibc_op_names" quiet_kernel "loaded_proc \<lparr>errno = 0, world = ()\<rparr>" 0
        "loaded_proc \<lparr>errno = 0, world = ()\<rparr>" "\<lambda>f e. (0, e)"]
    by (simp add: glibc_op_names_def)
qed

end
