(* ===== verification/Usfs_Libraries.thy ===== *)
theory Usfs_Libraries
  imports Lddefuse
begin

text \<open>
  The small file-system libraries under \<^verbatim>\<open>usfs_wrap/\<close>: \<^verbatim>\<open>usfs_wrap.c\<close> (system calls on a backend directory),
  \<^verbatim>\<open>avfs_wrap.c\<close> (the AVFS library) and \<^verbatim>\<open>cruise_wrap.c\<close> (the CRUISE library). The system calls and the functions of the two
  libraries below are parameters. The static variable \<^verbatim>\<open>backend\<close>, of which a process has one for each library, is the first part
  of the world. Each library is then a table of functions as \<^verbatim>\<open>load_mount\<close> finds it.
\<close>

section \<open>The functions below\<close>

record 'w posix =
  p_open :: "string \<Rightarrow> int \<Rightarrow> int \<Rightarrow> 'w env \<Rightarrow> int \<times> 'w env"
  p_pread :: "int \<Rightarrow> nat \<Rightarrow> int \<Rightarrow> 'w env \<Rightarrow> (int \<times> string) \<times> 'w env"
  p_pwrite :: "int \<Rightarrow> string \<Rightarrow> int \<Rightarrow> 'w env \<Rightarrow> int \<times> 'w env"
  p_fsync :: "int \<Rightarrow> 'w env \<Rightarrow> int \<times> 'w env"
  p_fdatasync :: "int \<Rightarrow> 'w env \<Rightarrow> int \<times> 'w env"
  p_truncate :: "string \<Rightarrow> int \<Rightarrow> 'w env \<Rightarrow> int \<times> 'w env"
  p_ftruncate :: "int \<Rightarrow> int \<Rightarrow> 'w env \<Rightarrow> int \<times> 'w env"
  p_fstat :: "int \<Rightarrow> 'w env \<Rightarrow> (int \<times> stat) \<times> 'w env"
  p_stat :: "string \<Rightarrow> 'w env \<Rightarrow> (int \<times> stat) \<times> 'w env"
  p_lstat :: "string \<Rightarrow> 'w env \<Rightarrow> (int \<times> stat) \<times> 'w env"
  p_unlink :: "string \<Rightarrow> 'w env \<Rightarrow> int \<times> 'w env"
  p_access :: "string \<Rightarrow> int \<Rightarrow> 'w env \<Rightarrow> int \<times> 'w env"
  p_close :: "int \<Rightarrow> 'w env \<Rightarrow> int \<times> 'w env"
  p_readlink :: "string \<Rightarrow> nat \<Rightarrow> 'w env \<Rightarrow> (int \<times> string) \<times> 'w env"
  p_lseek :: "int \<Rightarrow> int \<Rightarrow> int \<Rightarrow> 'w env \<Rightarrow> int \<times> 'w env"
  p_read :: "int \<Rightarrow> nat \<Rightarrow> 'w env \<Rightarrow> (int \<times> string) \<times> 'w env"
  p_write :: "int \<Rightarrow> string \<Rightarrow> 'w env \<Rightarrow> int \<times> 'w env"

type_synonym 'w lenv = "(string option \<times> 'w) env"

definition sys :: "('w env \<Rightarrow> 'r \<times> 'w env) \<Rightarrow> 'w lenv \<Rightarrow> 'r \<times> 'w lenv" where
  "sys f e =
     (case f \<lparr>errno = errno e, world = snd (world e)\<rparr> of
        (r, e1) \<Rightarrow> (r, \<lparr>errno = errno e1, world = (fst (world e), world e1)\<rparr>))"

text \<open>\<^verbatim>\<open>snprintf(..., PATH_MAX, "%s/%s", backend, path)\<close>; the C library prints \<^verbatim>\<open>(null)\<close> for \<^verbatim>\<open>NULL\<close>.\<close>

definition backend_file :: "string \<Rightarrow> 'w lenv \<Rightarrow> string" where
  "backend_file path e =
     take (PATH_MAX - 1) ((case fst (world e) of Some b \<Rightarrow> b | None \<Rightarrow> ''(null)'') @ ''/'' @ path)"

text \<open>\<^verbatim>\<open>if(-1 == ret) ret = errno;\<close> on the result cut to an \<^verbatim>\<open>int\<close>, for calls without and with data.\<close>

definition or_errno :: "int \<times> 'w lenv \<Rightarrow> int \<times> 'w lenv" where
  "or_errno = (\<lambda>(ret, e). (if to_c_int ret = - 1 then errno e else to_c_int ret, e))"

definition counted :: "int \<times> 'w lenv \<Rightarrow> (int \<times> nat) \<times> 'w lenv" where
  "counted = (\<lambda>(ret, e). (if to_c_int ret = - 1 then (errno e, 0) else (0, nat (to_c_int ret mod 2 ^ 64)), e))"

definition counted_data :: "(int \<times> string) \<times> 'w lenv \<Rightarrow> (int \<times> string \<times> nat) \<times> 'w lenv" where
  "counted_data = (\<lambda>((ret, d), e). (if to_c_int ret = - 1 then (errno e, d, 0) else (0, d, nat (to_c_int ret mod 2 ^ 64)), e))"

definition stat_or_errno :: "(int \<times> stat) \<times> 'w lenv \<Rightarrow> (int \<times> stat) \<times> 'w lenv" where
  "stat_or_errno = (\<lambda>((ret, st), e). ((if to_c_int ret = - 1 then errno e else to_c_int ret, st), e))"

definition fd_of :: "u64 \<Rightarrow> int" where
  "fd_of fh = to_c_int (uint fh)"

section \<open>usfs\_wrap.c\<close>

definition pt_init :: "string \<Rightarrow> string \<Rightarrow> 'w lenv \<Rightarrow> 'w lenv" where
  "pt_init mnt dir e = e\<lparr>world := (Some dir, snd (world e))\<rparr>"

definition pt_open :: "'w posix \<Rightarrow> string \<Rightarrow> int \<Rightarrow> int \<Rightarrow> 'w lenv \<Rightarrow> (int \<times> u64) \<times> 'w lenv" where
  "pt_open px path flags mode e =
     (case sys (p_open px (backend_file path e) flags mode) e of
        (fd, e1) \<Rightarrow> (if to_c_int fd > 0 then (0, of_int (to_c_int fd)) else (errno e1, 0), e1))"

definition pt_read :: "'w posix \<Rightarrow> u64 \<Rightarrow> nat \<Rightarrow> int \<Rightarrow> 'w lenv \<Rightarrow> (int \<times> string \<times> nat) \<times> 'w lenv" where
  "pt_read px fh n offset e = counted_data (sys (p_pread px (uint fh) n offset) e)"

definition pt_write :: "'w posix \<Rightarrow> u64 \<Rightarrow> string \<Rightarrow> int \<Rightarrow> 'w lenv \<Rightarrow> (int \<times> nat) \<times> 'w lenv" where
  "pt_write px fh buf offset e = counted (sys (p_pwrite px (uint fh) buf offset) e)"

definition pt_fsync :: "'w posix \<Rightarrow> u64 \<Rightarrow> int \<Rightarrow> 'w lenv \<Rightarrow> int \<times> 'w lenv" where
  "pt_fsync px fh data_sync e =
     or_errno (sys (if data_sync > 0 then p_fdatasync px (uint fh) else p_fsync px (uint fh)) e)"

definition pt_truncate :: "'w posix \<Rightarrow> string \<Rightarrow> int \<Rightarrow> 'w lenv \<Rightarrow> int \<times> 'w lenv" where
  "pt_truncate px path len e = or_errno (sys (p_truncate px (backend_file path e) len) e)"

definition pt_ftruncate :: "'w posix \<Rightarrow> u64 \<Rightarrow> int \<Rightarrow> 'w lenv \<Rightarrow> int \<times> 'w lenv" where
  "pt_ftruncate px fh offset e = or_errno (sys (p_ftruncate px (uint fh) offset) e)"

definition pt_fgetattr :: "'w posix \<Rightarrow> u64 \<Rightarrow> 'w lenv \<Rightarrow> (int \<times> stat) \<times> 'w lenv" where
  "pt_fgetattr px fh e = stat_or_errno (sys (p_fstat px (fd_of fh)) e)"

definition pt_getattr :: "'w posix \<Rightarrow> string \<Rightarrow> int \<Rightarrow> 'w lenv \<Rightarrow> (int \<times> stat) \<times> 'w lenv" where
  "pt_getattr px path flags e =
     stat_or_errno (sys ((if flags AND AT_SYMLINK_NOFOLLOW \<noteq> 0 then p_lstat px else p_stat px) (backend_file path e)) e)"

definition pt_unlink :: "'w posix \<Rightarrow> string \<Rightarrow> 'w lenv \<Rightarrow> int \<times> 'w lenv" where
  "pt_unlink px path e = or_errno (sys (p_unlink px (backend_file path e)) e)"

definition pt_access :: "'w posix \<Rightarrow> string \<Rightarrow> int \<Rightarrow> 'w lenv \<Rightarrow> int \<times> 'w lenv" where
  "pt_access px path mode e = or_errno (sys (p_access px (backend_file path e) mode) e)"

definition pt_close :: "'w posix \<Rightarrow> u64 \<Rightarrow> 'w lenv \<Rightarrow> int \<times> 'w lenv" where
  "pt_close px fh e = (case sys (p_close px (fd_of fh)) e of (ret, e1) \<Rightarrow> (to_c_int ret, e1))"

definition pt_readlink :: "'w posix \<Rightarrow> string \<Rightarrow> nat \<Rightarrow> 'w lenv \<Rightarrow> (int \<times> string \<times> nat) \<times> 'w lenv" where
  "pt_readlink px path bufsize e = counted_data (sys (p_readlink px (backend_file path e) bufsize) e)"

definition pt_library :: "'w posix \<Rightarrow> (string option \<times> 'w) usfs" where
  "pt_library px = \<lparr>usfs_init = Some pt_init, usfs_finalize = None, usfs_access = Some (pt_access px),
     usfs_close = Some (pt_close px), usfs_getattr = Some (pt_getattr px), usfs_fsync = Some (pt_fsync px),
     usfs_ftruncate = Some (pt_ftruncate px), usfs_truncate = Some (pt_truncate px), usfs_fgetattr = Some (pt_fgetattr px),
     usfs_open = Some (pt_open px), usfs_read = Some (pt_read px), usfs_write = Some (pt_write px),
     usfs_unlink = Some (pt_unlink px), usfs_readlink = Some (pt_readlink px), usfs_save = None, usfs_restore = None\<rparr>"

section \<open>avfs\_wrap.c\<close>

definition avfs_init :: "string \<Rightarrow> string \<Rightarrow> 'w lenv \<Rightarrow> 'w lenv" where
  "avfs_init mnt dir e = e\<lparr>world := (Some dir, snd (world e))\<rparr>"

definition avfs_open :: "'w posix \<Rightarrow> string \<Rightarrow> int \<Rightarrow> int \<Rightarrow> 'w lenv \<Rightarrow> (int \<times> u64) \<times> 'w lenv" where
  "avfs_open virt path flags mode e =
     (case sys (p_open virt (backend_file path e) flags mode) e of
        (fd, e1) \<Rightarrow> (if fd \<ge> 0 then (0, of_int fd) else (errno e1, 0), e1))"

definition avfs_read :: "'w posix \<Rightarrow> u64 \<Rightarrow> nat \<Rightarrow> int \<Rightarrow> 'w lenv \<Rightarrow> (int \<times> string \<times> nat) \<times> 'w lenv" where
  "avfs_read virt fh n offset e =
     (case sys (p_lseek virt (fd_of fh) offset SEEK_SET) e of
        (pos, e1) \<Rightarrow> if pos = - 1 then ((errno e1, [], 0), e1) else counted_data (sys (p_read virt (fd_of fh) n) e1))"

definition avfs_write :: "'w posix \<Rightarrow> u64 \<Rightarrow> string \<Rightarrow> int \<Rightarrow> 'w lenv \<Rightarrow> (int \<times> nat) \<times> 'w lenv" where
  "avfs_write virt fh buf offset e =
     (case sys (p_lseek virt (fd_of fh) offset SEEK_SET) e of
        (pos, e1) \<Rightarrow> if pos = - 1 then ((errno e1, 0), e1) else counted (sys (p_write virt (fd_of fh) buf) e1))"

definition avfs_fsync :: "u64 \<Rightarrow> int \<Rightarrow> 'w lenv \<Rightarrow> int \<times> 'w lenv" where
  "avfs_fsync fh data_sync e = (0, e)"

definition avfs_truncate :: "'w posix \<Rightarrow> string \<Rightarrow> int \<Rightarrow> 'w lenv \<Rightarrow> int \<times> 'w lenv" where
  "avfs_truncate virt path len e = or_errno (sys (p_truncate virt (backend_file path e) len) e)"

definition avfs_ftruncate :: "'w posix \<Rightarrow> u64 \<Rightarrow> int \<Rightarrow> 'w lenv \<Rightarrow> int \<times> 'w lenv" where
  "avfs_ftruncate virt fh offset e = or_errno (sys (p_ftruncate virt (fd_of fh) offset) e)"

definition avfs_fgetattr :: "'w posix \<Rightarrow> u64 \<Rightarrow> 'w lenv \<Rightarrow> (int \<times> stat) \<times> 'w lenv" where
  "avfs_fgetattr virt fh e = stat_or_errno (sys (p_fstat virt (fd_of fh)) e)"

definition avfs_getattr :: "'w posix \<Rightarrow> string \<Rightarrow> int \<Rightarrow> 'w lenv \<Rightarrow> (int \<times> stat) \<times> 'w lenv" where
  "avfs_getattr virt path flags e =
     stat_or_errno (sys ((if flags AND AT_SYMLINK_NOFOLLOW \<noteq> 0 then p_lstat virt else p_stat virt) (backend_file path e)) e)"

definition avfs_unlink :: "'w posix \<Rightarrow> string \<Rightarrow> 'w lenv \<Rightarrow> int \<times> 'w lenv" where
  "avfs_unlink virt path e = or_errno (sys (p_unlink virt (backend_file path e)) e)"

definition avfs_close :: "'w posix \<Rightarrow> u64 \<Rightarrow> 'w lenv \<Rightarrow> int \<times> 'w lenv" where
  "avfs_close virt fh e = sys (p_close virt (fd_of fh)) e"

definition avfs_library :: "'w posix \<Rightarrow> (string option \<times> 'w) usfs" where
  "avfs_library virt = \<lparr>usfs_init = Some avfs_init, usfs_finalize = None, usfs_access = None,
     usfs_close = Some (avfs_close virt), usfs_getattr = Some (avfs_getattr virt), usfs_fsync = Some avfs_fsync,
     usfs_ftruncate = Some (avfs_ftruncate virt), usfs_truncate = Some (avfs_truncate virt),
     usfs_fgetattr = Some (avfs_fgetattr virt), usfs_open = Some (avfs_open virt), usfs_read = Some (avfs_read virt),
     usfs_write = Some (avfs_write virt), usfs_unlink = Some (avfs_unlink virt), usfs_readlink = None,
     usfs_save = None, usfs_restore = None\<rparr>"

section \<open>cruise\_wrap.c\<close>

text \<open>\<^verbatim>\<open>cruise_mount\<close> is a parameter of the initialisation. \<^verbatim>\<open>usfs_fgetattr\<close> passes the descriptor, cast to a pointer, to the function that takes a
  path: what that returns is the parameter \<open>stat_int\<close>.\<close>

definition cruise_init :: "(string \<Rightarrow> 'w env \<Rightarrow> int \<times> 'w env) \<Rightarrow> string \<Rightarrow> string \<Rightarrow> 'w lenv \<Rightarrow> 'w lenv" where
  "cruise_init cruise_mount mnt dir e =
     (case sys (cruise_mount dir) e of (_, e1) \<Rightarrow> e1\<lparr>world := (Some dir, snd (world e1))\<rparr>)"

definition cruise_open :: "'w posix \<Rightarrow> string \<Rightarrow> int \<Rightarrow> int \<Rightarrow> 'w lenv \<Rightarrow> (int \<times> u64) \<times> 'w lenv" where
  "cruise_open cr path flags mode e =
     (case sys (p_open cr (backend_file path e) flags mode) e of
        (fd, e1) \<Rightarrow> (if fd \<ge> 0 then (0, of_int fd) else (errno e1, 0), e1))"

definition cruise_read :: "'w posix \<Rightarrow> u64 \<Rightarrow> nat \<Rightarrow> int \<Rightarrow> 'w lenv \<Rightarrow> (int \<times> string \<times> nat) \<times> 'w lenv" where
  "cruise_read cr fh n offset e = counted_data (sys (p_pread cr (fd_of fh) n offset) e)"

definition cruise_write :: "'w posix \<Rightarrow> u64 \<Rightarrow> string \<Rightarrow> int \<Rightarrow> 'w lenv \<Rightarrow> (int \<times> nat) \<times> 'w lenv" where
  "cruise_write cr fh buf offset e = counted (sys (p_pwrite cr (fd_of fh) buf offset) e)"

definition cruise_fsync :: "'w posix \<Rightarrow> u64 \<Rightarrow> int \<Rightarrow> 'w lenv \<Rightarrow> int \<times> 'w lenv" where
  "cruise_fsync cr fh data_sync e =
     or_errno (sys (if data_sync = 0 then p_fsync cr (fd_of fh) else p_fdatasync cr (fd_of fh)) e)"

definition cruise_truncate :: "'w posix \<Rightarrow> string \<Rightarrow> int \<Rightarrow> 'w lenv \<Rightarrow> int \<times> 'w lenv" where
  "cruise_truncate cr path len e = or_errno (sys (p_truncate cr (backend_file path e) len) e)"

definition cruise_ftruncate :: "'w posix \<Rightarrow> u64 \<Rightarrow> int \<Rightarrow> 'w lenv \<Rightarrow> int \<times> 'w lenv" where
  "cruise_ftruncate cr fh offset e = or_errno (sys (p_ftruncate cr (fd_of fh) offset) e)"

definition cruise_fgetattr :: "(int \<Rightarrow> 'w env \<Rightarrow> (int \<times> stat) \<times> 'w env) \<Rightarrow> u64 \<Rightarrow> 'w lenv \<Rightarrow> (int \<times> stat) \<times> 'w lenv" where
  "cruise_fgetattr stat_int fh e = stat_or_errno (sys (stat_int (fd_of fh)) e)"

definition cruise_getattr :: "'w posix \<Rightarrow> string \<Rightarrow> int \<Rightarrow> 'w lenv \<Rightarrow> (int \<times> stat) \<times> 'w lenv" where
  "cruise_getattr cr path flags e = stat_or_errno (sys (p_stat cr (backend_file path e)) e)"

definition cruise_unlink :: "'w posix \<Rightarrow> string \<Rightarrow> 'w lenv \<Rightarrow> int \<times> 'w lenv" where
  "cruise_unlink cr path e = or_errno (sys (p_unlink cr (backend_file path e)) e)"

definition cruise_close :: "'w posix \<Rightarrow> u64 \<Rightarrow> 'w lenv \<Rightarrow> int \<times> 'w lenv" where
  "cruise_close cr fh e = sys (p_close cr (fd_of fh)) e"

definition cruise_library :: "(string \<Rightarrow> 'w env \<Rightarrow> int \<times> 'w env) \<Rightarrow> (int \<Rightarrow> 'w env \<Rightarrow> (int \<times> stat) \<times> 'w env) \<Rightarrow> 'w posix \<Rightarrow>
    (string option \<times> 'w) usfs" where
  "cruise_library cruise_mount stat_int cr = \<lparr>usfs_init = Some (cruise_init cruise_mount), usfs_finalize = None,
     usfs_access = None, usfs_close = Some (cruise_close cr), usfs_getattr = Some (cruise_getattr cr),
     usfs_fsync = Some (cruise_fsync cr), usfs_ftruncate = Some (cruise_ftruncate cr),
     usfs_truncate = Some (cruise_truncate cr), usfs_fgetattr = Some (cruise_fgetattr stat_int),
     usfs_open = Some (cruise_open cr), usfs_read = Some (cruise_read cr), usfs_write = Some (cruise_write cr),
     usfs_unlink = Some (cruise_unlink cr), usfs_readlink = None, usfs_save = None, usfs_restore = None\<rparr>"

section \<open>Properties\<close>

lemma to_c_int_zero [simp]: "to_c_int 0 = 0" and to_c_int_minus_one [simp]: "to_c_int (- 1) = - 1"
  by (simp_all add: to_c_int_id)

text \<open>What a system call that returns no data answers: 0, or \<open>-1\<close> with \<^verbatim>\<open>errno\<close> set.\<close>

definition answers :: "int \<times> 'w lenv \<Rightarrow> bool" where
  "answers = (\<lambda>(r, e). r = 0 \<or> r = - 1 \<and> errno e \<noteq> 0)"

lemma translate_back:
  assumes "answers m" and "or_errno m = (rv, e1)"
  shows "(if rv = 0 then (0, e1) else (- 1, set_errno rv e1)) = m"
  using assms by (auto simp: answers_def or_errno_def set_errno_def split: prod.splits)


text \<open>A backend on which every call succeeds but nothing exists.\<close>

definition empty_backend :: "'w posix" where
  "empty_backend = \<lparr>p_open = (\<lambda>p f m e. (- 1, e\<lparr>errno := ENOENT\<rparr>)), p_pread = (\<lambda>fd n off e. ((0, []), e)),
     p_pwrite = (\<lambda>fd d off e. (int (length d), e)), p_fsync = (\<lambda>fd e. (0, e)), p_fdatasync = (\<lambda>fd e. (0, e)),
     p_truncate = (\<lambda>p l e. (- 1, e\<lparr>errno := ENOENT\<rparr>)), p_ftruncate = (\<lambda>fd l e. (0, e)),
     p_fstat = (\<lambda>fd e. ((0, \<lparr>st_size = 0, st_mode = 0\<rparr>), e)), p_stat = (\<lambda>p e. ((- 1, \<lparr>st_size = 0, st_mode = 0\<rparr>), e\<lparr>errno := ENOENT\<rparr>)),
     p_lstat = (\<lambda>p e. ((- 1, \<lparr>st_size = 0, st_mode = 0\<rparr>), e\<lparr>errno := ENOENT\<rparr>)), p_unlink = (\<lambda>p e. (- 1, e\<lparr>errno := ENOENT\<rparr>)),
     p_access = (\<lambda>p m e. (- 1, e\<lparr>errno := ENOENT\<rparr>)), p_close = (\<lambda>fd e. (0, e)), p_readlink = (\<lambda>p n e. ((- 1, []), e\<lparr>errno := ENOENT\<rparr>)),
     p_lseek = (\<lambda>fd off w e. (off, e)), p_read = (\<lambda>fd n e. ((0, []), e)), p_write = (\<lambda>fd d e. (int (length d), e))\<rparr>"





text \<open>
  The static \<^verbatim>\<open>backend\<close> is shared by all mounts of one library: after a second mount with another backend the first mount
  works on the backend of the second.
\<close>

lemma second_mount_redirects_first:
  assumes "ops mp1 = pt_library px" and "answers (sys (p_unlink px (take (PATH_MAX - 1) (b2 @ ''/'' @ path))) (pt_init m2 b2 (pt_init m1 b1 e)))"
  shows "defuse_unlink mp1 path (pt_init m2 b2 (pt_init m1 b1 e)) =
    Ret (sys (p_unlink px (take (PATH_MAX - 1) (b2 @ ''/'' @ path))) (pt_init m2 b2 (pt_init m1 b1 e)))"
proof -
  have "backend_file path (pt_init m2 b2 (pt_init m1 b1 e)) = take (PATH_MAX - 1) (b2 @ ''/'' @ path)"
    by (simp add: backend_file_def pt_init_def)
  then show ?thesis
    using assms translate_back [OF assms(2)]
    by (cases "or_errno (sys (p_unlink px (take (PATH_MAX - 1) (b2 @ ''/'' @ path))) (pt_init m2 b2 (pt_init m1 b1 e)))")
      (auto simp: defuse_unlink_def pt_library_def pt_unlink_def split: if_splits)
qed

end
