(* ===== verification/Crc32c.thy ===== *)
theory Crc32c
  imports Defuse_Prelude
begin

text \<open>
  The CRC-32C checksum of the HDFS packets (\<^verbatim>\<open>usfs_wrap/hdfs/crc32c.c\<close>): the table-driven software version, the version
  that interleaves three streams of the hardware instruction and joins them with zero operators over GF(2), and the proof
  that both compute the bitwise checksum. The instructions \<^verbatim>\<open>crc32b\<close> and \<^verbatim>\<open>crc32q\<close> are parameters. A buffer is
  its bytes together with its address, on which the alignment loops depend.
\<close>

section \<open>Tables\<close>

definition POLY :: u32 where "POLY = 0x82f63b78"

definition crc_bit :: "u32 \<Rightarrow> u32" where
  "crc_bit crc = (if crc AND 1 \<noteq> 0 then drop_bit 1 crc XOR POLY else drop_bit 1 crc)"

definition crc32c_table_row :: "u32 list" where
  "crc32c_table_row = map (\<lambda>n. (crc_bit ^^ 8) (of_nat n)) [0..<256]"

definition crc32c_table_next :: "u32 \<Rightarrow> u32" where
  "crc32c_table_next crc = crc32c_table_row ! unat (crc AND 0xff) XOR drop_bit 8 crc"

definition crc32c_init_sw :: "u32 list list" where
  "crc32c_init_sw = map (\<lambda>k. map (\<lambda>n. (crc32c_table_next ^^ k) (crc32c_table_row ! n)) [0..<256]) [0..<8]"

section \<open>Software version\<close>

fun load_quad :: "bytes \<Rightarrow> u64" where
  "load_quad [] = 0"
| "load_quad (b # bs) = ucast b OR push_bit 8 (load_quad bs)"

definition sw_byte :: "u32 list list \<Rightarrow> u64 \<Rightarrow> u8 \<Rightarrow> u64" where
  "sw_byte table crc b = ucast (table ! 0 ! unat ((crc XOR ucast b) AND 0xff)) XOR drop_bit 8 crc"

definition sw_quad :: "u32 list list \<Rightarrow> u64 \<Rightarrow> bytes \<Rightarrow> u64" where
  "sw_quad table crc q =
     (let c = crc XOR load_quad q in
      ucast (table ! 7 ! unat (c AND 0xff) XOR
             table ! 6 ! unat (drop_bit 8 c AND 0xff) XOR
             table ! 5 ! unat (drop_bit 16 c AND 0xff) XOR
             table ! 4 ! unat (drop_bit 24 c AND 0xff) XOR
             table ! 3 ! unat (drop_bit 32 c AND 0xff) XOR
             table ! 2 ! unat (drop_bit 40 c AND 0xff) XOR
             table ! 1 ! unat (drop_bit 48 c AND 0xff) XOR
             table ! 0 ! unat (drop_bit 56 c)))"

fun align_loop :: "('s \<Rightarrow> u8 \<Rightarrow> 's) \<Rightarrow> 's \<Rightarrow> nat \<Rightarrow> bytes \<Rightarrow> 's \<times> nat \<times> bytes" where
  "align_loop step crc addr [] = (crc, addr, [])"
| "align_loop step crc addr (b # bs) =
     (if addr mod 8 \<noteq> 0 then align_loop step (step crc b) (addr + 1) bs else (crc, addr, b # bs))"

function quad_loop :: "('s \<Rightarrow> bytes \<Rightarrow> 's) \<Rightarrow> 's \<Rightarrow> bytes \<Rightarrow> 's \<times> bytes" where
  "quad_loop step crc bs =
     (if 8 \<le> length bs then quad_loop step (step crc (take 8 bs)) (drop 8 bs) else (crc, bs))"
  by pat_completeness auto
termination by (relation "measure (\<lambda>(_, _, bs). length bs)") auto

declare quad_loop.simps [simp del]

definition crc32c_sw :: "u32 \<Rightarrow> nat \<Rightarrow> bytes \<Rightarrow> u32" where
  "crc32c_sw crci addr buf =
     (let table = crc32c_init_sw;
          (crc0, _, buf0) = align_loop (sw_byte table) (ucast (crci XOR 0xffffffff)) addr buf;
          (crc1, buf1) = quad_loop (sw_quad table) crc0 buf0;
          crc2 = foldl (sw_byte table) crc1 buf1
      in ucast crc2 XOR 0xffffffff)"

section \<open>Operators over GF(2)\<close>

function gf2_matrix_times :: "u32 list \<Rightarrow> u32 \<Rightarrow> u32 \<Rightarrow> u32" where
  "gf2_matrix_times mat vec acc =
     (if vec = 0 then acc
      else gf2_matrix_times (tl mat) (drop_bit 1 vec) (if vec AND 1 \<noteq> 0 then acc XOR hd mat else acc))"
  by pat_completeness auto
termination
proof (relation "measure (\<lambda>(_, vec, _). unat vec)")
  fix mat :: "u32 list" and vec acc :: u32
  assume "vec \<noteq> 0"
  then have "unat vec \<noteq> 0" by (simp add: unat_eq_zero)
  moreover have "unat (drop_bit 1 vec) = unat vec div 2"
    unfolding unat_drop_bit_eq by (simp add: drop_bit_eq_div)
  ultimately have "unat (drop_bit 1 vec) < unat vec" by simp
  then show "((tl mat, drop_bit 1 vec, if vec AND 1 \<noteq> 0 then acc XOR hd mat else acc), mat, vec, acc)
      \<in> measure (\<lambda>(_, vec, _). unat vec)"
    by simp
qed simp

declare gf2_matrix_times.simps [simp del]

definition gf2_matrix_square :: "u32 list \<Rightarrow> u32 list" where
  "gf2_matrix_square mat = map (\<lambda>n. gf2_matrix_times mat (mat ! n) 0) [0..<32]"

function zeros_loop :: "u32 list \<Rightarrow> nat \<Rightarrow> u32 list" where
  "zeros_loop odd_op len =
     (let even_op = gf2_matrix_square odd_op; len1 = len div 2 in
      if len1 = 0 then even_op
      else
        let odd1 = gf2_matrix_square even_op; len2 = len1 div 2 in
        if len2 = 0 then odd1 else zeros_loop odd1 len2)"
  by pat_completeness auto
termination by (relation "measure snd") auto

declare zeros_loop.simps [simp del]

definition crc32c_zeros_op :: "nat \<Rightarrow> u32 list" where
  "crc32c_zeros_op len =
     (let one_bit = POLY # map (\<lambda>n. push_bit (n - 1) 1) [1..<32];
          two_bits = gf2_matrix_square one_bit;
          four_bits = gf2_matrix_square two_bits
      in zeros_loop four_bits len)"

definition crc32c_zeros :: "nat \<Rightarrow> u32 list list" where
  "crc32c_zeros len =
     (let op = crc32c_zeros_op len in
      map (\<lambda>i. map (\<lambda>n. gf2_matrix_times op (push_bit (8 * i) (of_nat n)) 0) [0..<256]) [0..<4])"

definition crc32c_shift :: "u32 list list \<Rightarrow> u32 \<Rightarrow> u32" where
  "crc32c_shift zeros crc =
     zeros ! 0 ! unat (crc AND 0xff) XOR zeros ! 1 ! unat (drop_bit 8 crc AND 0xff) XOR
     zeros ! 2 ! unat (drop_bit 16 crc AND 0xff) XOR zeros ! 3 ! unat (drop_bit 24 crc)"

section \<open>Hardware version\<close>

definition LONG :: nat where "LONG = 8192"
definition SHORT :: nat where "SHORT = 256"

text \<open>The inner loop: one quadword from each of the three blocks at the offsets 0, \<open>block\<close> and twice \<open>block\<close>.\<close>

fun three_way :: "(u64 \<Rightarrow> u64 \<Rightarrow> u64) \<Rightarrow> nat \<Rightarrow> nat \<Rightarrow> bytes \<Rightarrow> u64 \<times> u64 \<times> u64 \<Rightarrow> u64 \<times> u64 \<times> u64" where
  "three_way crc32q block 0 next crcs = crcs"
| "three_way crc32q block (Suc n) next (crc0, crc1, crc2) =
     three_way crc32q block n (drop 8 next)
       (crc32q crc0 (load_quad (take 8 next)),
        crc32q crc1 (load_quad (take 8 (drop block next))),
        crc32q crc2 (load_quad (take 8 (drop (2 * block) next))))"

text \<open>One round of an outer loop, and the outer loop.\<close>

definition hw_block :: "(u64 \<Rightarrow> u64 \<Rightarrow> u64) \<Rightarrow> nat \<Rightarrow> u32 list list \<Rightarrow> u64 \<Rightarrow> bytes \<Rightarrow> u64" where
  "hw_block crc32q block zeros crc0 next =
     (let (c0, c1, c2) = three_way crc32q block (block div 8) next (crc0, 0, 0);
          c01 = ucast (crc32c_shift zeros (ucast c0)) XOR c1
      in ucast (crc32c_shift zeros (ucast c01)) XOR c2)"

function block_loop :: "(u64 \<Rightarrow> u64 \<Rightarrow> u64) \<Rightarrow> nat \<Rightarrow> u32 list list \<Rightarrow> u64 \<Rightarrow> bytes \<Rightarrow> u64 \<times> bytes" where
  "block_loop crc32q block zeros crc0 bs =
     (if 0 < block \<and> 3 * block \<le> length bs
      then block_loop crc32q block zeros (hw_block crc32q block zeros crc0 bs) (drop (3 * block) bs)
      else (crc0, bs))"
  by pat_completeness auto
termination by (relation "measure (\<lambda>(_, _, _, _, bs). length bs)") auto

declare block_loop.simps [simp del]

definition crc32c_hw :: "(u64 \<Rightarrow> u8 \<Rightarrow> u64) \<Rightarrow> (u64 \<Rightarrow> u64 \<Rightarrow> u64) \<Rightarrow> u32 \<Rightarrow> nat \<Rightarrow> bytes \<Rightarrow> u32" where
  "crc32c_hw crc32b crc32q crc addr buf =
     (let crc32c_long = crc32c_zeros LONG;
          crc32c_short = crc32c_zeros SHORT;
          (crc0, _, buf0) = align_loop crc32b (ucast (crc XOR 0xffffffff)) addr buf;
          (crc1, buf1) = block_loop crc32q LONG crc32c_long crc0 buf0;
          (crc2, buf2) = block_loop crc32q SHORT crc32c_short crc1 buf1;
          (crc3, buf3) = quad_loop (\<lambda>c q. crc32q c (load_quad q)) crc2 buf2;
          crc4 = foldl crc32b crc3 buf3
      in ucast crc4 XOR 0xffffffff)"

definition crc32c :: "bool \<Rightarrow> (u64 \<Rightarrow> u8 \<Rightarrow> u64) \<Rightarrow> (u64 \<Rightarrow> u64 \<Rightarrow> u64) \<Rightarrow> u32 \<Rightarrow> nat \<Rightarrow> bytes \<Rightarrow> u32" where
  "crc32c sse42 crc32b crc32q = (if sse42 then crc32c_hw crc32b crc32q else crc32c_sw)"

section \<open>The bitwise checksum\<close>

text \<open>The reference: a shift register that takes the message bit by bit, eight steps for a byte.\<close>

definition crc_byte :: "u32 \<Rightarrow> u8 \<Rightarrow> u32" where
  "crc_byte crc b = (crc_bit ^^ 8) (crc XOR ucast b)"

definition crc_bitwise :: "u32 \<Rightarrow> bytes \<Rightarrow> u32" where
  "crc_bitwise crc buf = foldl crc_byte (crc XOR 0xffffffff) buf XOR 0xffffffff"

definition xor_linear :: "(u32 \<Rightarrow> u32) \<Rightarrow> bool" where
  "xor_linear f \<longleftrightarrow> (\<forall>a b. f (a XOR b) = f a XOR f b)"

lemma xor_linearD: "xor_linear f \<Longrightarrow> f (a XOR b) = f a XOR f b"
  by (simp add: xor_linear_def)

lemma xor_linear_zero: "xor_linear f \<Longrightarrow> f 0 = 0"
  using xor_linearD [of f 0 0] by simp

lemma xor_linear_comp: "xor_linear f \<Longrightarrow> xor_linear g \<Longrightarrow> xor_linear (\<lambda>x. f (g x))"
  by (simp add: xor_linear_def)

lemma and_one_nonzero: "(x AND 1 \<noteq> 0) = odd x" for x :: "'a::len word"
  by (simp add: and_one_eq odd_iff_mod_2_eq_one)

lemma crc_bit_linear: "xor_linear crc_bit"
  unfolding xor_linear_def crc_bit_def and_one_nonzero
  by (auto simp: even_xor_iff drop_bit_xor ac_simps)

lemma funpow_linear: "xor_linear f \<Longrightarrow> xor_linear (f ^^ n)"
  by (induction n) (auto simp: xor_linear_def)

abbreviation zero_bits :: "nat \<Rightarrow> u32 \<Rightarrow> u32" where
  "zero_bits n \<equiv> crc_bit ^^ n"

lemmas zero_bits_linear = funpow_linear [OF crc_bit_linear]
lemmas zero_bits_xor = xor_linearD [OF zero_bits_linear]

lemma zero_bits_add: "zero_bits (m + n) x = zero_bits m (zero_bits n x)"
  by (simp add: funpow_add)

lemma crc_bit_even: "even x \<Longrightarrow> crc_bit x = drop_bit 1 x"
  unfolding crc_bit_def and_one_nonzero by simp

lemma zero_bits_push:
  "n + m \<le> 32 \<Longrightarrow> zero_bits n (push_bit n (take_bit m x)) = take_bit m x"
proof (induction n)
  case (Suc n)
  have e: "even (push_bit (Suc n) (take_bit m x))"
    by simp
  have "drop_bit 1 (push_bit (Suc n) (take_bit m x)) = push_bit n (take_bit m x)"
    using Suc.prems by (auto intro!: bit_word_eqI simp: bit_simps simp del: push_bit_Suc)
  then have "zero_bits (Suc n) (push_bit (Suc n) (take_bit m x)) = zero_bits n (push_bit n (take_bit m x))"
    using crc_bit_even [OF e] by (simp add: funpow_Suc_right del: funpow.simps)
  then show ?case
    using Suc by simp
qed simp

lemma zero_bits_8_drop: "zero_bits 8 x = zero_bits 8 (take_bit 8 x) XOR drop_bit 8 x"
proof -
  have x: "x = take_bit 8 x XOR push_bit 8 (take_bit 24 (drop_bit 8 x))"
    by (rule bit_word_eqI) (auto simp: bit_simps)
  have d: "take_bit 24 (drop_bit 8 x) = drop_bit 8 x"
    by (rule bit_word_eqI) (auto simp: bit_simps dest: bit_imp_le_length)
  have "zero_bits 8 x = zero_bits 8 (take_bit 8 x XOR push_bit 8 (take_bit 24 (drop_bit 8 x)))"
    using x by (rule arg_cong)
  also have "\<dots> = zero_bits 8 (take_bit 8 x) XOR zero_bits 8 (push_bit 8 (take_bit 24 (drop_bit 8 x)))"
    by (rule zero_bits_xor)
  also have "zero_bits 8 (push_bit 8 (take_bit 24 (drop_bit 8 x))) = drop_bit 8 x"
    using zero_bits_push [of 8 24 "drop_bit 8 x"] d by simp
  finally show ?thesis .
qed

section \<open>The tables hold the operators\<close>

lemma and_ff: "x AND 0xff = take_bit 8 x" for x :: "'a::len word"
  using take_bit_eq_mask [of 8 x] by (simp add: mask_eq_exp_minus_1)

lemma unat_take_bit_less: "8 \<le> LENGTH('a) \<Longrightarrow> unat (take_bit 8 (x :: 'a::len word)) < 256"
  using take_bit_nat_less_exp [of 8 "unat x"] by (simp add: unsigned_take_bit_eq)

lemma of_nat_unat_take: "of_nat (unat (take_bit 8 (x :: 'a::len word))) = (ucast (take_bit 8 x) :: 'b::len word)"
  by (simp add: unsigned_def)

lemma table_row_nth: "n < 256 \<Longrightarrow> crc32c_table_row ! n = zero_bits 8 (of_nat n)"
  by (simp add: crc32c_table_row_def)

lemma crc32c_table_next_eq: "crc32c_table_next = zero_bits 8"
proof
  fix x :: u32
  have "unat (take_bit 8 x) < 256"
    by (rule unat_take_bit_less) simp
  then show "crc32c_table_next x = zero_bits 8 x"
    by (simp add: crc32c_table_next_def and_ff table_row_nth zero_bits_8_drop [of x] del: funpow.simps)
qed

lemma zero_bits_funpow: "(zero_bits m ^^ k) x = zero_bits (m * k) x"
  by (simp add: funpow_mult)

lemma table_nth:
  assumes "k < 8" and "n < 256"
  shows "crc32c_init_sw ! k ! n = zero_bits (8 * Suc k) (of_nat n)"
proof -
  have "crc32c_init_sw ! k ! n = zero_bits (8 * k) (zero_bits 8 (of_nat n))"
    using assms by (simp add: crc32c_init_sw_def table_row_nth crc32c_table_next_eq zero_bits_funpow del: funpow.simps)
  also have "\<dots> = zero_bits (8 * k + 8) (of_nat n)"
    by (rule zero_bits_add [symmetric])
  finally show ?thesis
    by (simp add: add.commute del: funpow.simps)
qed

lemma table_lookup:
  assumes "k < 8" and "8 \<le> LENGTH('a)"
  shows "crc32c_init_sw ! k ! unat (take_bit 8 (x :: 'a::len word)) = zero_bits (8 * Suc k) (ucast (take_bit 8 x))"
  using table_nth [OF assms(1) unat_take_bit_less [OF assms(2), of x]] by (simp only: of_nat_unat_take)

section \<open>The software version computes the checksum\<close>

lemma foldl_crc_byte:
  "foldl crc_byte c bs = zero_bits (8 * length bs) c XOR foldl crc_byte 0 bs"
proof (induction bs arbitrary: c)
  case (Cons b bs)
  have "foldl crc_byte c (b # bs) = zero_bits (8 * length bs) (zero_bits 8 (c XOR ucast b)) XOR foldl crc_byte 0 bs"
    using Cons.IH [of "crc_byte c b"] by (simp add: crc_byte_def [of c b] del: funpow.simps)
  also have "zero_bits (8 * length bs) (zero_bits 8 (c XOR ucast b)) =
      zero_bits (8 * length (b # bs)) c XOR zero_bits (8 * length bs) (zero_bits 8 (ucast b))"
    by (simp only: zero_bits_xor zero_bits_add [symmetric]) (simp add: add.commute del: funpow.simps)
  also have "\<dots> XOR foldl crc_byte 0 bs = zero_bits (8 * length (b # bs)) c XOR foldl crc_byte 0 (b # bs)"
    using Cons.IH [of "crc_byte 0 b"] by (simp add: crc_byte_def [of 0 b] ac_simps del: funpow.simps)
  finally show ?case .
qed simp

lemma foldl_crc_byte_Cons:
  "foldl crc_byte 0 (b # bs) = zero_bits (8 * Suc (length bs)) (ucast b) XOR foldl crc_byte 0 bs"
proof -
  have "foldl crc_byte 0 (b # bs) = zero_bits (8 * length bs) (zero_bits 8 (ucast b)) XOR foldl crc_byte 0 bs"
    using foldl_crc_byte [of "crc_byte 0 b" bs] by (simp add: crc_byte_def [of 0 b] del: funpow.simps)
  then show ?thesis
    by (simp only: zero_bits_add [symmetric]) (simp add: add.commute del: funpow.simps)
qed

lemma sw_byte_correct: "sw_byte crc32c_init_sw (ucast c) b = ucast (crc_byte c b)"
proof -
  have i: "(ucast c XOR ucast b :: u64) AND 0xff = take_bit 8 (ucast (c XOR ucast b))"
    unfolding and_ff by (rule bit_word_eqI) (auto simp: bit_simps)
  have t: "ucast (take_bit 8 (ucast (c XOR ucast b) :: u64)) = take_bit 8 (c XOR ucast b)"
    by (rule bit_word_eqI) (auto simp: bit_simps)
  have d: "drop_bit 8 (c XOR ucast b) = drop_bit 8 c"
    by (rule bit_word_eqI) (auto simp: bit_simps dest: bit_imp_le_length)
  have l: "crc32c_init_sw ! 0 ! unat (take_bit 8 (ucast (c XOR ucast b) :: u64)) = zero_bits 8 (take_bit 8 (c XOR ucast b))"
    using table_lookup [of 0, where 'a = 64] by (simp add: t del: funpow.simps)
  have "ucast (zero_bits 8 (take_bit 8 (c XOR ucast b))) XOR drop_bit 8 (ucast c) =
      (ucast (zero_bits 8 (take_bit 8 (c XOR ucast b)) XOR drop_bit 8 c) :: u64)"
    by (rule bit_word_eqI) (auto simp: bit_simps simp del: funpow.simps dest: bit_imp_le_length)
  then show ?thesis
    unfolding sw_byte_def i l crc_byte_def zero_bits_8_drop [of "c XOR ucast b"] d .
qed

lemma bit_load_quad:
  "length bs \<le> 8 \<Longrightarrow> bit (load_quad bs) n \<longleftrightarrow> n div 8 < length bs \<and> bit (bs ! (n div 8)) (n mod 8)"
proof (induction bs arbitrary: n)
  case (Cons b bs)
  show ?case
  proof (cases "n < 8")
    case True
    then show ?thesis by (simp add: bit_simps)
  next
    case False
    then obtain m where m: "n = 8 + m" by (metis le_add_diff_inverse not_less)
    have l: "\<not> bit b (8 + m)" by (auto dest: bit_imp_le_length)
    have ih: "bit (load_quad bs) m \<longleftrightarrow> m div 8 < length bs \<and> bit (bs ! (m div 8)) (m mod 8)"
      using Cons.prems by (intro Cons.IH) simp
    have "m div 8 < 7" if "m div 8 < length bs"
      using that Cons.prems by simp
    then have r: "bit (load_quad bs) m \<Longrightarrow> m < 56"
      unfolding ih by presburger
    have "bit (load_quad (b # bs)) n \<longleftrightarrow> bit (load_quad bs) m"
      using l r by (auto simp: m bit_simps)
    moreover have "n div 8 = Suc (m div 8)" "n mod 8 = m mod 8"
      by (simp_all add: m)
    ultimately show ?thesis
      by (simp only: ih list.size nth_Cons_Suc) simp
  qed
qed simp

lemma load_quad_byte:
  assumes "i < length bs" and "length bs \<le> 8"
  shows "take_bit 8 (drop_bit (8 * i) (load_quad bs)) = ucast (bs ! i)"
proof (rule bit_word_eqI)
  fix n assume "n < LENGTH(64)"
  show "bit (take_bit 8 (drop_bit (8 * i) (load_quad bs))) n = bit (ucast (bs ! i) :: u64) n"
    using assms \<open>n < LENGTH(64)\<close> bit_load_quad [OF assms(2), of "8 * i + n"]
    by (cases "n < 8") (auto simp: bit_simps dest: bit_imp_le_length)
qed

lemma zero_bits_bytes:
  "zero_bits 64 c =
     zero_bits 64 (take_bit 8 c) XOR zero_bits 56 (take_bit 8 (drop_bit 8 c)) XOR
     zero_bits 48 (take_bit 8 (drop_bit 16 c)) XOR zero_bits 40 (take_bit 8 (drop_bit 24 c))"
proof -
  have c: "c = take_bit 8 c XOR push_bit 8 (take_bit 8 (drop_bit 8 c)) XOR
      push_bit 16 (take_bit 8 (drop_bit 16 c)) XOR push_bit 24 (take_bit 8 (drop_bit 24 c))"
    by (rule bit_word_eqI) (auto simp: bit_simps)
  have p: "zero_bits 64 (push_bit n (take_bit 8 x)) = zero_bits (64 - n) (take_bit 8 x)" if "n \<le> 24" for n x
    using zero_bits_push [of n 8 x] zero_bits_add [of "64 - n" n "push_bit n (take_bit 8 x)"] that
    by (simp del: funpow.simps)
  show ?thesis
    by (subst c) (simp add: zero_bits_xor p del: funpow.simps)
qed

lemma quad_index:
  assumes "length q = 8" and "i < 8"
  shows "ucast (take_bit 8 (drop_bit (8 * i) (ucast c XOR load_quad q))) =
    take_bit 8 (drop_bit (8 * i) c) XOR (ucast (q ! i) :: u32)"
proof -
  have "take_bit 8 (drop_bit (8 * i) (ucast c XOR load_quad q)) =
      take_bit 8 (drop_bit (8 * i) (ucast c)) XOR (ucast (q ! i) :: u64)"
    using load_quad_byte [of i q] assms by (simp add: drop_bit_xor take_bit_xor)
  moreover have "ucast (take_bit 8 (drop_bit (8 * i) (ucast c)) XOR (ucast b :: u64)) =
      take_bit 8 (drop_bit (8 * i) c) XOR (ucast b :: u32)" for b :: u8
    by (rule bit_word_eqI) (auto simp: bit_simps dest: bit_imp_le_length)
  ultimately show ?thesis by simp
qed

lemma sw_quad_correct:
  assumes "length q = 8"
  shows "sw_quad crc32c_init_sw (ucast c) q = ucast (foldl crc_byte c q)"
proof -
  have lookup: "crc32c_init_sw ! (7 - i) ! unat (take_bit 8 (drop_bit (8 * i) (ucast c XOR load_quad q))) =
      zero_bits (64 - 8 * i) (take_bit 8 (drop_bit (8 * i) c)) XOR zero_bits (64 - 8 * i) (ucast (q ! i))" if "i < 8" for i
  proof -
    have "8 * Suc (7 - i) = 64 - 8 * i" using that by simp
    then show ?thesis
      using table_lookup [of "7 - i" "drop_bit (8 * i) (ucast c XOR load_quad q)"] that
      by (simp only: quad_index [OF assms that] zero_bits_xor) simp
  qed
  have top: "take_bit 8 (drop_bit 56 x) = drop_bit 56 x" for x :: u64
    by (rule bit_word_eqI) (auto simp: bit_simps dest: bit_imp_le_length)
  have high: "take_bit 8 (drop_bit n c) = 0" if "32 \<le> n" for n
    using that by (auto intro!: bit_word_eqI simp: bit_simps dest: bit_imp_le_length)
  have zero: "zero_bits n 0 = 0" for n
    by (rule xor_linear_zero [OF zero_bits_linear])
  obtain b0 b1 b2 b3 b4 b5 b6 b7 where q: "q = [b0, b1, b2, b3, b4, b5, b6, b7]"
    using assms by (auto simp: numeral_eq_Suc length_Suc_conv)
  have "foldl crc_byte c q = zero_bits 64 c XOR foldl crc_byte 0 q"
    using foldl_crc_byte [of c q] assms by (simp del: funpow.simps)
  then show ?thesis
    unfolding sw_quad_def Let_def and_ff
    using lookup [of 0] lookup [of 1] lookup [of 2] lookup [of 3] lookup [of 4] lookup [of 5] lookup [of 6] lookup [of 7]
    by (simp only: q foldl_crc_byte_Cons zero_bits_bytes [of c])
      (simp add: top high zero ac_simps del: funpow.simps)
qed

text \<open>What the loops need of a byte step and a quadword step, and what they then compute.\<close>

locale crc_steps =
  fixes byte_step :: "u64 \<Rightarrow> u8 \<Rightarrow> u64" and quad_step :: "u64 \<Rightarrow> bytes \<Rightarrow> u64"
  assumes byte_step: "byte_step (ucast c) b = ucast (crc_byte c b)"
    and quad_step: "length q = 8 \<Longrightarrow> quad_step (ucast c) q = ucast (foldl crc_byte c q)"
begin

lemma bytes_correct: "foldl byte_step (ucast c) bs = ucast (foldl crc_byte c bs)"
  by (induction bs arbitrary: c) (simp_all add: byte_step)

lemma align_correct:
  "\<exists>c' addr' bs'. align_loop byte_step (ucast c) addr bs = (ucast c', addr', bs') \<and>
    foldl crc_byte c' bs' = foldl crc_byte c bs"
  by (induction bs arbitrary: c addr) (auto simp: byte_step)

lemma quads_correct:
  "\<exists>c' bs'. quad_loop quad_step (ucast c) bs = (ucast c', bs') \<and> foldl crc_byte c' bs' = foldl crc_byte c bs"
proof (induction "length bs" arbitrary: c bs rule: less_induct)
  case less
  show ?case
  proof (cases "8 \<le> length bs")
    case True
    have "foldl crc_byte c bs = foldl crc_byte (foldl crc_byte c (take 8 bs)) (drop 8 bs)"
      by (metis append_take_drop_id foldl_append)
    then show ?thesis
      using less [of "drop 8 bs" "foldl crc_byte c (take 8 bs)"] True
      by (subst quad_loop.simps) (simp add: quad_step)
  next
    case False
    then show ?thesis by (subst quad_loop.simps) auto
  qed
qed

end

interpretation sw_steps: crc_steps "sw_byte crc32c_init_sw" "sw_quad crc32c_init_sw"
  by unfold_locales (simp_all add: sw_byte_correct sw_quad_correct)

lemma ucast_ucast_u32: "ucast (ucast c :: u64) = (c :: u32)"
  by (rule bit_word_eqI) (auto simp: bit_simps)

lemma crc32c_sw_bitwise: "crc32c_sw crci addr buf = crc_bitwise crci buf"
proof -
  obtain c0 a0 b0 where 0: "align_loop (sw_byte crc32c_init_sw) (ucast (crci XOR 0xffffffff)) addr buf = (ucast c0, a0, b0)"
    "foldl crc_byte c0 b0 = foldl crc_byte (crci XOR 0xffffffff) buf"
    using sw_steps.align_correct by blast
  obtain c1 b1 where 1: "quad_loop (sw_quad crc32c_init_sw) (ucast c0) b0 = (ucast c1, b1)"
    "foldl crc_byte c1 b1 = foldl crc_byte c0 b0"
    using sw_steps.quads_correct by blast
  show ?thesis
    by (simp only: crc32c_sw_def Let_def 0(1) 1(1) split sw_steps.bytes_correct ucast_ucast_u32 1(2) 0(2) crc_bitwise_def)
qed

section \<open>Zero operators\<close>

text \<open>A matrix holds a linear operator when its rows are the images of the single bits.\<close>

definition operator_of :: "(u32 \<Rightarrow> u32) \<Rightarrow> u32 list \<Rightarrow> bool" where
  "operator_of f mat \<longleftrightarrow> length mat = 32 \<and> (\<forall>n < 32. mat ! n = f (push_bit n 1))"

lemma split_lowest:
  fixes f :: "u32 \<Rightarrow> u32"
  assumes "xor_linear f"
  shows "f v = (if odd v then f 1 else 0) XOR f (push_bit 1 (drop_bit 1 v))"
proof -
  have "v = (if odd v then 1 else 0) XOR push_bit 1 (drop_bit 1 v)"
  proof (rule bit_word_eqI)
    fix n assume "n < LENGTH(32)"
    then show "bit v n = bit ((if odd v then 1 else 0) XOR push_bit 1 (drop_bit 1 v)) n"
      by (cases n) (auto simp: bit_simps bit_1_iff bit_0 even_xor_iff simp del: push_bit_Suc bit_Suc)
  qed
  then have "f v = f ((if odd v then 1 else 0) XOR push_bit 1 (drop_bit 1 v))"
    by (rule arg_cong)
  also have "\<dots> = f (if odd v then 1 else 0) XOR f (push_bit 1 (drop_bit 1 v))"
    by (rule xor_linearD [OF assms])
  finally show ?thesis
    using xor_linear_zero [OF assms] by simp
qed

lemma gf2_matrix_times_linear:
  assumes "xor_linear f" and "\<And>n. bit vec n \<Longrightarrow> n < length mat \<and> mat ! n = f (push_bit n 1)"
  shows "gf2_matrix_times mat vec acc = acc XOR f vec"
  using assms
proof (induction mat vec acc arbitrary: f rule: gf2_matrix_times.induct)
  case (1 mat vec acc)
  show ?case
  proof (cases "vec = 0")
    case True
    then show ?thesis
      using xor_linear_zero [OF "1.prems"(1)] by (simp add: gf2_matrix_times.simps)
  next
    case False
    define g where "g x = f (push_bit 1 x)" for x
    have g: "xor_linear g"
      unfolding g_def using "1.prems"(1) by (simp add: xor_linear_def push_bit_xor del: push_bit_Suc)
    have s: "push_bit 1 (push_bit n 1) = push_bit (Suc n) (1 :: u32)" for n
      by (simp only: push_bit_push_bit plus_1_eq_Suc)
    have rows: "n < length (tl mat) \<and> tl mat ! n = g (push_bit n 1)" if "bit (drop_bit 1 vec) n" for n
      unfolding g_def s using "1.prems"(2) [of "Suc n"] that
      by (cases mat) (auto simp: bit_drop_bit_eq simp del: push_bit_Suc push_bit_of_1)
    have first: "hd mat = f 1" if "odd vec"
      using "1.prems"(2) [of 0] that by (cases mat) (auto simp: bit_0)
    have "gf2_matrix_times mat vec acc = (if vec AND 1 \<noteq> 0 then acc XOR hd mat else acc) XOR g (drop_bit 1 vec)"
      using "1.IH" [OF False g rows] False by (subst gf2_matrix_times.simps) simp
    then show ?thesis
      unfolding and_one_nonzero using first split_lowest [OF "1.prems"(1), of vec]
      by (auto simp: g_def ac_simps simp del: push_bit_Suc)
  qed
qed

lemma operator_times:
  assumes "xor_linear f" and "operator_of f mat"
  shows "gf2_matrix_times mat vec 0 = f vec"
proof -
  have "n < length mat \<and> mat ! n = f (push_bit n 1)" if "bit vec n" for n
    using assms(2) bit_imp_le_length [OF that] by (simp add: operator_of_def)
  then show ?thesis
    using gf2_matrix_times_linear [OF assms(1), of vec mat 0] by simp
qed

lemma operator_square:
  assumes "xor_linear f" and "operator_of f mat"
  shows "operator_of (\<lambda>x. f (f x)) (gf2_matrix_square mat)"
  using assms(2) operator_times [OF assms] by (auto simp: operator_of_def gf2_matrix_square_def)

lemma zero_bits_square:
  "operator_of (zero_bits k) mat \<Longrightarrow> operator_of (zero_bits (2 * k)) (gf2_matrix_square mat)"
  using operator_square [OF zero_bits_linear, of k mat]
  by (simp only: zero_bits_add [symmetric] mult_2)

lemma zeros_loop_operator:
  assumes "operator_of (zero_bits k) odd_op" and "2 ^ j \<le> len" and "len < 2 ^ Suc j"
  shows "operator_of (zero_bits (k * 2 ^ Suc j)) (zeros_loop odd_op len)"
  using assms
proof (induction len arbitrary: k j odd_op rule: less_induct)
  case (less len)
  note even_op = zero_bits_square [OF less.prems(1)]
  note odd_op = zero_bits_square [OF even_op]
  consider "j = 0" | "j = 1" | i where "j = Suc (Suc i)"
    by (cases j rule: nat.exhaust; metis One_nat_def not0_implies_Suc)
  then show ?case
  proof cases
    case 1
    then have "len div 2 = 0" using less.prems by simp
    then show ?thesis
      using even_op 1 by (subst zeros_loop.simps) (simp add: Let_def mult.commute)
  next
    case 2
    then have "len div 2 = 1" using less.prems by simp
    then show ?thesis
      using odd_op 2 by (subst zeros_loop.simps) (simp add: Let_def mult.commute mult.left_commute)
  next
    case 3
    then have b: "2 ^ i \<le> len div 2 div 2" "len div 2 div 2 < 2 ^ Suc i"
      using less.prems by (simp_all add: div_mult2_eq [symmetric])
    have p: "0 < len div 2 div 2"
      using b(1) by (metis less_le_trans zero_less_numeral zero_less_power)
    have "operator_of (zero_bits (2 * (2 * k) * 2 ^ Suc i))
        (zeros_loop (gf2_matrix_square (gf2_matrix_square odd_op)) (len div 2 div 2))"
      using p by (intro less.IH odd_op b) simp
    moreover have "2 * (2 * k) * 2 ^ Suc i = k * 2 ^ Suc j"
      using 3 by simp
    moreover have "zeros_loop odd_op len = zeros_loop (gf2_matrix_square (gf2_matrix_square odd_op)) (len div 2 div 2)"
      using p by (subst zeros_loop.simps) (auto simp: Let_def)
    ultimately show ?thesis by (simp only:)
  qed
qed

lemma one_bit_operator: "operator_of (zero_bits 1) (POLY # map (\<lambda>n. push_bit (n - 1) 1) [1..<32])"
proof -
  have "crc_bit (push_bit n 1) = push_bit (n - 1) 1" if "0 < n" "n < 32" for n
  proof -
    have "even (push_bit n (1 :: u32))" using that by simp
    moreover have "drop_bit 1 (push_bit n (1 :: u32)) = push_bit (n - 1) 1"
      using that by (auto intro!: bit_word_eqI simp: bit_simps bit_1_iff simp del: push_bit_Suc)
    ultimately show ?thesis by (simp add: crc_bit_even)
  qed
  then show ?thesis
    by (auto simp: operator_of_def nth_Cons crc_bit_def and_one_nonzero split: nat.split)
qed

lemma crc32c_zeros_op_operator:
  assumes "2 ^ j \<le> len" and "len < 2 ^ Suc j"
  shows "operator_of (zero_bits (8 * 2 ^ j)) (crc32c_zeros_op len)"
  using zeros_loop_operator [OF zero_bits_square [OF zero_bits_square [OF one_bit_operator]] assms]
  by (simp add: crc32c_zeros_op_def Let_def del: funpow.simps)

lemma crc32c_shift_zeros: "crc32c_shift (crc32c_zeros (2 ^ j)) crc = zero_bits (8 * 2 ^ j) crc"
proof -
  let ?f = "zero_bits (8 * 2 ^ j)"
  have op: "gf2_matrix_times (crc32c_zeros_op (2 ^ j)) v 0 = ?f v" for v
    by (rule operator_times [OF zero_bits_linear crc32c_zeros_op_operator]) simp_all
  have entry: "crc32c_zeros (2 ^ j) ! i ! unat (take_bit 8 x) = ?f (push_bit (8 * i) (take_bit 8 x))"
    if "i < 4" for i and x :: u32
    using that unat_take_bit_less [of x] by (simp add: crc32c_zeros_def op del: funpow.simps)
  have top: "drop_bit 24 crc = take_bit 8 (drop_bit 24 crc)"
    by (rule bit_word_eqI) (auto simp: bit_simps dest: bit_imp_le_length)
  have crc: "crc = take_bit 8 crc XOR push_bit 8 (take_bit 8 (drop_bit 8 crc)) XOR
      push_bit 16 (take_bit 8 (drop_bit 16 crc)) XOR push_bit 24 (take_bit 8 (drop_bit 24 crc))"
    by (rule bit_word_eqI) (auto simp: bit_simps)
  have "crc32c_shift (crc32c_zeros (2 ^ j)) crc =
      ?f (take_bit 8 crc) XOR ?f (push_bit 8 (take_bit 8 (drop_bit 8 crc))) XOR
      ?f (push_bit 16 (take_bit 8 (drop_bit 16 crc))) XOR ?f (push_bit 24 (take_bit 8 (drop_bit 24 crc)))"
    unfolding crc32c_shift_def and_ff
    using entry [of 0 crc] entry [of 1 "drop_bit 8 crc"] entry [of 2 "drop_bit 16 crc"] entry [of 3 "drop_bit 24 crc"]
    by (subst top) (simp del: funpow.simps)
  also have "\<dots> = ?f crc"
    by (subst (5) crc) (simp only: zero_bits_xor)
  finally show ?thesis .
qed

section \<open>The hardware version computes the checksum\<close>

lemma take_8_Suc: "take (8 * Suc n) bs = take 8 bs @ take (8 * n) (drop 8 bs)"
  using take_add [of 8 "8 * n" bs] by simp

text \<open>The laws of the instructions: \<open>crc32q\<close> takes the eight bytes of its operand in memory order.\<close>

locale crc_instructions =
  fixes crc32b :: "u64 \<Rightarrow> u8 \<Rightarrow> u64" and crc32q :: "u64 \<Rightarrow> u64 \<Rightarrow> u64"
  assumes crc32b: "crc32b (ucast c) b = ucast (crc_byte c b)"
    and crc32q: "length q = 8 \<Longrightarrow> crc32q (ucast c) (load_quad q) = ucast (foldl crc_byte c q)"

sublocale crc_instructions \<subseteq> crc_steps crc32b "\<lambda>c q. crc32q c (load_quad q)"
  by unfold_locales (simp_all add: crc32b crc32q)

context crc_instructions
begin

lemma three_way_correct:
  assumes "8 * n + 2 * block \<le> length next"
  shows "three_way crc32q block n next (ucast a, ucast b, ucast c) =
    (ucast (foldl crc_byte a (take (8 * n) next)), ucast (foldl crc_byte b (take (8 * n) (drop block next))),
     ucast (foldl crc_byte c (take (8 * n) (drop (2 * block) next))))"
  using assms
proof (induction n arbitrary: "next" a b c)
  case (Suc n)
  have l: "length (take 8 next) = 8" "length (take 8 (drop block next)) = 8" "length (take 8 (drop (2 * block) next)) = 8"
    using Suc.prems by auto
  have d: "drop block (drop 8 next) = drop 8 (drop block next)" "drop (2 * block) (drop 8 next) = drop 8 (drop (2 * block) next)"
    by (simp_all add: add.commute)
  have "8 * n + 2 * block \<le> length (drop 8 next)"
    using Suc.prems by simp
  from Suc.IH [OF this] show ?case
    by (simp only: three_way.simps crc32q [OF l(1)] crc32q [OF l(2)] crc32q [OF l(3)] d take_8_Suc foldl_append)
qed simp

lemma hw_block_correct:
  assumes "block = 2 ^ j" and "8 dvd block" and "3 * block \<le> length bs"
  shows "hw_block crc32q block (crc32c_zeros block) (ucast c) bs = ucast (foldl crc_byte c (take (3 * block) bs))"
proof -
  let ?A = "take block bs" and ?B = "take block (drop block bs)" and ?C = "take block (drop (2 * block) bs)"
  have "8 * (block div 8) = block" using assms(2) by simp
  then have w: "three_way crc32q block (block div 8) bs (ucast c, 0, 0) =
      (ucast (foldl crc_byte c ?A), ucast (foldl crc_byte 0 ?B), ucast (foldl crc_byte 0 ?C))"
    using three_way_correct [of "block div 8" block bs c 0 0] assms(3) by simp
  have "take (block + (block + block)) bs = ?A @ ?B @ take block (drop (block + block) bs)"
    by (simp only: take_add drop_drop)
  then have s: "take (3 * block) bs = ?A @ ?B @ ?C"
    by (simp add: mult_2 numeral_3_eq_3)
  have shift: "crc32c_shift (crc32c_zeros block) x XOR foldl crc_byte 0 y = foldl crc_byte x y" if "length y = block" for x y
    using foldl_crc_byte [of x y] that by (simp add: assms(1) crc32c_shift_zeros)
  have lens: "length ?B = block" "length ?C = block" using assms(3) by auto
  have x: "ucast u XOR ucast v = (ucast (u XOR v) :: u64)" for u v :: u32
    by (rule bit_word_eqI) (auto simp: bit_simps)
  show ?thesis
    by (simp only: hw_block_def w Let_def split ucast_ucast_u32 x shift [OF lens(1)] shift [OF lens(2)] s foldl_append)
qed

lemma block_loop_correct:
  assumes "block = 2 ^ j" and "8 dvd block"
  shows "\<exists>c' bs'. block_loop crc32q block (crc32c_zeros block) (ucast c) bs = (ucast c', bs') \<and>
    foldl crc_byte c' bs' = foldl crc_byte c bs"
proof (induction "length bs" arbitrary: c bs rule: less_induct)
  case less
  show ?case
  proof (cases "3 * block \<le> length bs")
    case True
    have p: "0 < block" using assms(1) by simp
    have "foldl crc_byte c bs = foldl crc_byte (foldl crc_byte c (take (3 * block) bs)) (drop (3 * block) bs)"
      by (metis append_take_drop_id foldl_append)
    then show ?thesis
      using less [of "drop (3 * block) bs" "foldl crc_byte c (take (3 * block) bs)"] True p
        hw_block_correct [OF assms True, of c]
      by (subst block_loop.simps) simp
  next
    case False
    then show ?thesis by (subst block_loop.simps) auto
  qed
qed

lemma crc32c_hw_bitwise: "crc32c_hw crc32b crc32q crc addr buf = crc_bitwise crc buf"
proof -
  have L: "LONG = 2 ^ 13" "8 dvd LONG" and S: "SHORT = 2 ^ 8" "8 dvd SHORT"
    by (simp_all add: LONG_def SHORT_def)
  obtain c0 a0 b0 where 0: "align_loop crc32b (ucast (crc XOR 0xffffffff)) addr buf = (ucast c0, a0, b0)"
    "foldl crc_byte c0 b0 = foldl crc_byte (crc XOR 0xffffffff) buf"
    using align_correct by blast
  obtain c1 b1 where 1: "block_loop crc32q LONG (crc32c_zeros LONG) (ucast c0) b0 = (ucast c1, b1)"
    "foldl crc_byte c1 b1 = foldl crc_byte c0 b0"
    using block_loop_correct [OF L] by blast
  obtain c2 b2 where 2: "block_loop crc32q SHORT (crc32c_zeros SHORT) (ucast c1) b1 = (ucast c2, b2)"
    "foldl crc_byte c2 b2 = foldl crc_byte c1 b1"
    using block_loop_correct [OF S] by blast
  obtain c3 b3 where 3: "quad_loop (\<lambda>c q. crc32q c (load_quad q)) (ucast c2) b2 = (ucast c3, b3)"
    "foldl crc_byte c3 b3 = foldl crc_byte c2 b2"
    using quads_correct by blast
  show ?thesis
    by (simp only: crc32c_hw_def Let_def 0(1) 1(1) 2(1) 3(1) split bytes_correct ucast_ucast_u32
        3(2) 2(2) 1(2) 0(2) crc_bitwise_def)
qed

end

text \<open>The instructions as the processor manual defines them, on the low half of the register.\<close>

definition byte_at :: "u64 \<Rightarrow> nat \<Rightarrow> u8" where
  "byte_at q i = ucast (drop_bit (8 * i) q)"

definition intel_crc32b :: "u64 \<Rightarrow> u8 \<Rightarrow> u64" where
  "intel_crc32b c b = ucast (crc_byte (ucast c) b)"

definition intel_crc32q :: "u64 \<Rightarrow> u64 \<Rightarrow> u64" where
  "intel_crc32q c q = ucast (foldl crc_byte (ucast c) (map (byte_at q) [0..<8]))"

lemma byte_at_load_quad:
  assumes "length q = 8"
  shows "map (byte_at (load_quad q)) [0..<8] = q"
proof (rule nth_equalityI)
  fix i assume i: "i < length (map (byte_at (load_quad q)) [0..<8])"
  have "byte_at (load_quad q) i = ucast (take_bit 8 (drop_bit (8 * i) (load_quad q)))"
    unfolding byte_at_def by (rule bit_word_eqI) (auto simp: bit_simps)
  also have "\<dots> = q ! i"
    using i assms load_quad_byte [of i q] by (simp add: unsigned_ucast_eq) (auto intro!: bit_word_eqI simp: bit_simps)
  finally show "map (byte_at (load_quad q)) [0..<8] ! i = q ! i"
    using i by simp
qed (simp add: assms)

interpretation intel: crc_instructions intel_crc32b intel_crc32q
  by unfold_locales (simp_all add: intel_crc32b_def intel_crc32q_def ucast_ucast_u32 byte_at_load_quad del: upt_rec_numeral)

section \<open>Properties\<close>

lemma crc32c_bitwise:
  assumes "\<And>c b. crc32b (ucast c) b = ucast (crc_byte c b)"
    and "\<And>c q. length q = 8 \<Longrightarrow> crc32q (ucast c) (load_quad q) = ucast (foldl crc_byte c q)"
  shows "crc32c sse42 crc32b crc32q crc addr buf = crc_bitwise crc buf"
proof -
  have "crc_instructions crc32b crc32q"
    using assms by unfold_locales
  then show ?thesis
    by (simp add: crc32c_def crc32c_sw_bitwise crc_instructions.crc32c_hw_bitwise)
qed

text \<open>
  C3. The checksum routine computes the bitwise CRC-32C, for every initial value, buffer and alignment, whether the
  processor has the instruction or not: the table-driven version that takes eight bytes at a time and the version that runs
  three streams over blocks of 8192 and 256 bytes and joins them with zero operators agree with it. Of the instructions it
  needs that \<^verbatim>\<open>crc32b\<close> takes one byte and \<^verbatim>\<open>crc32q\<close> the eight bytes of a quadword in memory order.
\<close>

theorem crc32c_correct:
  assumes "\<And>c b. crc32b (ucast c) b = ucast (crc_byte c b)"
    and "\<And>c q. length q = 8 \<Longrightarrow> crc32q (ucast c) (load_quad q) = ucast (foldl crc_byte c q)"
  shows "crc32c sse42 crc32b crc32q crc addr buf = crc_bitwise crc buf"
  using assms by (rule crc32c_bitwise)

theorem crc32c_correct_witness:
  "crc32c True intel_crc32b intel_crc32q 0 3 [0x31, 0x32, 0x33] = crc_bitwise 0 [0x31, 0x32, 0x33]"
  by (rule crc32c_correct [OF intel.crc32b intel.crc32q])

lemma crc_bit_zero_iff: "crc_bit x = 0 \<longleftrightarrow> x = 0"
proof
  assume z: "crc_bit x = 0"
  have "even x"
  proof (rule ccontr)
    assume "odd x"
    then have "drop_bit 1 x XOR POLY = 0"
      using z unfolding crc_bit_def and_one_nonzero by simp
    then have "bit (drop_bit 1 x XOR POLY) 31 = bit (0 :: u32) 31"
      by simp
    moreover have "bit POLY 31"
      by (simp add: POLY_def bit_iff_odd)
    ultimately show False
      by (auto simp: bit_simps dest: bit_imp_le_length)
  qed
  then show "x = 0"
    using z crc_bit_even [of x] split_lowest [of id x] by (simp add: xor_linear_def)
qed (simp add: xor_linear_zero [OF crc_bit_linear])

lemma zero_bits_zero_iff: "zero_bits n x = 0 \<longleftrightarrow> x = 0"
  by (induction n) (simp_all add: crc_bit_zero_iff)

lemma xor_cancel: "x XOR m = y XOR m \<longleftrightarrow> x = y" for x y m :: u32
  by (metis xor.assoc xor.right_neutral xor_self_eq)

lemma xor_zero_iff: "x XOR y = 0 \<longleftrightarrow> x = y" for x y :: u32
  using xor_cancel [of x y y] by simp

lemma ucast_u8_inject: "ucast b = (ucast b' :: u32) \<longleftrightarrow> b = b'" for b b' :: u8
proof
  assume "ucast b = (ucast b' :: u32)"
  then have e: "bit (ucast b :: u32) n = bit (ucast b' :: u32) n" for n by (rule arg_cong)
  show "b = b'"
  proof (rule bit_word_eqI)
    fix n assume "n < LENGTH(8)"
    then show "bit b n = bit b' n" using e [of n] by (simp add: bit_simps)
  qed
qed simp



end
