(* ===== verification/Varint.thy ===== *)
theory Varint
  imports Defuse_Prelude
begin

text \<open>
  Variable-length integers (\<^verbatim>\<open>usfs_wrap/hdfs/varint.c\<close>), which frame every message of the Hadoop protocols: seven bits of
  the value per byte, least significant first, the top bit set on all bytes but the last. Stores and loads are checked
  against the buffers, and shifts against the width of \<^verbatim>\<open>uint64_t\<close>.
\<close>

section \<open>Encoding and decoding\<close>

function encode_loop :: "bytes \<Rightarrow> nat \<Rightarrow> u64 \<Rightarrow> (bytes \<times> nat) cres" where
  "encode_loop buffer encoded value =
     (let next_byte = ucast (value AND 0x7F); value1 = drop_bit 7 value;
          next_byte1 = (if value1 \<noteq> 0 then next_byte OR 0x80 else next_byte)
      in cbind (arr_set buffer (int encoded) next_byte1) (\<lambda>buffer1.
         if value1 \<noteq> 0 then encode_loop buffer1 (encoded + 1) value1 else Ret (buffer1, encoded + 1)))"
  by pat_completeness auto
termination
proof (relation "measure (\<lambda>(_, _, value). unat value)")
  fix buffer buffer1 :: bytes and encoded :: nat and val value1 :: u64 and b b1 :: u8
  assume v: "value1 = drop_bit 7 val" "value1 \<noteq> 0"
  have "unat value1 = unat val div 128"
    unfolding v(1) unat_drop_bit_eq by (simp add: drop_bit_eq_div)
  moreover have "unat value1 \<noteq> 0"
    using v(2) by (simp add: unat_eq_zero)
  ultimately have "unat value1 < unat val" by simp
  then show "((buffer1, encoded + 1, value1), buffer, encoded, val) \<in> measure (\<lambda>(_, _, value). unat value)"
    by simp
qed simp

declare encode_loop.simps [simp del]

definition encode_unsigned_varint :: "bytes \<Rightarrow> u64 \<Rightarrow> (bytes \<times> nat) cres" where
  "encode_unsigned_varint buffer value = encode_loop buffer 0 value"

function decode_loop :: "bytes \<Rightarrow> nat \<Rightarrow> u64 \<Rightarrow> nat \<Rightarrow> (u64 \<times> nat) cres" where
  "decode_loop data i decoded_value shift_amount =
     cbind (arr_get data (int i)) (\<lambda>b.
     if 64 \<le> shift_amount then Undef Bad_Shift
     else
       let decoded_value1 = decoded_value OR push_bit shift_amount (ucast (b AND 0x7F)) in
       if b AND 0x80 \<noteq> 0 then decode_loop data (i + 1) decoded_value1 (shift_amount + 7)
       else Ret (decoded_value1, i + 1))"
  by pat_completeness auto
termination by (relation "measure (\<lambda>(_, _, _, s). 64 - s)") auto

declare decode_loop.simps [simp del]

definition decode_unsigned_varint :: "bytes \<Rightarrow> (u64 \<times> nat) cres" where
  "decode_unsigned_varint data = decode_loop data 0 0 0"

section \<open>What is written\<close>

function varint :: "nat \<Rightarrow> bytes" where
  "varint n = (if n < 128 then [of_nat n] else (of_nat (n mod 128) OR 0x80) # varint (n div 128))"
  by pat_completeness auto
termination by (relation "measure id") auto

declare varint.simps [simp del]

lemma varint_length: "n < 2 ^ (7 * Suc k) \<Longrightarrow> length (varint n) \<le> Suc k"
proof (induction k arbitrary: n)
  case 0
  then show ?case by (simp add: varint.simps)
next
  case (Suc k)
  have "n div 128 < 2 ^ (7 * Suc k)"
    using Suc.prems by (intro less_mult_imp_div_less) (simp add: power_add)
  then show ?case
    using Suc.IH [of "n div 128"] by (subst varint.simps) simp
qed

lemma varint_pos: "0 < length (varint n)"
  by (subst varint.simps) simp

lemma mask_7: "0x7F = (mask 7 :: u8)"
  by (simp add: mask_eq_exp_minus_1)

lemma low_bits: "ucast (v AND 0x7F) = (of_nat (unat v mod 128) :: u8)" for v :: u64
proof -
  have "(v AND 0x7F) = take_bit 7 v"
    by (simp add: take_bit_eq_mask mask_eq_exp_minus_1)
  moreover have "unat (take_bit 7 v) = unat v mod 128"
    unfolding unsigned_take_bit_eq by (simp add: take_bit_eq_mod)
  ultimately show ?thesis
    by (metis of_nat_unat)
qed

lemma high_bits: "unat (drop_bit 7 v) = unat v div 128" for v :: u64
  unfolding unat_drop_bit_eq by (simp add: drop_bit_eq_div)

lemma encode_loop_varint:
  "encoded + length (varint (unat v)) \<le> length buffer \<Longrightarrow>
    encode_loop buffer encoded v =
      Ret (take encoded buffer @ varint (unat v) @ drop (encoded + length (varint (unat v))) buffer,
           encoded + length (varint (unat v)))"
proof (induction "unat v" arbitrary: buffer encoded v rule: less_induct)
  case less
  have z: "drop_bit 7 v = 0 \<longleftrightarrow> unat v < 128"
    using high_bits [of v] by (metis div_less less_numeral_extra(3) div_greater_zero_iff not_less unat_eq_zero zero_less_numeral)
  have l: "encoded < length buffer"
    using less.prems varint_pos [of "unat v"] by linarith
  show ?case
  proof (cases "unat v < 128")
    case True
    then show ?thesis
      using l z by (subst encode_loop.simps)
        (simp add: Let_def low_bits varint.simps [of "unat v"] upd_conv_take_nth_drop)
  next
    case False
    let ?b = "of_nat (unat v mod 128) OR 0x80 :: u8" and ?rest = "varint (unat v div 128)"
    have v: "varint (unat v) = ?b # ?rest"
      using False by (subst varint.simps) simp
    have "encode_loop buffer encoded v = encode_loop (buffer[encoded := ?b]) (encoded + 1) (drop_bit 7 v)"
      using l z False by (subst encode_loop.simps) (simp add: Let_def low_bits)
    also have "\<dots> = Ret (take (encoded + 1) (buffer[encoded := ?b]) @ ?rest @
        drop (encoded + 1 + length ?rest) (buffer[encoded := ?b]), encoded + 1 + length ?rest)"
      using less.hyps [of "drop_bit 7 v" "encoded + 1" "buffer[encoded := ?b]"] less.prems False
      by (simp add: high_bits v)
    finally show ?thesis
      using l by (simp add: v take_Suc_conv_app_nth)
  qed
qed

lemma of_nat_split: "(of_nat n :: u64) = of_nat (n mod 128) OR push_bit 7 (of_nat (n div 128))"
proof -
  have "n mod 128 = take_bit 7 n" "n div 128 = drop_bit 7 n"
    by (simp_all add: take_bit_eq_mod drop_bit_eq_div)
  then show ?thesis
    by (auto intro!: bit_word_eqI simp: bit_simps)
qed

lemma byte_more: "m < 128 \<Longrightarrow> (of_nat m OR 0x80 :: u8) AND 0x80 \<noteq> 0"
  and byte_last: "m < 128 \<Longrightarrow> (of_nat m :: u8) AND 0x80 = 0"
  and byte_value: "m < 128 \<Longrightarrow> ucast ((of_nat m OR 0x80 :: u8) AND 0x7F) = (of_nat m :: u64)"
  and byte_value_last: "m < 128 \<Longrightarrow> ucast ((of_nat m :: u8) AND 0x7F) = (of_nat m :: u64)"
proof -
  have top: "(b AND 0x80 \<noteq> 0) = bit b 7" for b :: u8
    by (simp add: bit_iff_and_push_bit_not_eq_0)
  have e: "(0x80 :: u8) = push_bit 7 1" by simp
  assume m: "m < 128"
  then have t: "m = take_bit 7 m" by (simp add: take_bit_eq_mod)
  have h: "bit m i \<Longrightarrow> i < 7" for i
    by (subst (asm) t) (simp add: bit_simps)
  show "(of_nat m OR 0x80 :: u8) AND 0x80 \<noteq> 0"
    unfolding top unfolding e by (simp only: bit_simps) simp
  show "(of_nat m :: u8) AND 0x80 = 0"
    using h [of 7] top [of "of_nat m"] by (auto simp: bit_simps)
  show "ucast ((of_nat m OR 0x80 :: u8) AND 0x7F) = (of_nat m :: u64)"
    unfolding mask_7 unfolding e
    by (rule bit_word_eqI) (auto simp: bit_simps bit_1_iff simp del: push_bit_of_1 dest: h)
  show "ucast ((of_nat m :: u8) AND 0x7F) = (of_nat m :: u64)"
    unfolding mask_7
    by (rule bit_word_eqI) (auto simp: bit_simps dest: h)
qed

lemma decode_loop_varint:
  "s + 7 * length (varint n) < 71 \<Longrightarrow>
    decode_loop (pre @ varint n @ post) (length pre) acc s =
      Ret (acc OR push_bit s (of_nat n), length pre + length (varint n))"
proof (induction n arbitrary: pre acc s rule: less_induct)
  case (less n)
  show ?case
  proof (cases "n < 128")
    case True
    then have "varint n = [of_nat n]" by (subst varint.simps) simp
    then show ?thesis
      using less.prems True byte_last [of n] byte_value_last [of n]
      by (subst decode_loop.simps) (simp add: Let_def)
  next
    case False
    let ?b = "of_nat (n mod 128) OR 0x80 :: u8"
    have v: "varint n = ?b # varint (n div 128)"
      using False by (subst varint.simps) simp
    have s: "s < 64" "s + 7 + 7 * length (varint (n div 128)) < 71"
      using less.prems varint_pos [of "n div 128"] v by auto
    have m: "?b AND 0x80 \<noteq> 0" "ucast (?b AND 0x7F) = (of_nat (n mod 128) :: u64)"
      by (rule byte_more byte_value; simp)+
    have g: "arr_get (pre @ varint n @ post) (int (length pre)) = Ret ?b"
      by (simp add: v)
    have "decode_loop (pre @ varint n @ post) (length pre) acc s =
        decode_loop ((pre @ [?b]) @ varint (n div 128) @ post) (length (pre @ [?b]))
          (acc OR push_bit s (of_nat (n mod 128))) (s + 7)"
      using s(1) by (subst decode_loop.simps) (simp only: g cbind.simps m Let_def, simp add: v)
    also have "\<dots> = Ret ((acc OR push_bit s (of_nat (n mod 128))) OR push_bit (s + 7) (of_nat (n div 128)),
        length (pre @ [?b]) + length (varint (n div 128)))"
      using False s(2) by (intro less.IH) simp_all
    also have "(acc OR push_bit s (of_nat (n mod 128))) OR push_bit (s + 7) (of_nat (n div 128)) =
        acc OR push_bit s (of_nat n)"
      by (subst of_nat_split [of n]) (simp add: push_bit_or push_bit_push_bit or.assoc)
    finally show ?thesis by (simp add: v)
  qed
qed

lemma varint_length_u64: "length (varint (unat v)) \<le> 10" for v :: u64
  using unsigned_less [of v, where 'a = nat] by (intro varint_length [of _ 9, simplified]) simp

section \<open>Properties\<close>

text \<open>
  C23. Every 64-bit value survives the wire: encoding into a buffer of at least ten bytes (as \<^verbatim>\<open>PACK\<close> declares it) stays
  inside the buffer, uses between one and ten bytes, leaves the rest as it was, and decoding those bytes, whatever follows
  them, returns the value and the number of bytes used.
\<close>

theorem varint_roundtrip:
  assumes "10 \<le> length buffer"
  shows "\<exists>enc. encode_unsigned_varint buffer v = Ret (enc @ drop (length enc) buffer, length enc) \<and>
    1 \<le> length enc \<and> length enc \<le> 10 \<and> decode_unsigned_varint (enc @ rest) = Ret (v, length enc)"
proof (intro exI conjI)
  let ?e = "varint (unat v)"
  show "encode_unsigned_varint buffer v = Ret (?e @ drop (length ?e) buffer, length ?e)"
    using encode_loop_varint [of 0 v buffer] varint_length_u64 [of v] assms by (simp add: encode_unsigned_varint_def)
  show "1 \<le> length ?e" using varint_pos [of "unat v"] by linarith
  show "length ?e \<le> 10" by (rule varint_length_u64)
  show "decode_unsigned_varint (?e @ rest) = Ret (v, length ?e)"
    using decode_loop_varint [of 0 "unat v" "[]" rest 0] varint_length_u64 [of v]
    by (simp add: decode_unsigned_varint_def)
qed

theorem varint_roundtrip_witness:
  "\<exists>enc. encode_unsigned_varint (replicate 10 0) 300 = Ret (enc @ drop (length enc) (replicate 10 0), length enc) \<and>
    decode_unsigned_varint (enc @ [7]) = Ret (300, length enc)"
  using varint_roundtrip [of "replicate 10 0" 300 "[7]"] by auto

lemma decode_loop_long:
  assumes "list_all (\<lambda>b. b AND 0x80 \<noteq> 0) (take 10 data)" and "11 \<le> length data" and "i \<le> 10"
  shows "decode_loop data i acc (7 * i) = Undef Bad_Shift"
  using assms(3)
proof (induction "10 - i" arbitrary: i acc)
  case 0
  then show ?case
    using assms(2) by (subst decode_loop.simps) simp
next
  case (Suc n)
  then have "i < 10" by simp
  moreover from this have "data ! i AND 0x80 \<noteq> 0"
    using assms(1,2) by (auto simp: list_all_length)
  moreover have "7 * i + 7 = 7 * (i + 1)" by simp
  ultimately show ?case
    using Suc.hyps assms(2) by (subst decode_loop.simps) (simp add: Let_def del: mult_Suc_right)
qed

text \<open>
  The decoder trusts its input: ten bytes with the top bit set, followed by any byte, make it shift a 64-bit value by 70.
\<close>

theorem varint_overlong_bad_shift:
  assumes "length pre = 10" and "\<forall>b \<in> set pre. b AND 0x80 \<noteq> 0"
  shows "decode_unsigned_varint (pre @ b # rest) = Undef Bad_Shift"
  using decode_loop_long [of "pre @ b # rest" 0 0] assms by (simp add: decode_unsigned_varint_def list_all_iff)

theorem varint_overlong_bad_shift_witness:
  "decode_unsigned_varint (replicate 10 0xff @ [1]) = Undef Bad_Shift"
  using varint_overlong_bad_shift [of "replicate 10 0xff" 1 "[]"] by simp

end
