(* ===== verification/Sshfs_Buffer.thy ===== *)
theory Sshfs_Buffer
  imports C_Strings Byte_Codec
begin

text \<open>
  The message buffers of the ssh file system (\<^verbatim>\<open>usfs_wrap/sshfs/sshfs_wrap.c\<close>, \<^verbatim>\<open>translate_id\<close> and the \<^verbatim>\<open>buf_\<close> functions): growing a
  buffer and appending the fields of an SFTP message in network byte order, and reading the fields of a reply back with
  their bounds checks. A buffer has its allocated memory, which every access is checked against, and the two counters of
  the struct; sizes are natural numbers, since no object is larger than half of the address space. Fresh memory is
  zero in the model; the theorems speak only of bytes that were written.
\<close>

section \<open>Buffers\<close>

record buffer =
  bp :: bytes
  blen :: nat
  bsize :: nat

definition buf_init :: "nat \<Rightarrow> buffer" where
  "buf_init sz = \<lparr>bp = replicate sz 0, blen = 0, bsize = sz\<rparr>"

definition buf_finish :: "buffer \<Rightarrow> buffer" where
  "buf_finish buf = buf\<lparr>blen := bsize buf\<rparr>"

definition buf_clear :: "buffer \<Rightarrow> buffer" where
  "buf_clear buf = buf_init 0"

text \<open>\<^verbatim>\<open>(buf->len + len + 63) & ~31\<close>, and \<^verbatim>\<open>realloc\<close>.\<close>

definition buf_resize :: "buffer \<Rightarrow> nat \<Rightarrow> buffer" where
  "buf_resize buf len =
     (let sz = (blen buf + len + 63) div 32 * 32 in
      buf\<lparr>bsize := sz, bp := take sz (bp buf @ replicate sz 0)\<rparr>)"

definition buf_check_add :: "buffer \<Rightarrow> nat \<Rightarrow> buffer" where
  "buf_check_add buf len = (if blen buf + len > bsize buf then buf_resize buf len else buf)"

definition buf_add_mem :: "buffer \<Rightarrow> bytes \<Rightarrow> buffer cres" where
  "buf_add_mem buf data =
     (let buf1 = buf_check_add buf (length data) in
      cmap (\<lambda>(p, len). buf1\<lparr>bp := p, blen := len\<rparr>) (copy_with_offset (bp buf1) data (blen buf1)))"

definition buf_add_buf :: "buffer \<Rightarrow> buffer \<Rightarrow> buffer cres" where
  "buf_add_buf buf bufa =
     (if blen bufa \<le> length (bp bufa) then buf_add_mem buf (take (blen bufa) (bp bufa)) else Undef Out_Of_Bounds)"

definition buf_add_uint8 :: "buffer \<Rightarrow> u8 \<Rightarrow> buffer cres" where
  "buf_add_uint8 buf val = buf_add_mem buf [val]"

text \<open>The four bytes of \<^verbatim>\<open>htonl\<close>, and \<^verbatim>\<open>ntohl\<close>.\<close>

definition htonl :: "u32 \<Rightarrow> bytes" where
  "htonl val = [ucast (drop_bit 24 val), ucast (drop_bit 16 val), ucast (drop_bit 8 val), ucast val]"

definition ntohl :: "bytes \<Rightarrow> u32" where
  "ntohl b = push_bit 24 (ucast (b ! 0)) OR push_bit 16 (ucast (b ! 1)) OR push_bit 8 (ucast (b ! 2)) OR ucast (b ! 3)"

definition buf_add_uint32 :: "buffer \<Rightarrow> u32 \<Rightarrow> buffer cres" where
  "buf_add_uint32 buf val = buf_add_mem buf (htonl val)"

definition buf_add_uint64 :: "buffer \<Rightarrow> u64 \<Rightarrow> buffer cres" where
  "buf_add_uint64 buf val =
     cbind (buf_add_uint32 buf (ucast (drop_bit 32 val))) (\<lambda>buf1. buf_add_uint32 buf1 (ucast (val AND 0xffffffff)))"

definition buf_add_data :: "buffer \<Rightarrow> bytes \<Rightarrow> buffer cres" where
  "buf_add_data buf data =
     cbind (buf_add_uint32 buf (of_nat (length data))) (\<lambda>buf1. buf_add_mem buf1 data)"

definition buf_add_string :: "buffer \<Rightarrow> string \<Rightarrow> buffer cres" where
  "buf_add_string buf str = buf_add_data buf (map byte_of_char str)"

text \<open>The path sent for a path below the mount: relative to the base path, or to the login directory.\<close>

definition remote_path :: "string \<Rightarrow> string \<Rightarrow> string" where
  "remote_path base_path path =
     (if base_path \<noteq> [] then
        if tl path \<noteq> [] then
          if last base_path \<noteq> CHR ''/'' then base_path @ ''/'' @ tl path else base_path @ tl path
        else base_path
      else if tl path \<noteq> [] then tl path else ''.'')"

definition buf_add_path :: "string \<Rightarrow> buffer \<Rightarrow> string \<Rightarrow> buffer cres" where
  "buf_add_path base_path buf path =
     (if path = [] then Undef Out_Of_Bounds else buf_add_string buf (remote_path base_path path))"

section \<open>Reading\<close>

text \<open>\<open>None\<close> is the result \<open>-1\<close>.\<close>

definition buf_check_get :: "buffer \<Rightarrow> nat \<Rightarrow> bool" where
  "buf_check_get buf len = (\<not> blen buf + len > bsize buf)"

definition buf_get_mem :: "buffer \<Rightarrow> nat \<Rightarrow> (bytes option \<times> buffer) cres" where
  "buf_get_mem buf len =
     (if \<not> buf_check_get buf len then Ret (None, buf)
      else if blen buf + len \<le> length (bp buf)
      then Ret (Some (take len (drop (blen buf) (bp buf))), buf\<lparr>blen := blen buf + len\<rparr>)
      else Undef Out_Of_Bounds)"

text \<open>Sequencing of reads that stop at the first failure.\<close>

definition get_then :: "('a option \<times> buffer) cres \<Rightarrow> ('a \<Rightarrow> buffer \<Rightarrow> ('b option \<times> buffer) cres) \<Rightarrow> ('b option \<times> buffer) cres" where
  "get_then m f = cbind m (\<lambda>(v, buf). case v of None \<Rightarrow> Ret (None, buf) | Some x \<Rightarrow> f x buf)"

definition buf_get_uint8 :: "buffer \<Rightarrow> (u8 option \<times> buffer) cres" where
  "buf_get_uint8 buf = get_then (buf_get_mem buf 1) (\<lambda>b buf1. Ret (Some (hd b), buf1))"

definition buf_get_uint32 :: "buffer \<Rightarrow> (u32 option \<times> buffer) cres" where
  "buf_get_uint32 buf = get_then (buf_get_mem buf 4) (\<lambda>b buf1. Ret (Some (ntohl b), buf1))"

definition buf_get_uint64 :: "buffer \<Rightarrow> (u64 option \<times> buffer) cres" where
  "buf_get_uint64 buf =
     get_then (buf_get_uint32 buf) (\<lambda>val1 buf1.
     get_then (buf_get_uint32 buf1) (\<lambda>val2 buf2.
     Ret (Some (push_bit 32 (ucast val1) + ucast val2), buf2)))"

text \<open>The new buffer has one byte more than its size, if the 32-bit \<open>len + 1\<close> does not wrap.\<close>

definition buf_get_data :: "buffer \<Rightarrow> (buffer option \<times> buffer) cres" where
  "buf_get_data buf =
     get_then (buf_get_uint32 buf) (\<lambda>len buf1.
     if unat len > bsize buf1 - blen buf1 then Ret (None, buf1)
     else
       let data = (buf_init (unat (len + 1)))\<lparr>bsize := unat len\<rparr> in
       get_then (buf_get_mem buf1 (bsize data)) (\<lambda>b buf2.
       cmap (\<lambda>(p, _). (Some (data\<lparr>bp := p\<rparr>), buf2)) (copy_with_offset (bp data) b 0)))"

definition buf_get_string :: "buffer \<Rightarrow> (string option \<times> buffer) cres" where
  "buf_get_string buf =
     get_then (buf_get_data buf) (\<lambda>data buf1.
     cmap (\<lambda>p. (Some (cstr (map char_of_byte p)), buf1)) (arr_set (bp data) (int (bsize data)) 0))"

section \<open>Attributes and directory entries\<close>

datatype idmap = IDMAP_NONE | IDMAP_USER | IDMAP_FILE
datatype nomap = NOMAP_IGNORE | NOMAP_ERROR

text \<open>The fields of the global \<^verbatim>\<open>struct sshfs\<close> that reading attributes uses; \<open>None\<close> is a null table.\<close>

record sshfs_conf =
  remote_uid_detected :: bool
  remote_uid :: u32
  local_uid :: u32
  remote_gid :: u32
  local_gid :: u32
  sf_idmap :: idmap
  uid_map :: "(u32 \<rightharpoonup> u32) option"
  gid_map :: "(u32 \<rightharpoonup> u32) option"
  sf_nomap :: nomap
  sf_blksize :: u32
  follow_symlinks :: bool

definition translate_id :: "nomap \<Rightarrow> u32 \<Rightarrow> (u32 \<rightharpoonup> u32) \<Rightarrow> u32 option" where
  "translate_id nm ident tab =
     (case tab ident of
       Some new_id \<Rightarrow> Some new_id
     | None \<Rightarrow> (case nm of NOMAP_ERROR \<Rightarrow> None | NOMAP_IGNORE \<Rightarrow> Some ident))"

record sftp_stat =
  ss_mode :: u32
  ss_nlink :: nat
  ss_size :: u64
  ss_blksize :: u32
  ss_blocks :: u64
  ss_uid :: u32
  ss_gid :: u32
  ss_atime :: u32
  ss_mtime :: u32

definition ATTR_SIZE :: u32 where "ATTR_SIZE = 0x1"
definition ATTR_UIDGID :: u32 where "ATTR_UIDGID = 0x2"
definition ATTR_PERMISSIONS :: u32 where "ATTR_PERMISSIONS = 0x4"
definition ATTR_ACMODTIME :: u32 where "ATTR_ACMODTIME = 0x8"
definition ATTR_EXTENDED :: u32 where "ATTR_EXTENDED = 0x80000000"

text \<open>A part of the attributes that is read only if its flag is set.\<close>

definition get_if :: "bool \<Rightarrow> 'a \<Rightarrow> (buffer \<Rightarrow> ('a option \<times> buffer) cres) \<Rightarrow> buffer \<Rightarrow> ('a option \<times> buffer) cres" where
  "get_if flag dflt get buf = (if flag then get buf else Ret (Some dflt, buf))"

definition get_two :: "(buffer \<Rightarrow> ('a option \<times> buffer) cres) \<Rightarrow> (buffer \<Rightarrow> ('b option \<times> buffer) cres) \<Rightarrow>
    buffer \<Rightarrow> (('a \<times> 'b) option \<times> buffer) cres" where
  "get_two get1 get2 buf = get_then (get1 buf) (\<lambda>x buf1. get_then (get2 buf1) (\<lambda>y buf2. Ret (Some (x, y), buf2)))"

fun skip_extended :: "nat \<Rightarrow> buffer \<Rightarrow> (unit option \<times> buffer) cres" where
  "skip_extended 0 buf = Ret (Some (), buf)"
| "skip_extended (Suc extcount) buf =
     get_then (get_two buf_get_data buf_get_data buf) (\<lambda>_ buf1. skip_extended extcount buf1)"

definition get_extended :: "buffer \<Rightarrow> (unit option \<times> buffer) cres" where
  "get_extended buf = get_then (buf_get_uint32 buf) (\<lambda>extcount. skip_extended (unat extcount))"

definition map_ids :: "sshfs_conf \<Rightarrow> u32 \<times> u32 \<Rightarrow> (u32 \<times> u32) option" where
  "map_ids conf ids =
     (case ids of (uid0, gid0) \<Rightarrow>
      let uid1 = (if remote_uid_detected conf \<and> uid0 = remote_uid conf then local_uid conf else uid0);
          gid1 = (if remote_uid_detected conf \<and> gid0 = remote_gid conf then local_gid conf else gid0);
          through = (\<lambda>tab ident. case tab of
              Some t \<Rightarrow> if sf_idmap conf = IDMAP_FILE then translate_id (sf_nomap conf) ident t else Some ident
            | None \<Rightarrow> Some ident)
      in case through (uid_map conf) uid1 of
           None \<Rightarrow> None
         | Some u \<Rightarrow> map_option (\<lambda>g. (u, g)) (through (gid_map conf) gid1))"

definition make_stat :: "sshfs_conf \<Rightarrow> u32 \<Rightarrow> u64 \<Rightarrow> u32 \<times> u32 \<Rightarrow> u32 \<times> u32 \<Rightarrow> sftp_stat" where
  "make_stat conf mode sz ids tms =
     \<lparr>ss_mode = mode, ss_nlink = 1, ss_size = sz, ss_blksize = sf_blksize conf,
      ss_blocks = (if sf_blksize conf \<noteq> 0
        then drop_bit 9 ((sz + ucast (sf_blksize conf) - 1) AND NOT (ucast (sf_blksize conf) - 1)) else 0),
      ss_uid = fst ids, ss_gid = snd ids, ss_atime = fst tms, ss_mtime = snd tms\<rparr>"

definition get_attr_fields :: "buffer \<Rightarrow> ((u32 \<times> u64 \<times> (u32 \<times> u32) \<times> u32 \<times> (u32 \<times> u32)) option \<times> buffer) cres" where
  "get_attr_fields buf =
     get_then (buf_get_uint32 buf) (\<lambda>flags buf0.
     get_then (get_if (flags AND ATTR_SIZE \<noteq> 0) 0 buf_get_uint64 buf0) (\<lambda>sz buf1.
     get_then (get_if (flags AND ATTR_UIDGID \<noteq> 0) (0, 0) (get_two buf_get_uint32 buf_get_uint32) buf1) (\<lambda>ids buf2.
     get_then (get_if (flags AND ATTR_PERMISSIONS \<noteq> 0) 0x81FF buf_get_uint32 buf2) (\<lambda>mode buf3.
     get_then (get_if (flags AND ATTR_ACMODTIME \<noteq> 0) (0, 0) (get_two buf_get_uint32 buf_get_uint32) buf3) (\<lambda>tms buf4.
     get_then (get_if (flags AND ATTR_EXTENDED \<noteq> 0) () get_extended buf4) (\<lambda>_ buf5.
     Ret (Some (flags, sz, ids, mode, tms), buf5)))))))"

text \<open>The result: \<open>Inl\<close> the error, or the attributes with the flags.\<close>

definition buf_get_attrs :: "sshfs_conf \<Rightarrow> buffer \<Rightarrow> ((int + sftp_stat \<times> u32) \<times> buffer) cres" where
  "buf_get_attrs conf buf =
     cmap (\<lambda>(v, buf1).
       (case v of
          None \<Rightarrow> Inl (- EIO)
        | Some (flags, sz, ids, mode, tms) \<Rightarrow>
            (case map_ids conf ids of
              None \<Rightarrow> Inl (- EPERM)
            | Some ids1 \<Rightarrow> Inr (make_stat conf mode sz ids1 tms, flags)), buf1))
     (get_attr_fields buf)"

fun get_u64s :: "nat \<Rightarrow> buffer \<Rightarrow> (u64 list option \<times> buffer) cres" where
  "get_u64s 0 buf = Ret (Some [], buf)"
| "get_u64s (Suc n) buf =
     get_then (buf_get_uint64 buf) (\<lambda>v buf1. get_then (get_u64s n buf1) (\<lambda>vs buf2. Ret (Some (v # vs), buf2)))"

record statvfs =
  f_bsize :: u64
  f_frsize :: u64
  f_blocks :: u64
  f_bfree :: u64
  f_bavail :: u64
  f_files :: u64
  f_ffree :: u64
  f_favail :: u64
  f_namemax :: u64

definition buf_get_statvfs :: "buffer \<Rightarrow> (statvfs option \<times> buffer) cres" where
  "buf_get_statvfs buf =
     get_then (get_u64s 11 buf) (\<lambda>v buf1.
     Ret (Some \<lparr>f_bsize = v ! 0, f_frsize = v ! 1, f_blocks = v ! 2, f_bfree = v ! 3, f_bavail = v ! 4,
       f_files = v ! 5, f_ffree = v ! 6, f_favail = v ! 7, f_namemax = v ! 10\<rparr>, buf1))"

definition S_ISLNK :: "u32 \<Rightarrow> bool" where
  "S_ISLNK mode = (mode AND 0xF000 = 0xA000)"

fun get_entries_loop :: "sshfs_conf \<Rightarrow> (string \<Rightarrow> sftp_stat \<Rightarrow> 'd \<Rightarrow> 'd) \<Rightarrow> nat \<Rightarrow> buffer \<Rightarrow> 'd \<Rightarrow> (int \<times> buffer \<times> 'd) cres" where
  "get_entries_loop conf filler 0 buf dbuf = Ret (0, buf, dbuf)"
| "get_entries_loop conf filler (Suc n) buf dbuf =
     cbind (buf_get_string buf) (\<lambda>(name, buf1).
     case name of
       None \<Rightarrow> Ret (- EIO, buf1, dbuf)
     | Some name \<Rightarrow>
         cbind (buf_get_string buf1) (\<lambda>(longname, buf2).
         case longname of
           None \<Rightarrow> Ret (- 1, buf2, dbuf)
         | Some _ \<Rightarrow>
             cbind (buf_get_attrs conf buf2) (\<lambda>(res, buf3).
             case res of
               Inl err \<Rightarrow> Ret (err, buf3, dbuf)
             | Inr (st, flags) \<Rightarrow>
                 let st1 = (if follow_symlinks conf \<and> S_ISLNK (ss_mode st) then st\<lparr>ss_mode := 0\<rparr> else st)
                 in get_entries_loop conf filler n buf3 (filler name st1 dbuf))))"

definition buf_get_entries :: "sshfs_conf \<Rightarrow> (string \<Rightarrow> sftp_stat \<Rightarrow> 'd \<Rightarrow> 'd) \<Rightarrow> buffer \<Rightarrow> 'd \<Rightarrow> (int \<times> buffer \<times> 'd) cres" where
  "buf_get_entries conf filler buf dbuf =
     cbind (buf_get_uint32 buf) (\<lambda>(n, buf1).
     case n of
       None \<Rightarrow> Ret (- EIO, buf1, dbuf)
     | Some n \<Rightarrow> get_entries_loop conf filler (unat n) buf1 dbuf)"

section \<open>Reading stays inside the buffer\<close>

named_theorems gets_intros \<open>reads that return on every well-formed buffer\<close>

text \<open>A reply: the counters are inside the memory, and it is shorter than 4 GiB (replies are limited to \<^verbatim>\<open>MAX_REPLY_LEN\<close>).\<close>

definition buf_wf :: "buffer \<Rightarrow> bool" where
  "buf_wf b \<longleftrightarrow> blen b \<le> bsize b \<and> bsize b \<le> length (bp b) \<and> bsize b < 2 ^ 32"

definition gets :: "('a \<Rightarrow> bool) \<Rightarrow> (buffer \<Rightarrow> ('a option \<times> buffer) cres) \<Rightarrow> bool" where
  "gets P get \<longleftrightarrow> (\<forall>buf. buf_wf buf \<longrightarrow> (\<exists>v buf'. get buf = Ret (v, buf') \<and> buf_wf buf' \<and> (\<forall>x. v = Some x \<longrightarrow> P x)))"

lemma getsD:
  assumes "gets P get" and "buf_wf buf"
  obtains v buf' where "get buf = Ret (v, buf')" "buf_wf buf'" "\<And>x. v = Some x \<Longrightarrow> P x"
  using assms by (auto simp: gets_def)

lemma gets_weaken: "gets P get \<Longrightarrow> (\<And>x. P x \<Longrightarrow> Q x) \<Longrightarrow> gets Q get"
  unfolding gets_def by meson

lemma gets_ret [gets_intros]: "P x \<Longrightarrow> gets P (\<lambda>buf. Ret (Some x, buf))"
  by (simp add: gets_def)

lemma gets_then:
  assumes "gets P get" and "\<And>x. P x \<Longrightarrow> gets Q (f x)"
  shows "gets Q (\<lambda>buf. get_then (get buf) f)"
  unfolding gets_def
proof (intro allI impI)
  fix buf assume "buf_wf buf"
  then obtain v buf1 where 1: "get buf = Ret (v, buf1)" "buf_wf buf1" "\<And>x. v = Some x \<Longrightarrow> P x"
    by (rule getsD [OF assms(1)]) blast
  show "\<exists>v buf'. get_then (get buf) f = Ret (v, buf') \<and> buf_wf buf' \<and> (\<forall>x. v = Some x \<longrightarrow> Q x)"
  proof (cases v)
    case None
    with 1 show ?thesis by (simp add: get_then_def)
  next
    case (Some x)
    then have "gets Q (f x)" using assms(2) 1(3) by blast
    then show ?thesis
      using 1(1,2) Some by (simp add: get_then_def gets_def)
  qed
qed

lemma gets_mem: "gets (\<lambda>b. length b = n) (\<lambda>buf. buf_get_mem buf n)"
  by (auto simp: gets_def buf_get_mem_def buf_check_get_def buf_wf_def)

lemma gets_uint32 [gets_intros]: "gets (\<lambda>_. True) buf_get_uint32"
  unfolding buf_get_uint32_def by (rule gets_then [OF gets_mem]) (simp add: gets_def)

lemma gets_uint64 [gets_intros]: "gets (\<lambda>_. True) buf_get_uint64"
  unfolding buf_get_uint64_def by (rule gets_then [OF gets_uint32])+ (simp add: gets_def)

lemma gets_two [gets_intros]:
  "gets (\<lambda>_. True) g1 \<Longrightarrow> gets (\<lambda>_. True) g2 \<Longrightarrow> gets (\<lambda>_. True) (get_two g1 g2)"
  unfolding get_two_def by (rule gets_then, assumption, rule gets_then, assumption, rule gets_ret) simp

lemma gets_if [gets_intros]: "gets (\<lambda>_. True) g \<Longrightarrow> gets (\<lambda>_. True) (get_if flag d g)"
  by (cases flag) (simp_all add: get_if_def [abs_def] gets_def)

lemma uint32_position:
  assumes "buf_get_uint32 buf = Ret (Some len, buf1)"
  shows "blen buf1 = blen buf + 4"
  using assms unfolding buf_get_uint32_def get_then_def buf_get_mem_def by (simp split: if_splits) auto

lemma unat_Suc_u32: "unat len + 1 < 2 ^ 32 \<Longrightarrow> unat (len + 1) = unat len + 1" for len :: u32
  using unat_add_lem [of len 1] by simp

lemma data_rest:
  assumes "buf_wf buf1" and "unat len \<le> bsize buf1 - blen buf1" and "unat (len + 1) = unat len + 1"
  shows "let data = (buf_init (unat (len + 1)))\<lparr>bsize := unat len\<rparr> in
    \<exists>d buf'. get_then (buf_get_mem buf1 (bsize data)) (\<lambda>b buf2.
       cmap (\<lambda>(p, _). (Some (data\<lparr>bp := p\<rparr>), buf2)) (copy_with_offset (bp data) b 0)) = Ret (Some d, buf') \<and>
      buf_wf buf' \<and> length (bp d) = bsize d + 1"
proof -
  have l: "blen buf1 + unat len \<le> bsize buf1" "bsize buf1 \<le> length (bp buf1)" "bsize buf1 < 2 ^ 32"
    using assms(1,2) unfolding buf_wf_def by linarith+
  have g: "buf_get_mem buf1 (unat len) = Ret (Some (take (unat len) (drop (blen buf1) (bp buf1))), buf1\<lparr>blen := blen buf1 + unat len\<rparr>)"
    using l(1,2) by (simp add: buf_get_mem_def buf_check_get_def)
  have m: "length (take (unat len) (drop (blen buf1) (bp buf1))) = unat len"
    using l(1,2) by simp
  have w: "buf_wf (buf1\<lparr>blen := blen buf1 + unat len\<rparr>)"
    unfolding buf_wf_def using l by (simp del: power_numeral)
  show ?thesis
    using m w by (simp add: Let_def buf_init_def assms(3) g get_then_def copy_with_offset_def)
qed

lemma gets_data: "gets (\<lambda>d. length (bp d) = bsize d + 1) buf_get_data"
  unfolding gets_def
proof (intro allI impI)
  fix buf assume "buf_wf buf"
  then obtain v buf1 where 1: "buf_get_uint32 buf = Ret (v, buf1)" "buf_wf buf1"
    by (rule getsD [OF gets_uint32]) blast
  show "\<exists>v buf'. buf_get_data buf = Ret (v, buf') \<and> buf_wf buf' \<and> (\<forall>d. v = Some d \<longrightarrow> length (bp d) = bsize d + 1)"
  proof (cases "\<exists>len. v = Some len \<and> unat len \<le> bsize buf1 - blen buf1")
    case False
    then show ?thesis
      using 1 by (cases v) (simp_all add: buf_get_data_def get_then_def)
  next
    case True
    then obtain len where len: "v = Some len" "unat len \<le> bsize buf1 - blen buf1" by blast
    have "blen buf1 = blen buf + 4"
      by (rule uint32_position) (simp add: 1(1) len(1))
    then have "unat len + 1 < 2 ^ 32"
      using len(2) 1(2) unfolding buf_wf_def by linarith
    from data_rest [OF 1(2) len(2) unat_Suc_u32 [OF this]] show ?thesis
      unfolding buf_get_data_def 1(1) len(1) get_then_def [of "Ret _"] Let_def using len(2) by auto
  qed
qed

lemmas gets_data_any [gets_intros] = gets_weaken [OF gets_data, of "\<lambda>_. True", OF TrueI]

lemma gets_string [gets_intros]: "gets (\<lambda>_. True) buf_get_string"
  unfolding buf_get_string_def by (rule gets_then [OF gets_data]) (simp add: gets_def)

lemma gets_skip: "gets (\<lambda>_. True) (skip_extended n)"
proof (induction n)
  case 0
  then show ?case by (simp add: gets_def)
next
  case (Suc n)
  have "gets (\<lambda>_. True) (\<lambda>buf. get_then (get_two buf_get_data buf_get_data buf) (\<lambda>_. skip_extended n))"
    by (rule gets_then [OF gets_two [OF gets_data_any gets_data_any] Suc])
  then show ?case by (simp add: gets_def)
qed

lemma gets_extended [gets_intros]: "gets (\<lambda>_. True) get_extended"
  unfolding get_extended_def by (rule gets_then [OF gets_uint32 gets_skip])

lemma gets_attr_fields: "gets (\<lambda>_. True) get_attr_fields"
  unfolding get_attr_fields_def [abs_def] by (intro gets_then [where P = "\<lambda>_. True"] gets_intros TrueI)

lemma attrs_returns:
  assumes "buf_wf buf"
  shows "\<exists>res buf'. buf_get_attrs conf buf = Ret (res, buf') \<and> buf_wf buf'"
proof -
  obtain v buf' where "get_attr_fields buf = Ret (v, buf')" "buf_wf buf'"
    using getsD [OF gets_attr_fields assms] by metis
  then show ?thesis by (auto simp: buf_get_attrs_def)
qed

lemma entries_loop_returns:
  "buf_wf buf \<Longrightarrow> \<exists>err buf' dbuf'. get_entries_loop conf filler n buf dbuf = Ret (err, buf', dbuf') \<and> buf_wf buf'"
proof (induction n arbitrary: buf dbuf)
  case (Suc n)
  obtain name buf1 where 1: "buf_get_string buf = Ret (name, buf1)" "buf_wf buf1"
    using getsD [OF gets_string Suc.prems] by metis
  obtain longname buf2 where 2: "buf_get_string buf1 = Ret (longname, buf2)" "buf_wf buf2"
    using getsD [OF gets_string 1(2)] by metis
  obtain res buf3 where 3: "buf_get_attrs conf buf2 = Ret (res, buf3)" "buf_wf buf3"
    using attrs_returns [OF 2(2)] by blast
  show ?case
    using 1 2 3 Suc.IH [OF 3(2)] by (auto simp: Let_def split: option.split sum.split)
qed simp

section \<open>Messages\<close>

text \<open>The fields a message is made of, their bytes, and writing and reading them in turn.\<close>

datatype field = F8 u8 | F32 u32 | F64 u64 | FData bytes | FString string
datatype field_kind = K8 | K32 | K64 | KData | KString

fun kind_of :: "field \<Rightarrow> field_kind" where
  "kind_of (F8 _) = K8" | "kind_of (F32 _) = K32" | "kind_of (F64 _) = K64" | "kind_of (FData _) = KData"
| "kind_of (FString _) = KString"

fun add_field :: "field \<Rightarrow> buffer \<Rightarrow> buffer cres" where
  "add_field (F8 v) buf = buf_add_uint8 buf v"
| "add_field (F32 v) buf = buf_add_uint32 buf v"
| "add_field (F64 v) buf = buf_add_uint64 buf v"
| "add_field (FData d) buf = buf_add_data buf d"
| "add_field (FString s) buf = buf_add_string buf s"

fun get_field :: "field_kind \<Rightarrow> buffer \<Rightarrow> (field option \<times> buffer) cres" where
  "get_field K8 buf = cmap (map_prod (map_option F8) id) (buf_get_uint8 buf)"
| "get_field K32 buf = cmap (map_prod (map_option F32) id) (buf_get_uint32 buf)"
| "get_field K64 buf = cmap (map_prod (map_option F64) id) (buf_get_uint64 buf)"
| "get_field KData buf = cmap (map_prod (map_option (\<lambda>d. FData (take (bsize d) (bp d)))) id) (buf_get_data buf)"
| "get_field KString buf = cmap (map_prod (map_option FString) id) (buf_get_string buf)"

fun add_fields :: "field list \<Rightarrow> buffer \<Rightarrow> buffer cres" where
  "add_fields [] buf = Ret buf"
| "add_fields (f # fs) buf = cbind (add_field f buf) (add_fields fs)"

fun get_fields :: "field_kind list \<Rightarrow> buffer \<Rightarrow> (field list option \<times> buffer) cres" where
  "get_fields [] buf = Ret (Some [], buf)"
| "get_fields (k # ks) buf =
     get_then (get_field k buf) (\<lambda>f buf1. get_then (get_fields ks buf1) (\<lambda>fs buf2. Ret (Some (f # fs), buf2)))"

fun field_ok :: "field \<Rightarrow> bool" where
  "field_ok (FData d) \<longleftrightarrow> length d < 2 ^ 32 - 1"
| "field_ok (FString s) \<longleftrightarrow> nul_free s \<and> length s < 2 ^ 32 - 1"
| "field_ok _ \<longleftrightarrow> True"

definition data_bytes :: "bytes \<Rightarrow> bytes" where
  "data_bytes d = htonl (of_nat (length d)) @ d"

fun field_bytes :: "field \<Rightarrow> bytes" where
  "field_bytes (F8 v) = [v]"
| "field_bytes (F32 v) = htonl v"
| "field_bytes (F64 v) = htonl (ucast (drop_bit 32 v)) @ htonl (ucast (v AND 0xffffffff))"
| "field_bytes (FData d) = data_bytes d"
| "field_bytes (FString s) = data_bytes (map byte_of_char s)"

subsection \<open>Writing appends\<close>

definition holds :: "buffer \<Rightarrow> bytes \<Rightarrow> bool" where
  "holds buf bs \<longleftrightarrow> blen buf = length bs \<and> blen buf \<le> bsize buf \<and> length (bp buf) = bsize buf \<and> take (blen buf) (bp buf) = bs"

definition appends :: "(buffer \<Rightarrow> buffer cres) \<Rightarrow> bytes \<Rightarrow> bool" where
  "appends add bs \<longleftrightarrow> (\<forall>buf pre. holds buf pre \<longrightarrow> (\<exists>buf'. add buf = Ret buf' \<and> holds buf' (pre @ bs)))"

lemma appends_bind: "appends f a \<Longrightarrow> appends g b \<Longrightarrow> appends (\<lambda>buf. cbind (f buf) g) (a @ b)"
  unfolding appends_def
proof (intro allI impI)
  fix buf pre
  assume f: "\<forall>buf pre. holds buf pre \<longrightarrow> (\<exists>buf'. f buf = Ret buf' \<and> holds buf' (pre @ a))"
    and g: "\<forall>buf pre. holds buf pre \<longrightarrow> (\<exists>buf'. g buf = Ret buf' \<and> holds buf' (pre @ b))"
    and h: "holds buf pre"
  from f h obtain b1 where 1: "f buf = Ret b1" "holds b1 (pre @ a)" by blast
  from g 1(2) obtain b2 where "g b1 = Ret b2" "holds b2 ((pre @ a) @ b)" by blast
  with 1 show "\<exists>buf'. cbind (f buf) g = Ret buf' \<and> holds buf' (pre @ a @ b)" by simp
qed

lemma holds_check_add:
  assumes "holds buf bs"
  shows "holds (buf_check_add buf n) bs" and "blen buf + n \<le> bsize (buf_check_add buf n)"
proof -
  define sz where "sz = (blen buf + n + 63) div 32 * 32"
  have "sz + (blen buf + n + 63) mod 32 = blen buf + n + 63" "(blen buf + n + 63) mod 32 < 32"
    unfolding sz_def by (rule div_mult_mod_eq, rule mod_less_divisor) simp
  then have s: "blen buf + n \<le> sz" by linarith
  have r: "buf_resize buf n = buf\<lparr>bsize := sz, bp := take sz (bp buf @ replicate sz 0)\<rparr>"
    by (simp add: buf_resize_def Let_def sz_def)
  have a: "blen buf = length bs" "length bs \<le> bsize buf" "length (bp buf) = bsize buf" "take (length bs) (bp buf) = bs"
    using assms unfolding holds_def by metis+
  show "holds (buf_check_add buf n) bs" "blen buf + n \<le> bsize (buf_check_add buf n)"
    using a s by (simp_all add: holds_def buf_check_add_def r min_absorb1)
qed

lemma appends_mem: "appends (\<lambda>buf. buf_add_mem buf data) data"
  unfolding appends_def
proof (intro allI impI)
  fix buf pre assume h: "holds buf pre"
  let ?b = "buf_check_add buf (length data)"
  have b: "blen ?b = blen buf" by (simp add: buf_check_add_def buf_resize_def Let_def)
  note c = holds_check_add [OF h, of "length data"]
  have t: "take (length pre) (bp ?b) = pre" "length (bp ?b) = bsize ?b" "blen ?b = length pre"
    using c(1) unfolding holds_def by metis+
  have "blen ?b + length data \<le> length (bp ?b)" using c b t by simp
  then show "\<exists>buf'. buf_add_mem buf data = Ret buf' \<and> holds buf' (pre @ data)"
    using t c(2) b by (simp add: buf_add_mem_def copy_with_offset_def Let_def holds_def)
qed

lemma appends_data: "appends (\<lambda>buf. buf_add_data buf d) (data_bytes d)"
  unfolding buf_add_data_def buf_add_uint32_def data_bytes_def by (rule appends_bind [OF appends_mem appends_mem])

lemma appends_field: "appends (add_field f) (field_bytes f)"
proof (cases f)
  case (F64 v)
  have "appends (\<lambda>buf. buf_add_uint64 buf v) (field_bytes f)"
    unfolding buf_add_uint64_def buf_add_uint32_def F64 field_bytes.simps by (rule appends_bind [OF appends_mem appends_mem])
  then show ?thesis by (simp add: F64 appends_def)
qed (use appends_mem appends_data in \<open>simp_all add: appends_def buf_add_uint8_def buf_add_uint32_def buf_add_string_def\<close>)

lemma appends_fields: "appends (add_fields fs) (concat (map field_bytes fs))"
proof (induction fs)
  case Nil
  then show ?case by (simp add: appends_def)
next
  case (Cons f fs)
  then show ?case
    using appends_bind [OF appends_field [of f] Cons] by (simp add: appends_def)
qed

subsection \<open>Reading returns what was written\<close>

definition reader :: "bytes \<Rightarrow> nat \<Rightarrow> buffer" where
  "reader m i = \<lparr>bp = m, blen = i, bsize = length m\<rparr>"

definition reads :: "(buffer \<Rightarrow> ('a option \<times> buffer) cres) \<Rightarrow> 'a \<Rightarrow> bytes \<Rightarrow> bool" where
  "reads get x bs \<longleftrightarrow> (\<forall>pre post. get (reader (pre @ bs @ post) (length pre)) =
     Ret (Some x, reader (pre @ bs @ post) (length pre + length bs)))"

lemma reads_then:
  assumes "reads get x a" and "reads (f x) y b"
  shows "reads (\<lambda>buf. get_then (get buf) f) y (a @ b)"
  unfolding reads_def
proof (intro allI)
  fix pre post
  show "get_then (get (reader (pre @ (a @ b) @ post) (length pre))) f =
      Ret (Some y, reader (pre @ (a @ b) @ post) (length pre + length (a @ b)))"
    using assms(1) [unfolded reads_def, rule_format, of pre "b @ post"]
      assms(2) [unfolded reads_def, rule_format, of "pre @ a" post]
    by (simp add: get_then_def add.assoc)
qed

lemma reads_mem: "reads (\<lambda>buf. buf_get_mem buf (length b)) b b"
  by (simp add: reads_def reader_def buf_get_mem_def buf_check_get_def)

lemma reads_ret: "reads (\<lambda>buf. Ret (Some x, buf)) x []"
  by (simp add: reads_def)

lemma ntohl_htonl: "ntohl (htonl v) = v"
proof (rule bit_word_eqI)
  fix n assume n: "n < LENGTH(32)"
  define m where "m = n mod 8"
  have m: "m < 8" by (simp add: m_def)
  have "n div 8 < 4" using n by simp
  then consider "n div 8 = 0" | "n div 8 = 1" | "n div 8 = 2" | "n div 8 = 3" by linarith
  then consider "n = m" | "n = 8 + m" | "n = 16 + m" | "n = 24 + m"
    using div_mult_mod_eq [of n 8] unfolding m_def by cases simp_all
  then show "bit (ntohl (htonl v)) n = bit v n"
    using m by cases (simp_all add: ntohl_def htonl_def bit_simps)
qed

lemma length_htonl [simp]: "length (htonl v) = 4"
  by (simp add: htonl_def)

lemma reads_uint32: "reads buf_get_uint32 v (htonl v)"
  unfolding buf_get_uint32_def
  using reads_then [OF reads_mem [of "htonl v"], of "\<lambda>b buf1. Ret (Some (ntohl b), buf1)" v "[]"] reads_ret [of v]
  by (simp add: ntohl_htonl)

lemma reads_uint8: "reads buf_get_uint8 v [v]"
  unfolding buf_get_uint8_def
  using reads_then [OF reads_mem [of "[v]"], of "\<lambda>b buf1. Ret (Some (hd b), buf1)" v "[]"] reads_ret [of v]
  by simp

lemma join_halves: "push_bit 32 (ucast (ucast (drop_bit 32 v) :: u32)) + ucast (ucast (v AND 0xffffffff) :: u32) = (v :: u64)"
proof -
  let ?h = "push_bit 32 (ucast (ucast (drop_bit 32 v) :: u32)) :: u64" and ?l = "ucast (ucast (v AND 0xffffffff) :: u32) :: u64"
  have m: "(0xffffffff :: u64) = mask 32" by (simp add: mask_eq_exp_minus_1)
  have "?h AND ?l = 0" unfolding m by (rule bit_word_eqI) (auto simp: bit_simps)
  then have "?h + ?l = ?h OR ?l" by (rule disjunctive_add_eq_or)
  also have "\<dots> = v" unfolding m by (rule bit_word_eqI) (auto simp: bit_simps)
  finally show ?thesis .
qed

lemma reads_uint64: "reads buf_get_uint64 v (field_bytes (F64 v))"
proof -
  let ?h = "ucast (drop_bit 32 v) :: u32" and ?l = "ucast (v AND 0xffffffff) :: u32"
  have "reads (\<lambda>buf1. get_then (buf_get_uint32 buf1) (\<lambda>val2 buf2. Ret (Some (push_bit 32 (ucast ?h) + ucast val2), buf2))) v (htonl ?l @ [])"
    by (rule reads_then [OF reads_uint32]) (simp only: join_halves reads_ret)
  with reads_uint32 [of ?h] show ?thesis
    unfolding buf_get_uint64_def field_bytes.simps append_Nil2
    by (rule reads_then [where x = ?h and f = "\<lambda>val1 buf1. get_then (buf_get_uint32 buf1)
      (\<lambda>val2 buf2. Ret (Some (push_bit 32 (ucast val1) + ucast val2), buf2))"])
qed

lemma data_at:
  assumes "length d < 2 ^ 32 - 1"
  shows "buf_get_data (reader (pre @ data_bytes d @ post) (length pre)) =
    Ret (Some \<lparr>bp = d @ [0], blen = 0, bsize = length d\<rparr>, reader (pre @ data_bytes d @ post) (length pre + length (data_bytes d)))"
proof -
  have u: "unat (of_nat (length d) :: u32) = length d" "unat (of_nat (length d) + 1 :: u32) = length d + 1"
    using assms by (simp_all add: unat_of_nat unat_word_ariths)
  have r: "buf_get_uint32 (reader (pre @ data_bytes d @ post) (length pre)) =
      Ret (Some (of_nat (length d)), reader (pre @ data_bytes d @ post) (length pre + 4))"
    using reads_uint32 [of "of_nat (length d)"] unfolding reads_def data_bytes_def by simp
  show ?thesis
    by (simp add: buf_get_data_def r get_then_def u Let_def)
      (simp add: reader_def data_bytes_def buf_get_mem_def buf_check_get_def buf_init_def copy_with_offset_def
        replicate_append_same [symmetric])
qed

lemma reads_field: "field_ok f \<Longrightarrow> reads (get_field (kind_of f)) f (field_bytes f)"
proof (cases f)
  case (FString s)
  assume ok: "field_ok f"
  have "char_of_byte 0 = NUL" by (simp add: char_of_byte_def char_of_def)
  then have m: "map char_of_byte (map byte_of_char s @ [0]) = s @ [NUL]"
    unfolding map_append map_char_of_byte by simp
  have "cstr (s @ [NUL]) = s"
    using ok FString cstr_append [of s "[]"] by simp
  then show ?thesis
    using ok FString
    by (simp add: reads_def buf_get_string_def data_at get_then_def list_update_append m del: map_append map_map)
qed (use reads_uint8 reads_uint32 reads_uint64 in \<open>simp_all add: reads_def data_at\<close>)

lemma reads_fields: "list_all field_ok fs \<Longrightarrow> reads (get_fields (map kind_of fs)) fs (concat (map field_bytes fs))"
proof (induction fs)
  case Nil
  then show ?case by (simp add: reads_def)
next
  case (Cons f fs)
  let ?rest = "\<lambda>f buf1. get_then (get_fields (map kind_of fs) buf1) (\<lambda>fs buf2. Ret (Some (f # fs), buf2))"
  have ih: "reads (get_fields (map kind_of fs)) fs (concat (map field_bytes fs))"
    and f: "reads (get_field (kind_of f)) f (field_bytes f)"
    using Cons reads_field by simp_all
  have r: "reads (?rest f) (f # fs) (concat (map field_bytes fs) @ [])"
    using ih reads_ret by (rule reads_then [where x = fs and f = "\<lambda>fs buf2. Ret (Some (f # fs), buf2)"])
  have "reads (\<lambda>buf. get_then (get_field (kind_of f) buf) ?rest) (f # fs) (field_bytes f @ concat (map field_bytes fs) @ [])"
    using f r by (rule reads_then [where x = f and f = ?rest])
  then show ?case
    unfolding reads_def by (simp only: list.map get_fields.simps concat.simps append_Nil2 simp_thms)
qed


section \<open>Properties\<close>

text \<open>
  C20. SFTP messages survive the buffers: writing any sequence of fields (integers of 8, 32 and 64 bits, data, strings without
  NUL) into an empty buffer stays inside its memory however often it has to grow, and reading fields of these kinds from the
  bytes written returns exactly the same fields and consumes all of them.
\<close>

theorem sftp_fields_roundtrip:
  assumes "list_all field_ok fs"
  shows "\<exists>buf m. add_fields fs (buf_init 0) = Ret buf \<and> take (blen buf) (bp buf) = m \<and>
    get_fields (map kind_of fs) \<lparr>bp = m, blen = 0, bsize = length m\<rparr> = Ret (Some fs, \<lparr>bp = m, blen = length m, bsize = length m\<rparr>)"
proof -
  have "holds (buf_init 0) []" by (simp add: holds_def buf_init_def)
  then obtain buf where b: "add_fields fs (buf_init 0) = Ret buf" "holds buf ([] @ concat (map field_bytes fs))"
    using appends_fields [of fs] unfolding appends_def by blast
  have "get_fields (map kind_of fs) (reader (concat (map field_bytes fs)) 0) =
      Ret (Some fs, reader (concat (map field_bytes fs)) (length (concat (map field_bytes fs))))"
    using reads_fields [OF assms, unfolded reads_def, rule_format, of "[]" "[]"]
    by (simp only: append_Nil append_Nil2 list.size add_0)
  then show ?thesis
    using b unfolding holds_def reader_def append_Nil by blast
qed

theorem sftp_fields_roundtrip_witness:
  "\<exists>buf m. add_fields [F8 3, F32 7, FString ''/a'', F64 5000000000] (buf_init 0) = Ret buf \<and> take (blen buf) (bp buf) = m \<and>
    get_fields [K8, K32, KString, K64] \<lparr>bp = m, blen = 0, bsize = length m\<rparr> =
      Ret (Some [F8 3, F32 7, FString ''/a'', F64 5000000000], \<lparr>bp = m, blen = length m, bsize = length m\<rparr>)"
  using sftp_fields_roundtrip [of "[F8 3, F32 7, FString ''/a'', F64 5000000000]"] by simp


definition example_conf :: sshfs_conf where
  "example_conf = \<lparr>remote_uid_detected = False, remote_uid = 0, local_uid = 0, remote_gid = 0, local_gid = 0,
     sf_idmap = IDMAP_NONE, uid_map = None, gid_map = None, sf_nomap = NOMAP_ERROR, sf_blksize = 0, follow_symlinks = False\<rparr>"


end
