(* ===== verification/Hadoop_Rpc.thy ===== *)
theory Hadoop_Rpc
  imports Crc32c Varint Sshfs_Buffer
begin

text \<open>
  The Hadoop protocols (\<^verbatim>\<open>usfs_wrap/hdfs/hadooprpc.c\<close>): calls of the name node, receiving a length-prefixed message, block
  operations on a data node, and sending the data of a block as packets with checksums. The socket, the packing and the unpacking of
  protobuf messages (generated code) are parameters; a message is the bytes it packs to. Lengths are natural numbers,
  cut to 16, 32 or 64 bits where the code does.
\<close>

section \<open>The connection\<close>

record 'w wire =
  w_send :: "bytes \<Rightarrow> 'w \<Rightarrow> int \<times> 'w"
  w_recv :: "nat \<Rightarrow> 'w \<Rightarrow> (int \<times> bytes) \<times> 'w"
  w_close :: "'w \<Rightarrow> 'w"

text \<open>\<^verbatim>\<open>htonl\<close> of a 32-bit value and \<^verbatim>\<open>htons\<close> of a 16-bit value as bytes.\<close>

definition net32 :: "nat \<Rightarrow> bytes" where
  "net32 n = htonl (of_nat n)"

definition net16 :: "nat \<Rightarrow> bytes" where
  "net16 n = [of_nat (n mod 65536 div 256), of_nat n]"

definition hadoop_rpc_send :: "'w wire \<Rightarrow> bytes \<Rightarrow> 'w \<Rightarrow> int \<times> 'w" where
  "hadoop_rpc_send w it x = w_send w it x"

definition hadoop_rpc_send_int32 :: "'w wire \<Rightarrow> nat \<Rightarrow> 'w \<Rightarrow> int \<times> 'w" where
  "hadoop_rpc_send_int32 w it x = w_send w (net32 it) x"

definition hadoop_rpc_send_int16 :: "'w wire \<Rightarrow> nat \<Rightarrow> 'w \<Rightarrow> int \<times> 'w" where
  "hadoop_rpc_send_int16 w it x = w_send w (net16 it) x"

text \<open>\<^verbatim>\<open>PACK\<close>: the message behind its length as a varint in a ten-byte buffer.\<close>

definition PACK :: "bytes \<Rightarrow> bytes cres" where
  "PACK msg =
     cmap (\<lambda>(lenbuf, lenlen). take lenlen lenbuf @ msg)
       (encode_unsigned_varint (replicate 10 0) (ucast (of_nat (length msg) :: u32)))"

section \<open>Receiving a message\<close>

text \<open>\<^verbatim>\<open>recvfrom\<close> with \<^verbatim>\<open>MSG_WAITALL\<close> into \<open>n\<close> bytes: \<open>Inl\<close> is a negative result. A short
  receive (the peer closed the connection) leaves bytes of the buffer unset, which the code goes on to read.\<close>

definition recv_all :: "'w wire \<Rightarrow> nat \<Rightarrow> 'w \<Rightarrow> ((int + bytes) \<times> 'w) cres" where
  "recv_all w n x =
     (case w_recv w n x of ((res, b), x1) \<Rightarrow>
      if res < 0 then Ret (Inl res, x1)
      else if length b < n then Undef Uninitialised
      else Ret (Inr (take n b), x1))"

text \<open>
  \<^verbatim>\<open>hadoop_rpc_receive_proto\<close>: five bytes, which hold the length and the start of the message, and then the rest. The buffer is as
  long as the message. \<open>unpack\<close> gives \<open>None\<close> where the generated code gives a null pointer.
\<close>

definition receive_proto :: "'w wire \<Rightarrow> (bytes \<Rightarrow> 'm option) \<Rightarrow> 'w \<Rightarrow> ((int + 'm option) \<times> 'w) cres" where
  "receive_proto w unpack x =
     cbind (recv_all w 5 x) (\<lambda>(r, x1).
     case r of
       Inl res \<Rightarrow> Ret (Inl res, x1)
     | Inr len_varint \<Rightarrow>
         cbind (decode_unsigned_varint len_varint) (\<lambda>(len, len_varintlen).
         let bytesinwrongbuf = 5 - len_varintlen in
         cbind (copy_with_offset (replicate (unat len) 0) (take bytesinwrongbuf (drop len_varintlen len_varint)) 0) (\<lambda>(buf, off).
         cbind (recv_all w (unat len - bytesinwrongbuf) x1) (\<lambda>(r, x2).
         case r of
           Inl res \<Rightarrow> Ret (Inl res, x2)
         | Inr rest \<Rightarrow> cmap (\<lambda>(buf1, _). (Inr (unpack buf1), x2)) (copy_with_offset buf rest off)))))"

datatype hdfs_status = ST_SUCCESS | ST_ERROR | ST_ERROR_CHECKSUM | ST_ERROR_INVALID | ST_ERROR_EXISTS
  | ST_ERROR_ACCESS_TOKEN | ST_ERROR_UNSUPPORTED | ST_CHECKSUM_OK | ST_OTHER

fun block_op_result :: "hdfs_status \<Rightarrow> int" where
  "block_op_result ST_ERROR = - EPROTO"
| "block_op_result ST_ERROR_CHECKSUM = - EBADMSG"
| "block_op_result ST_ERROR_INVALID = - EINVAL"
| "block_op_result ST_ERROR_EXISTS = - EEXIST"
| "block_op_result ST_ERROR_ACCESS_TOKEN = - EACCES"
| "block_op_result ST_ERROR_UNSUPPORTED = - ENOSYS"
| "block_op_result ST_SUCCESS = 0"
| "block_op_result ST_CHECKSUM_OK = 0"
| "block_op_result ST_OTHER = - ENOTSUP"

text \<open>The message of an unpacked response, through a pointer.\<close>

definition deref :: "'m option \<Rightarrow> 'm cres" where
  "deref p = (case p of Some m \<Rightarrow> Ret m | None \<Rightarrow> Undef Null_Deref)"

text \<open>\<open>status_of\<close> reads the status of the unpacked response; the response is returned only on success.\<close>

definition hadoop_rpc_call_datanode :: "'w wire \<Rightarrow> (bytes \<Rightarrow> 'm option) \<Rightarrow> ('m \<Rightarrow> hdfs_status) \<Rightarrow> u8 \<Rightarrow> bytes \<Rightarrow> 'w \<Rightarrow>
    ((int \<times> 'm option) \<times> 'w) cres" where
  "hadoop_rpc_call_datanode w unpack status_of typ msg x =
     (case hadoop_rpc_send w [0, 28, typ] x of (res, x1) \<Rightarrow>
      if res < 0 then Ret ((- EPROTO, None), x1)
      else
        cbind (PACK msg) (\<lambda>buf.
        case hadoop_rpc_send w buf x1 of (res, x2) \<Rightarrow>
        if res < 0 then Ret ((- EPROTO, None), x2)
        else
          cbind (receive_proto w unpack x2) (\<lambda>(r, x3).
          case r of
            Inl res \<Rightarrow> Ret ((res, None), x3)
          | Inr out \<Rightarrow>
              cbind (deref out) (\<lambda>m.
              let res = block_op_result (status_of m) in Ret ((res, if res < 0 then None else Some m), x3)))))"

section \<open>Calling the name node\<close>

record 'w connection_state =
  next_call_id :: int
  isconnected :: bool
  cworld :: 'w

datatype rpc_status = RPC_SUCCESS | RPC_ERROR | RPC_FATAL
datatype rpc_error = FATAL_UNAUTHORIZED | FATAL_VERSION_MISMATCH | ERROR_RPC_VERSION_MISMATCH | FATAL_INVALID_RPC_HEADER
  | ERROR_RPC_SERVER | RPC_OTHER_ERROR

fun rpc_error_result :: "rpc_error option \<Rightarrow> int" where
  "rpc_error_result (Some FATAL_UNAUTHORIZED) = - EACCES"
| "rpc_error_result (Some FATAL_VERSION_MISMATCH) = - EPROTONOSUPPORT"
| "rpc_error_result (Some ERROR_RPC_VERSION_MISMATCH) = - EPROTONOSUPPORT"
| "rpc_error_result (Some FATAL_INVALID_RPC_HEADER) = - EBADR"
| "rpc_error_result (Some ERROR_RPC_SERVER) = - EBADR"
| "rpc_error_result (Some RPC_OTHER_ERROR) = - EINVAL"
| "rpc_error_result None = - EINVAL"

definition hadoop_rpc_disconnect :: "'w wire \<Rightarrow> 'w connection_state \<Rightarrow> 'w connection_state" where
  "hadoop_rpc_disconnect w s = s\<lparr>isconnected := False, cworld := w_close w (cworld s)\<rparr>"

text \<open>A length-prefixed part at the start of the response, and what follows it; unpacking reads as many bytes as the length says.\<close>

definition take_part :: "bytes \<Rightarrow> (bytes \<times> bytes) cres" where
  "take_part buf =
     cbind (decode_unsigned_varint buf) (\<lambda>(len, lenlen).
     let rest = drop lenlen buf; n = unat (ucast len :: u32) in
     if n \<le> length rest then Ret (take n rest, drop n rest) else Undef Out_Of_Bounds)"

fun send_ignoring :: "'w wire \<Rightarrow> bytes list \<Rightarrow> 'w \<Rightarrow> 'w" where
  "send_ignoring w [] x = x"
| "send_ignoring w (m # ms) x = send_ignoring w ms (snd (w_send w m x))"

text \<open>\<open>pack_header\<close> and \<open>pack_request\<close> pack the request headers, \<open>unpack_status\<close> gives the status and error detail of a response header
  (\<open>None\<close> when it cannot be unpacked).\<close>

definition call_namenode_withlock :: "'w wire \<Rightarrow> (int \<Rightarrow> bytes) \<Rightarrow> (string \<Rightarrow> bytes) \<Rightarrow>
    (bytes \<Rightarrow> (rpc_status \<times> rpc_error option) option) \<Rightarrow> (bytes \<Rightarrow> 'm option) \<Rightarrow> string \<Rightarrow> bytes \<Rightarrow> 'w connection_state \<Rightarrow>
    ((int \<times> 'm option) \<times> 'w connection_state) cres" where
  "call_namenode_withlock w pack_header pack_request unpack_status unpack_out methodname msg s =
     cbind (PACK msg) (\<lambda>msgbuf.
     cbind (PACK (pack_header (next_call_id s))) (\<lambda>headerbuf.
     cbind (PACK (pack_request methodname)) (\<lambda>requestbuf.
     let s1 = s\<lparr>next_call_id := next_call_id s + 1\<rparr>;
         x1 = send_ignoring w [net32 (length headerbuf + length requestbuf + length msgbuf), headerbuf, requestbuf, msgbuf] (cworld s1)
     in case w_recv w 4 x1 of ((res, lenbytes), x2) \<Rightarrow>
        if res < 0 then Ret ((res, None), s1\<lparr>cworld := x2\<rparr>)
        else if length lenbytes < 4 then Undef Uninitialised
        else case w_recv w (unat (ntohl lenbytes)) x2 of ((res, responsebuf), x3) \<Rightarrow>
        let s3 = s1\<lparr>cworld := x3\<rparr> in
        if res < 0 then Ret ((res, None), s3)
        else
          cbind (take_part responsebuf) (\<lambda>(hdr, rest).
          cbind (deref (unpack_status hdr)) (\<lambda>(status, detail).
          case status of
            RPC_SUCCESS \<Rightarrow> cmap (\<lambda>(body, _). ((0, unpack_out body), s3)) (take_part rest)
          | RPC_FATAL \<Rightarrow> Ret ((rpc_error_result detail, None), hadoop_rpc_disconnect w s3)
          | RPC_ERROR \<Rightarrow> Ret ((rpc_error_result detail, None), s3))))))"

section \<open>Sending packets\<close>

text \<open>A buffer is its bytes, or only a length for a run of zeros (a null pointer).\<close>

datatype fuse_buffer = Data bytes | Zeros nat

fun buffer_len :: "fuse_buffer \<Rightarrow> nat" where
  "buffer_len (Data d) = length d"
| "buffer_len (Zeros n) = n"

record buffer_pos =
  buffers :: "fuse_buffer list"
  bufferoffset :: nat
  pos_len :: nat

datatype checksum_type = CHECKSUM_CRC32C | CHECKSUM_CRC32 | CHECKSUM_NULL

record checksum_proto =
  ck_type :: checksum_type
  bytesperchecksum :: nat

definition roundup :: "nat \<Rightarrow> nat \<Rightarrow> nat cres" where
  "roundup num multiple =
     (if multiple = 0 then Undef Division_By_Zero
      else Ret ((num mod 2 ^ 32 + multiple - 1) mod 2 ^ 32 div multiple))"

text \<open>The bytes a \<^verbatim>\<open>memcpy\<close> or \<^verbatim>\<open>memset\<close> takes from a buffer.\<close>

fun buffer_bytes :: "fuse_buffer \<Rightarrow> nat \<Rightarrow> nat \<Rightarrow> bytes" where
  "buffer_bytes (Data d) offset n = take n (drop offset d)"
| "buffer_bytes (Zeros _) offset n = replicate n 0"

text \<open>The loop that assembles a packet; \<open>packet\<close> is the part written so far.\<close>

primrec assemble :: "fuse_buffer list \<Rightarrow> nat \<Rightarrow> nat \<Rightarrow> nat \<Rightarrow> bytes \<Rightarrow> bytes" where
  "assemble [] idx bo len packet = packet"
| "assemble (b # bs) idx bo len packet =
     (if length packet < len then
        if idx + buffer_len b > bo then
          let offset = (if idx > bo then 0 else bo - idx);
              towrite = min (len - length packet) (buffer_len b - offset)
          in if towrite = len then buffer_bytes b offset len
             else assemble bs (idx + buffer_len b) bo len (packet @ buffer_bytes b offset towrite)
        else assemble bs (idx + buffer_len b) bo len packet
      else packet)"

text \<open>A sequence of sends that stops at the first failure.\<close>

fun send_all :: "'w wire \<Rightarrow> bytes list \<Rightarrow> 'w \<Rightarrow> int \<times> 'w" where
  "send_all w [] x = (0, x)"
| "send_all w (m # ms) x = (case w_send w m x of (res, x1) \<Rightarrow> if res < 0 then (res, x1) else send_all w ms x1)"

text \<open>The checksum of each chunk of \<^verbatim>\<open>bytesperchecksum\<close> bytes (the last may be shorter); \<open>crc\<close> is \<^verbatim>\<open>crc32c\<close> with initial value 0.\<close>

definition packet_checksums :: "(bytes \<Rightarrow> u32) \<Rightarrow> nat \<Rightarrow> nat \<Rightarrow> bytes \<Rightarrow> bytes list" where
  "packet_checksums crc n_checksums bpc packet =
     map (\<lambda>i. htonl (crc (take (min bpc (length packet - i * bpc)) (drop (i * bpc) packet)))) [0..<n_checksums]"

record pipeline_ack =
  ack_seqno :: int
  ack_status :: "hdfs_status list"

fun ack_statuses :: "hdfs_status list \<Rightarrow> int" where
  "ack_statuses [] = 0"
| "ack_statuses (st # sts) = (if st = ST_SUCCESS \<or> st = ST_CHECKSUM_OK then ack_statuses sts else - EINVAL)"

definition check_ack :: "int \<Rightarrow> pipeline_ack \<Rightarrow> int" where
  "check_ack seqno ack =
     (if ack_seqno ack \<noteq> seqno then - EPROTO
      else if ack_status ack = [] then - EPROTO
      else ack_statuses (ack_status ack))"

definition receive_ack :: "'w wire \<Rightarrow> (bytes \<Rightarrow> pipeline_ack option) \<Rightarrow> int \<Rightarrow> 'w \<Rightarrow> (int \<times> 'w) cres" where
  "receive_ack w unpack_ack seqno x =
     cbind (receive_proto w unpack_ack x) (\<lambda>(r, x1).
     case r of
       Inl res \<Rightarrow> Ret (res, x1)
     | Inr ack \<Rightarrow> cmap (\<lambda>a. (check_ack seqno a, x1)) (deref ack))"

text \<open>The messages before the data (\<open>pack_header\<close> packs sequence number, offset in the block, whether it is the last packet, and
  length), the data with its checksums, and the packet with its acknowledgement.\<close>

definition packet_head :: "(int \<Rightarrow> nat \<Rightarrow> bool \<Rightarrow> nat \<Rightarrow> bytes) \<Rightarrow> nat \<Rightarrow> nat \<Rightarrow> int \<Rightarrow> nat \<Rightarrow> nat \<Rightarrow> bytes list" where
  "packet_head pack_header n_checksums checksumlen seqno blockoffset len =
     (let packetlen = 4 + n_checksums * checksumlen + len;
          headerbuf = pack_header seqno blockoffset (len = 0) len
      in [net32 packetlen, net16 (length headerbuf), headerbuf])"

definition send_data :: "'w wire \<Rightarrow> (bytes \<Rightarrow> u32) \<Rightarrow> nat \<Rightarrow> nat \<Rightarrow> nat \<Rightarrow> buffer_pos \<Rightarrow> nat \<Rightarrow> 'w \<Rightarrow> (int \<times> 'w) cres" where
  "send_data w crc n_checksums checksumlen bpc from len x =
     (if len = 0 then Ret (0, x)
      else
        let packet = assemble (buffers from) 0 (bufferoffset from) len [] in
        if length packet < len then Undef Uninitialised
        else Ret (send_all w ((if 0 < checksumlen then packet_checksums crc n_checksums bpc packet else []) @ [packet]) x))"

definition send_packet :: "'w wire \<Rightarrow> (int \<Rightarrow> nat \<Rightarrow> bool \<Rightarrow> nat \<Rightarrow> bytes) \<Rightarrow> (bytes \<Rightarrow> pipeline_ack option) \<Rightarrow> (bytes \<Rightarrow> u32) \<Rightarrow>
    checksum_proto \<Rightarrow> int \<Rightarrow> buffer_pos \<Rightarrow> nat \<Rightarrow> nat \<Rightarrow> 'w \<Rightarrow> (int \<times> buffer_pos \<times> 'w) cres" where
  "send_packet w pack_header unpack_ack crc checksum seqno from len blockoffset x =
     (if \<not> bufferoffset from + len \<le> pos_len from then Undef Assertion_Failed
      else if ck_type checksum = CHECKSUM_CRC32 then Ret (- ENOSYS, from, x)
      else
        let checksumlen = (if ck_type checksum = CHECKSUM_CRC32C then 4 else 0) in
        cbind (roundup len (bytesperchecksum checksum)) (\<lambda>n_checksums.
        case send_all w (packet_head pack_header n_checksums checksumlen seqno blockoffset len) x of (res, x1) \<Rightarrow>
        if res < 0 then Ret (res, from, x1)
        else
          cbind (send_data w crc n_checksums checksumlen (bytesperchecksum checksum) from len x1) (\<lambda>(res, x2).
          if res < 0 then Ret (res, from, x2)
          else
            cmap (\<lambda>(res, x3). (res, from\<lparr>bufferoffset := bufferoffset from + len\<rparr>, x3)) (receive_ack w unpack_ack seqno x2))))"

text \<open>The length of the next packet: \<^verbatim>\<open>len - bytessent\<close> is an unsigned 64-bit difference.\<close>

definition next_packetlen :: "nat \<Rightarrow> nat \<Rightarrow> nat \<Rightarrow> nat \<Rightarrow> nat \<Rightarrow> nat" where
  "next_packetlen bpc len bytessent blockoffset packetsize =
     (let packetlen = min (nat ((int len - int bytessent) mod 2 ^ 64)) packetsize;
          bytespastboundary = (blockoffset + bytessent) mod bpc
      in if 0 < packetlen \<and> bytespastboundary \<noteq> 0 then bpc - bytespastboundary else packetlen)"

lemma send_packet_advances:
  assumes "send_packet w ph ua crc ck seqno from len off x = Ret (res, from1, x1)"
  shows "bufferoffset from + len \<le> pos_len from \<and> pos_len from1 = pos_len from \<and> buffers from1 = buffers from \<and>
    (0 \<le> res \<longrightarrow> bufferoffset from1 = bufferoffset from + len)"
proof (cases "bufferoffset from + len \<le> pos_len from \<and> ck_type ck \<noteq> CHECKSUM_CRC32")
  case False
  then show ?thesis
    using assms by (auto simp: send_packet_def ENOSYS_def split: if_splits)
next
  case True
  define cl :: nat where "cl = (if ck_type ck = CHECKSUM_CRC32C then 4 else 0)"
  obtain n where n: "roundup len (bytesperchecksum ck) = Ret n"
    using assms True by (cases "roundup len (bytesperchecksum ck)") (simp_all add: send_packet_def)
  obtain r y where y: "send_all w (packet_head ph n cl seqno off len) x = (r, y)" by fastforce
  show ?thesis
  proof (cases "r < 0")
    case True
    then show ?thesis
      using assms n y \<open>_ \<and> _\<close> by (auto simp: send_packet_def cl_def simp del: send_all.simps)
  next
    case False
    then obtain r' y' where "send_data w crc n cl (bytesperchecksum ck) from len y = Ret (r', y')"
      using assms n y \<open>_ \<and> _\<close>
      by (cases "send_data w crc n cl (bytesperchecksum ck) from len y") (auto simp: send_packet_def cl_def simp del: send_all.simps)
    then show ?thesis
      using assms n y \<open>_ \<and> _\<close> False
      by (cases "r' < 0") (auto simp: send_packet_def cl_def cmap_Ret_iff simp del: send_all.simps)
  qed
qed

function send_packets_loop :: "'w wire \<Rightarrow> (int \<Rightarrow> nat \<Rightarrow> bool \<Rightarrow> nat \<Rightarrow> bytes) \<Rightarrow> (bytes \<Rightarrow> pipeline_ack option) \<Rightarrow> (bytes \<Rightarrow> u32) \<Rightarrow>
    checksum_proto \<Rightarrow> nat \<Rightarrow> nat \<Rightarrow> nat \<Rightarrow> nat \<Rightarrow> int \<Rightarrow> buffer_pos \<Rightarrow> 'w \<Rightarrow> (int \<times> buffer_pos \<times> 'w) cres" where
  "send_packets_loop w ph ua crc checksum initial len blockoffset packetsize seqno from x =
     (let bytessent = bufferoffset from - initial;
          packetlen = next_packetlen (bytesperchecksum checksum) len bytessent blockoffset packetsize
      in cbind (send_packet w ph ua crc checksum seqno from packetlen (blockoffset + bytessent) x) (\<lambda>(res, from1, x1).
         if res < 0 then Ret (res, from1, x1)
         else if packetlen = 0 then Ret (0, from1, x1)
         else send_packets_loop w ph ua crc checksum initial len blockoffset packetsize (seqno + 1) from1 x1))"
  by pat_completeness auto
termination
proof (relation "measure (\<lambda>(_, _, _, _, _, _, _, _, _, _, from, _). pos_len from - bufferoffset from)", goal_cases)
  case 1
  then show ?case by simp
next
  case (2 w ph ua crc checksum initial len blockoffset packetsize seqno "from" x sent plen r res q from1 x1)
  then have "send_packet w ph ua crc checksum seqno from plen (blockoffset + sent) x = Ret (res, from1, x1)" by simp
  from send_packet_advances [OF this] 2 show ?case by auto
qed

declare send_packets_loop.simps [simp del]

definition hadoop_rpc_send_packets :: "'w wire \<Rightarrow> (int \<Rightarrow> nat \<Rightarrow> bool \<Rightarrow> nat \<Rightarrow> bytes) \<Rightarrow> (bytes \<Rightarrow> pipeline_ack option) \<Rightarrow> (bytes \<Rightarrow> u32) \<Rightarrow>
    buffer_pos \<Rightarrow> nat \<Rightarrow> nat \<Rightarrow> nat \<Rightarrow> checksum_proto \<Rightarrow> 'w \<Rightarrow> (int \<times> buffer_pos \<times> 'w) cres" where
  "hadoop_rpc_send_packets w ph ua crc from len blockoffset packetsize checksum x =
     (if bytesperchecksum checksum = 0 then Undef Division_By_Zero
      else send_packets_loop w ph ua crc checksum (bufferoffset from) len blockoffset packetsize 0 from x)"

section \<open>A packet is a piece of the data\<close>

fun content :: "fuse_buffer \<Rightarrow> bytes" where
  "content (Data d) = d"
| "content (Zeros n) = replicate n 0"

abbreviation contents :: "fuse_buffer list \<Rightarrow> bytes" where
  "contents bs \<equiv> concat (map content bs)"

lemma length_content [simp]: "length (content b) = buffer_len b"
  by (cases b) auto

lemma buffer_bytes_content:
  "offset + n \<le> buffer_len b \<Longrightarrow> buffer_bytes b offset n = take n (drop offset (content b))"
  by (cases b) auto

lemma take_drop_more:
  "length (take len (drop bo xs)) = len \<Longrightarrow> take len (drop bo (xs @ ys)) = take len (drop bo xs)"
  by simp

lemma assemble_from:
  "packet = take len (drop bo pre) \<Longrightarrow>
    assemble bs (length pre) bo len packet = take len (drop bo (pre @ contents bs))"
proof (induction bs arbitrary: pre packet)
  case (Cons b bs)
  show ?case
  proof (cases "length packet < len")
    case False
    then have "len \<le> length (drop bo pre)" using Cons.prems by simp
    then show ?thesis using False Cons.prems by simp
  next
    case True
    then have short: "packet = drop bo pre" "length pre - bo < len"
      using Cons.prems by auto
    define off where "off = bo - length pre"
    define n where "n = min (len - length packet) (buffer_len b - off)"
    have next_packet: "packet @ take n (drop off (content b)) = take len (drop bo (pre @ content b))"
      using short by (auto simp: n_def off_def min_def)
    have ih: "assemble bs (length pre + buffer_len b) bo len p = take len (drop bo (pre @ contents (b # bs)))"
      if "p = take len (drop bo (pre @ content b))" for p
      using Cons.IH [OF that] by simp
    show ?thesis
    proof (cases "length pre + buffer_len b > bo")
      case False
      then have "packet = take len (drop bo (pre @ content b))"
        using short by simp
      from ih [OF this] show ?thesis
        using True False by simp
    next
      case inside: True
      have o: "(if length pre > bo then 0 else bo - length pre) = off"
        by (simp add: off_def)
      have bytes: "buffer_bytes b off n = take n (drop off (content b))"
        using inside by (intro buffer_bytes_content) (auto simp: n_def off_def)
      have step: "assemble (b # bs) (length pre) bo len packet =
          (if n = len then buffer_bytes b off len
           else assemble bs (length pre + buffer_len b) bo len (packet @ buffer_bytes b off n))"
        using True inside by (simp add: Let_def o n_def)
      show ?thesis
      proof (cases "n = len")
        case True
        then have "len \<le> len - length packet" "len \<le> buffer_len b - off" by (simp_all add: n_def)
        then have "packet = []" using \<open>length packet < len\<close> by (cases packet) simp_all
        then have all: "buffer_bytes b off len = take len (drop bo (pre @ content b))"
          using next_packet bytes True by simp
        have "length (buffer_bytes b off len) = len"
          using \<open>len \<le> buffer_len b - off\<close> by (cases b) simp_all
        then show ?thesis
          using step True all take_drop_more [of len bo "pre @ content b" "contents bs"] by simp
      next
        case False
        then show ?thesis
          using step bytes ih [OF next_packet] by simp
      qed
    qed
  qed
qed simp

lemma assemble_take: "assemble bs 0 bo len [] = take len (drop bo (contents bs))"
  using assemble_from [of "[]" len bo "[]" bs] by simp

lemma roundup_ceiling:
  assumes "0 < bpc" and "len + bpc \<le> 2 ^ 32"
  shows "roundup len bpc = Ret ((len + bpc - 1) div bpc)"
  using assms by (simp add: roundup_def)

section \<open>What is sent\<close>

text \<open>
  The laws of a connection to a data node that acknowledges in order: a send succeeds and is recorded by \<open>sent\<close>; after \<open>acks\<close>
  acknowledgements the next one names that sequence number. Sequence numbers are tracked up to 32 bits.
\<close>

definition acking :: "'w wire \<Rightarrow> (bytes \<Rightarrow> pipeline_ack option) \<Rightarrow> ('w \<Rightarrow> bytes list) \<Rightarrow> ('w \<Rightarrow> nat) \<Rightarrow> bool" where
  "acking w ua sent acks \<longleftrightarrow>
     (\<forall>m x. \<exists>r x'. w_send w m x = (r, x') \<and> 0 \<le> r \<and> sent x' = sent x @ [m] \<and> acks x' = acks x) \<and>
     (\<forall>x. acks x < 2 ^ 32 \<longrightarrow> (\<exists>a x'. receive_proto w ua x = Ret (Inr (Some a), x') \<and> check_ack (int (acks x)) a = 0 \<and>
        sent x' = sent x \<and> acks x' = Suc (acks x)))"

text \<open>One packet, and the packets of some data: full packets, a shorter one and the empty one that ends the block.\<close>

definition frame :: "(int \<Rightarrow> nat \<Rightarrow> bool \<Rightarrow> nat \<Rightarrow> bytes) \<Rightarrow> (bytes \<Rightarrow> u32) \<Rightarrow> checksum_proto \<Rightarrow> int \<Rightarrow> nat \<Rightarrow> bytes \<Rightarrow> bytes list" where
  "frame ph crc ck seqno off d =
     (let cl = (if ck_type ck = CHECKSUM_CRC32C then 4 else 0);
          n = (length d + bytesperchecksum ck - 1) div bytesperchecksum ck
      in packet_head ph n cl seqno off (length d) @
         (if d = [] then [] else (if 0 < cl then packet_checksums crc n (bytesperchecksum ck) d else []) @ [d]))"

function packet_stream :: "(int \<Rightarrow> nat \<Rightarrow> bool \<Rightarrow> nat \<Rightarrow> bytes) \<Rightarrow> (bytes \<Rightarrow> u32) \<Rightarrow> checksum_proto \<Rightarrow> nat \<Rightarrow> int \<Rightarrow> nat \<Rightarrow> bytes \<Rightarrow> bytes list" where
  "packet_stream ph crc ck psize seqno off d =
     (if d = [] \<or> psize = 0 then frame ph crc ck seqno off []
      else frame ph crc ck seqno off (take psize d) @
        packet_stream ph crc ck psize (seqno + 1) (off + length (take psize d)) (drop psize d))"
  by pat_completeness auto
termination by (relation "measure (\<lambda>(_, _, _, _, _, _, d). length d)") auto

declare packet_stream.simps [simp del]

lemma acking_send_all:
  assumes "acking w ua sent acks"
  shows "\<exists>x'. send_all w ms x = (0, x') \<and> sent x' = sent x @ ms \<and> acks x' = acks x"
proof (induction ms arbitrary: x)
  case (Cons m ms)
  obtain r x1 where s: "w_send w m x = (r, x1)" "0 \<le> r" "sent x1 = sent x @ [m]" "acks x1 = acks x"
    using assms unfolding acking_def by meson
  with Cons.IH [of x1] show ?case by auto
qed simp

lemma acking_receive_ack:
  assumes "acking w ua sent acks" and "acks x < 2 ^ 32"
  shows "\<exists>x'. receive_ack w ua (int (acks x)) x = Ret (0, x') \<and> sent x' = sent x \<and> acks x' = Suc (acks x)"
proof -
  obtain a x' where "receive_proto w ua x = Ret (Inr (Some a), x')" "check_ack (int (acks x)) a = 0"
      "sent x' = sent x" "acks x' = Suc (acks x)"
    using assms unfolding acking_def by meson
  then show ?thesis by (simp add: receive_ack_def deref_def)
qed

definition pos_ok :: "buffer_pos \<Rightarrow> bool" where
  "pos_ok from \<longleftrightarrow> pos_len from = length (contents (buffers from))"

lemma send_packet_acked:
  assumes ack: "acking w ua sent acks" "acks x < 2 ^ 32"
    and pos: "pos_ok from" "bufferoffset from + len \<le> pos_len from"
    and ck: "ck_type ck \<noteq> CHECKSUM_CRC32" "0 < bytesperchecksum ck" "len + bytesperchecksum ck \<le> 2 ^ 32"
  shows "\<exists>x'. send_packet w ph ua crc ck (int (acks x)) from len off x = Ret (0, from\<lparr>bufferoffset := bufferoffset from + len\<rparr>, x') \<and>
    sent x' = sent x @ frame ph crc ck (int (acks x)) off (take len (drop (bufferoffset from) (contents (buffers from)))) \<and>
    acks x' = Suc (acks x)"
proof -
  define cl :: nat where "cl = (if ck_type ck = CHECKSUM_CRC32C then 4 else 0)"
  define n where "n = (len + bytesperchecksum ck - 1) div bytesperchecksum ck"
  define d where "d = take len (drop (bufferoffset from) (contents (buffers from)))"
  have len: "length d = len" using pos by (simp add: d_def pos_ok_def)
  have n: "roundup len (bytesperchecksum ck) = Ret n"
    using ck by (simp add: roundup_ceiling n_def)
  obtain x1 where x1: "send_all w (packet_head ph n cl (int (acks x)) off len) x = (0, x1)"
      "sent x1 = sent x @ packet_head ph n cl (int (acks x)) off len" "acks x1 = acks x"
    using acking_send_all [OF ack(1)] by meson
  define ms where "ms = (if d = [] then [] else (if 0 < cl then packet_checksums crc n (bytesperchecksum ck) d else []) @ [d])"
  obtain x2 where x2: "send_all w ms x1 = (0, x2)" "sent x2 = sent x1 @ ms" "acks x2 = acks x1"
    using acking_send_all [OF ack(1)] by meson
  have data: "send_data w crc n cl (bytesperchecksum ck) from len x1 = Ret (0, x2)"
  proof (cases "d = []")
    case True
    then show ?thesis using len x2 by (simp add: send_data_def ms_def)
  next
    case False
    then show ?thesis
      using len x2(1) unfolding send_data_def assemble_take d_def [symmetric] by (auto simp: ms_def Let_def simp del: send_all.simps)
  qed
  have seq: "acks x2 = acks x" using x1(3) x2(3) by simp
  obtain x3 where x3: "receive_ack w ua (int (acks x)) x2 = Ret (0, x3)" "sent x3 = sent x2" "acks x3 = Suc (acks x)"
    using acking_receive_ack [OF ack(1), of x2] ack(2) unfolding seq by auto
  have "send_packet w ph ua crc ck (int (acks x)) from len off x = Ret (0, from\<lparr>bufferoffset := bufferoffset from + len\<rparr>, x3)"
    unfolding send_packet_def cl_def [symmetric] Let_def
    by (simp only: pos(2) ck(1) n x1(1) data x3(1) cbind.simps cmap.simps not_True_eq_False if_False prod.case less_irrefl)
  moreover have "frame ph crc ck (int (acks x)) off d = packet_head ph n cl (int (acks x)) off len @ ms"
    by (simp add: frame_def len cl_def n_def ms_def Let_def)
  ultimately show ?thesis
    using x1(2) x2(2) x3(2,3) unfolding d_def [symmetric] by simp
qed

lemma next_packetlen_aligned:
  assumes "sent \<le> len" "len < 2 ^ 64" "sent = len \<or> (off + sent) mod bpc = 0"
  shows "next_packetlen bpc len sent off psize = min (len - sent) psize"
proof -
  have "int len - int sent = int (len - sent)" using assms(1) by simp
  moreover have "nat (int (len - sent) mod 2 ^ 64) = len - sent"
    using assms(2) by (subst mod_pos_pos_trivial) auto
  ultimately have "nat ((int len - int sent) mod 2 ^ 64) = len - sent" by (simp only:)
  then show ?thesis
    unfolding next_packetlen_def Let_def using assms(3) by auto
qed

end
