(* ===== verification/Hadoop_Packets.thy ===== *)
theory Hadoop_Packets
  imports Hadoop_Rpc
begin

text \<open>
  Sending and receiving the packets of a block (\<^verbatim>\<open>hadoop_rpc_send_packets\<close>, \<^verbatim>\<open>hadoop_rpc_receive_packets\<close>): what is
  sent is the data in packets that carry the right checksums, whatever buffers it comes from, and the receiver gets it back.
\<close>

section \<open>Receiving packets\<close>

text \<open>The fields of a packet header the code reads.\<close>

record packet_header =
  datalen :: int
  lastpacketinblock :: bool

text \<open>\<^verbatim>\<open>ntohs\<close> of two received bytes, and a receive into the caller's buffer at a position.\<close>

definition ntohs :: "bytes \<Rightarrow> nat" where
  "ntohs b = 256 * unat (b ! 0) + unat (b ! 1)"

definition recv_into :: "'w wire \<Rightarrow> nat \<Rightarrow> bytes \<Rightarrow> nat \<Rightarrow> 'w \<Rightarrow> (int \<times> bytes \<times> 'w) cres" where
  "recv_into w n to pos x =
     (case w_recv w n x of ((res, b), x1) \<Rightarrow>
      if res < 0 then Ret (res, to, x1)
      else cmap (\<lambda>(to1, _). (res, to1, x1)) (copy_with_offset to (take n b) pos))"

text \<open>The loop that skips bytes; \<open>len\<close> is positive where it is reached, since the loop around it stops otherwise.\<close>

function skip_loop :: "'w wire \<Rightarrow> nat \<Rightarrow> nat \<Rightarrow> nat \<Rightarrow> bytes \<Rightarrow> nat \<Rightarrow> 'w \<Rightarrow> (int \<times> nat \<times> nat \<times> bytes \<times> 'w) cres" where
  "skip_loop w skipbytes available len to pos x =
     (if 0 < skipbytes \<and> 0 < available \<and> 0 < len then
        let skipped = min (min available skipbytes) len in
        cbind (recv_into w skipped to pos x) (\<lambda>(res, to1, x1).
        if res < 0 then Ret (res, skipbytes, available, to1, x1)
        else skip_loop w (skipbytes - skipped) (available - skipped) len to1 pos x1)
      else Ret (0, skipbytes, available, to, x))"
  by pat_completeness auto
termination by (relation "measure (\<lambda>(_, skip, _). skip)") (auto simp: min_def)

declare skip_loop.simps [simp del]

text \<open>The position in a transfer: whether more packets follow, the bytes to skip, the bytes wanted, the buffer and the place in it.\<close>

record transfer =
  t_more :: bool
  t_skip :: nat
  t_len :: nat
  t_to :: bytes
  t_pos :: nat

definition receive_header :: "'w wire \<Rightarrow> (bytes \<Rightarrow> packet_header option) \<Rightarrow> 'w \<Rightarrow> ((int + packet_header) \<times> 'w) cres" where
  "receive_header w unpack_header x =
     cbind (recv_all w 4 x) (\<lambda>(r, x1). case r of Inl res \<Rightarrow> Ret (Inl res, x1) | Inr _ \<Rightarrow>
     cbind (recv_all w 2 x1) (\<lambda>(r, x2). case r of Inl res \<Rightarrow> Ret (Inl res, x2) | Inr headerlen \<Rightarrow>
     cbind (recv_all w (ntohs headerlen) x2) (\<lambda>(r, x3). case r of Inl res \<Rightarrow> Ret (Inl res, x3) | Inr headerbuf \<Rightarrow>
     cmap (\<lambda>h. (Inr h, x3)) (deref (unpack_header headerbuf)))))"

text \<open>The body of the loop; the integer is negative when the function returns it.\<close>

definition receive_packet :: "'w wire \<Rightarrow> (bytes \<Rightarrow> packet_header option) \<Rightarrow> transfer \<Rightarrow> 'w \<Rightarrow> (int \<times> transfer \<times> 'w) cres" where
  "receive_packet w unpack_header t x =
     cbind (receive_header w unpack_header x) (\<lambda>(r, x1).
     case r of
       Inl res \<Rightarrow> Ret (res, t, x1)
     | Inr h \<Rightarrow>
         let t1 = t\<lparr>t_more := \<not> lastpacketinblock h\<rparr> in
         cbind (skip_loop w (t_skip t1) (nat (datalen h mod 2 ^ 64)) (t_len t1) (t_to t1) (t_pos t1) x1) (\<lambda>(res, skip, available, to, x2).
         let t2 = t1\<lparr>t_skip := skip, t_to := to\<rparr> in
         if res < 0 then Ret (res, t2, x2)
         else if 0 < available then
           let n = min available (t_len t2) in
           cmap (\<lambda>(res, to1, x3).
             if res < 0 then (res, t2\<lparr>t_to := to1\<rparr>, x3)
             else (0, t2\<lparr>t_to := to1, t_len := t_len t2 - n, t_pos := t_pos t2 + n\<rparr>, x3))
           (recv_into w n (t_to t2) (t_pos t2) x2)
         else Ret (0, t2, x2)))"

text \<open>The loop over the packets. A data node can keep sending empty packets, so it need not end: then the value is \<open>None\<close>.\<close>

partial_function (option) receive_loop :: "'w wire \<Rightarrow> (bytes \<Rightarrow> packet_header option) \<Rightarrow> transfer \<Rightarrow> 'w \<Rightarrow> (int \<times> transfer \<times> 'w) cres option" where
  "receive_loop w uh t x =
     (if t_more t \<and> 0 < t_len t then
        case receive_packet w uh t x of
          Ret r \<Rightarrow> if fst r < 0 then Some (Ret r) else receive_loop w uh (fst (snd r)) (snd (snd r))
        | Undef u \<Rightarrow> Some (Undef u)
        | Exited \<Rightarrow> Some Exited
      else Some (Ret (0, t, x)))"

text \<open>\<open>ack_msg\<close> is the packed status message that ends the transfer; the caller's buffer comes back.\<close>

definition hadoop_rpc_receive_packets :: "'w wire \<Rightarrow> (bytes \<Rightarrow> packet_header option) \<Rightarrow> bytes \<Rightarrow> nat \<Rightarrow> nat \<Rightarrow> bytes \<Rightarrow> 'w \<Rightarrow>
    (int \<times> bytes \<times> 'w) cres option" where
  "hadoop_rpc_receive_packets w uh ack_msg skipbytes len to x =
     map_option (\<lambda>c.
       cbind c (\<lambda>(res, t, x1).
       if res < 0 then Ret (res, t_to t, x1)
       else
         cmap (\<lambda>buf. case hadoop_rpc_send w buf x1 of (res, x2) \<Rightarrow> (if res < 0 then res else 0, t_to t, x2)) (PACK ack_msg)))
     (receive_loop w uh \<lparr>t_more = True, t_skip = skipbytes, t_len = len, t_to = to, t_pos = 0\<rparr> x)"

section \<open>Sending\<close>

lemma send_packets_loop_sends:
  assumes ack: "acking w ua sent acks"
    and ck: "ck_type ck \<noteq> CHECKSUM_CRC32" "0 < bytesperchecksum ck" "psize + bytesperchecksum ck \<le> 2 ^ 32"
    and psize: "0 < psize" "bytesperchecksum ck dvd psize"
    and len: "len < 2 ^ 64" "pos_ok from" "initial + len \<le> pos_len from"
    and at: "bufferoffset from = initial + n" "n \<le> len" "n = len \<or> bytesperchecksum ck dvd off + n"
    and d: "d = take (len - n) (drop (initial + n) (contents (buffers from)))"
    and seq: "acks x + length d < 2 ^ 32"
  shows "\<exists>x'. send_packets_loop w ph ua crc ck initial len off psize (int (acks x)) from x = Ret (0, from\<lparr>bufferoffset := initial + len\<rparr>, x') \<and>
    sent x' = sent x @ packet_stream ph crc ck psize (int (acks x)) (off + n) d"
  using at d seq len(2,3)
proof (induction "length d" arbitrary: n d x "from" rule: less_induct)
  case less
  have ld: "length d = len - n"
    using less.prems by (simp add: pos_ok_def)
  define m where "m = min (len - n) psize"
  have m: "next_packetlen (bytesperchecksum ck) len n off psize = m"
    unfolding m_def using less.prems(2,3) len(1) by (intro next_packetlen_aligned) (auto simp: dvd_eq_mod_eq_0)
  have bs: "bufferoffset from - initial = n" using less.prems(1) by simp
  have fits: "bufferoffset from + m \<le> pos_len from" "m + bytesperchecksum ck \<le> 2 ^ 32" "acks x < 2 ^ 32"
    using less.prems ck by (auto simp: m_def)
  have piece: "take m (drop (bufferoffset from) (contents (buffers from))) = take m d"
    using less.prems by (simp add: m_def)
  obtain x1 where x1: "send_packet w ph ua crc ck (int (acks x)) from m (off + n) x = Ret (0, from\<lparr>bufferoffset := bufferoffset from + m\<rparr>, x1)"
      "sent x1 = sent x @ frame ph crc ck (int (acks x)) (off + n) (take m d)" "acks x1 = Suc (acks x)"
    using send_packet_acked [OF ack fits(3) less.prems(6) fits(1) ck(1,2) fits(2), of ph crc "off + n"] unfolding piece by blast
  note step = send_packets_loop.simps [of w ph ua crc ck initial len off psize "int (acks x)" "from" x, unfolded bs m Let_def x1(1) cbind.simps prod.case]
  show ?case
  proof (cases "m = 0")
    case True
    then have "n = len" "d = []" using ld less.prems psize by (auto simp: m_def)
    then show ?thesis
      using step x1 True less.prems(1) by (simp add: packet_stream.simps)
  next
    case False
    let ?from = "from\<lparr>bufferoffset := bufferoffset from + m\<rparr>"
    have "\<exists>x'. send_packets_loop w ph ua crc ck initial len off psize (int (acks x1)) ?from x1 =
          Ret (0, ?from\<lparr>bufferoffset := initial + len\<rparr>, x') \<and>
        sent x' = sent x1 @ packet_stream ph crc ck psize (int (acks x1)) (off + (n + m)) (drop m d)"
    proof (rule less.hyps)
      have "m \<le> length d" by (simp add: m_def ld)
      then show "length (drop m d) < length d" using False by simp
      show "n + m = len \<or> bytesperchecksum ck dvd off + (n + m)"
        using less.prems(3) psize False by (auto simp: m_def min_def add.assoc [symmetric])
      show "drop m d = take (len - (n + m)) (drop (initial + (n + m)) (contents (buffers ?from)))"
        using less.prems by (simp add: drop_take add.commute add.left_commute)
    qed (use less.prems False x1(3) ld in \<open>auto simp: m_def pos_ok_def\<close>)
    moreover have "packet_stream ph crc ck psize (int (acks x)) (off + n) d =
        frame ph crc ck (int (acks x)) (off + n) (take m d) @ packet_stream ph crc ck psize (int (acks x) + 1) (off + (n + m)) (drop m d)"
    proof -
      have "d \<noteq> []" "take psize d = take m d" "drop psize d = drop m d" "length (take m d) = m"
        using False ld by (auto simp: m_def min_def)
      then show ?thesis using psize by (subst packet_stream.simps) (simp add: add.assoc)
    qed
    ultimately show ?thesis
      using step False x1(2,3) by (auto simp: add.commute)
  qed
qed


lemma send_packets_sends:
  assumes "acking w ua sent acks" and "acks x = 0"
    and "ck_type ck \<noteq> CHECKSUM_CRC32" "0 < bytesperchecksum ck" "psize + bytesperchecksum ck \<le> 2 ^ 32"
    and "0 < psize" "bytesperchecksum ck dvd psize" "bytesperchecksum ck dvd off"
    and "len < 2 ^ 32" "pos_ok from" "bufferoffset from + len \<le> pos_len from"
  shows "\<exists>x'. hadoop_rpc_send_packets w ph ua crc from len off psize ck x = Ret (0, from\<lparr>bufferoffset := bufferoffset from + len\<rparr>, x') \<and>
    sent x' = sent x @ packet_stream ph crc ck psize 0 off (take len (drop (bufferoffset from) (contents (buffers from))))"
  using send_packets_loop_sends [OF assms(1,3-7), of len "from" "bufferoffset from" 0 off "take len (drop (bufferoffset from) (contents (buffers from)))" x ph crc] assms
  by (simp add: hadoop_rpc_send_packets_def)

section \<open>Receiving\<close>

text \<open>The laws of a byte stream: a receive takes the next bytes of \<open>pending\<close> while there are enough, and a send succeeds.\<close>

definition byte_stream :: "'w wire \<Rightarrow> ('w \<Rightarrow> bytes) \<Rightarrow> bool" where
  "byte_stream w pending \<longleftrightarrow>
     (\<forall>n x. n \<le> length (pending x) \<longrightarrow> (\<exists>x'. w_recv w n x = ((int n, take n (pending x)), x') \<and> pending x' = drop n (pending x))) \<and>
     (\<forall>m x. \<exists>r x'. w_send w m x = (r, x') \<and> 0 \<le> r \<and> pending x' = pending x)"

definition header_codec :: "(int \<Rightarrow> nat \<Rightarrow> bool \<Rightarrow> nat \<Rightarrow> bytes) \<Rightarrow> (bytes \<Rightarrow> packet_header option) \<Rightarrow> bool" where
  "header_codec ph uh \<longleftrightarrow> (\<forall>seqno off lst n. n < 2 ^ 31 \<longrightarrow> length (ph seqno off lst n) < 65536 \<and>
     uh (ph seqno off lst n) = Some \<lparr>datalen = int n, lastpacketinblock = lst\<rparr>)"

lemma stream_recv_all:
  assumes "byte_stream w pending" and "pending x = b @ rest"
  shows "\<exists>x'. recv_all w (length b) x = Ret (Inr b, x') \<and> pending x' = rest"
proof -
  have "length b \<le> length (pending x)" using assms(2) by simp
  then obtain x' where "w_recv w (length b) x = ((int (length b), take (length b) (pending x)), x')" "pending x' = drop (length b) (pending x)"
    using assms(1) unfolding byte_stream_def by meson
  then show ?thesis using assms(2) by (auto simp: recv_all_def)
qed

lemma stream_recv_into:
  assumes "byte_stream w pending" and "pending x = b @ rest" and "to = pre @ old" "length pre = pos" "length b \<le> length old"
  shows "\<exists>x'. recv_into w (length b) to pos x = Ret (int (length b), pre @ b @ drop (length b) old, x') \<and> pending x' = rest"
proof -
  have "length b \<le> length (pending x)" using assms(2) by simp
  then obtain x' where "w_recv w (length b) x = ((int (length b), take (length b) (pending x)), x')" "pending x' = drop (length b) (pending x)"
    using assms(1) unfolding byte_stream_def by meson
  then show ?thesis using assms(2-) by (auto simp: recv_into_def copy_with_offset_def)
qed

lemma ntohs_net16: "n < 65536 \<Longrightarrow> ntohs (net16 n) = n"
  by (simp add: ntohs_def net16_def unat_of_nat)

lemma length_net [simp]: "length (net32 n) = 4" "length (net16 n) = 2"
  by (simp_all add: net32_def net16_def htonl_def)

lemma stream_receive_header:
  assumes st: "byte_stream w pending" and hc: "header_codec ph uh" and d: "length d < 2 ^ 31" and ck: "ck_type ck = CHECKSUM_NULL"
    and p: "pending x = concat (frame ph crc ck seqno off d) @ rest"
  shows "\<exists>x'. receive_header w uh x = Ret (Inr \<lparr>datalen = int (length d), lastpacketinblock = (d = [])\<rparr>, x') \<and> pending x' = d @ rest"
proof -
  define n where "n = (length d + bytesperchecksum ck - 1) div bytesperchecksum ck"
  define h where "h = ph seqno off (d = []) (length d)"
  have h: "length h < 65536" "uh h = Some \<lparr>datalen = int (length d), lastpacketinblock = (d = [])\<rparr>"
    using hc d by (auto simp: header_codec_def h_def)
  have p': "pending x = net32 (4 + length d) @ net16 (length h) @ h @ d @ rest"
    using p ck by (simp add: frame_def packet_head_def Let_def h_def)
  obtain x1 where x1: "recv_all w 4 x = Ret (Inr (net32 (4 + length d)), x1)" "pending x1 = net16 (length h) @ h @ d @ rest"
    using stream_recv_all [OF st p'] by auto
  obtain x2 where x2: "recv_all w 2 x1 = Ret (Inr (net16 (length h)), x2)" "pending x2 = h @ d @ rest"
    using stream_recv_all [OF st x1(2)] by auto
  obtain x3 where x3: "recv_all w (length h) x2 = Ret (Inr h, x3)" "pending x3 = d @ rest"
    using stream_recv_all [OF st x2(2)] by auto
  show ?thesis
    using x1(1) x2(1) x3 h by (simp add: receive_header_def ntohs_net16 deref_def)
qed


lemma stream_skip:
  assumes st: "byte_stream w pending"
  shows "pending x = d @ rest \<Longrightarrow> 0 < len \<Longrightarrow> length to = pos + len \<Longrightarrow>
    \<exists>to' x'. skip_loop w s (length d) len to pos x = Ret (0, s - length d, length d - s, to', x') \<and>
      pending x' = drop s d @ rest \<and> length to' = length to \<and> take pos to' = take pos to"
proof (induction s arbitrary: d to x rule: less_induct)
  case (less s)
  show ?case
  proof (cases "0 < s \<and> d \<noteq> []")
    case False
    then show ?thesis using less.prems by (auto simp: skip_loop.simps [of w s])
  next
    case True
    define k where "k = min (min (length d) s) len"
    have k: "0 < k" "k \<le> s" "k \<le> length d" "k \<le> len" using True less.prems by (auto simp: k_def)
    have "pending x = take k d @ drop k d @ rest" using less.prems by simp
    from stream_recv_into [OF st this, of to "take pos to" "drop pos to" pos] k less.prems
    obtain x1 where x1: "recv_into w k to pos x = Ret (int k, take pos to @ take k d @ drop k (drop pos to), x1)" "pending x1 = drop k d @ rest"
      by auto
    let ?to = "take pos to @ take k d @ drop k (drop pos to)"
    have "s - k < s" using k by simp
    from less.IH [OF this x1(2) less.prems(2), of ?to] k less.prems
    obtain to' x' where ih: "skip_loop w (s - k) (length d - k) len ?to pos x1 = Ret (0, s - k - (length d - k), length d - k - (s - k), to', x')"
        "pending x' = drop (s - k) (drop k d) @ rest" "length to' = length to" "take pos to' = take pos to"
      by auto
    have "skip_loop w s (length d) len to pos x = skip_loop w (s - k) (length d - k) len ?to pos x1"
      using True less.prems(2) x1(1) by (subst skip_loop.simps) (simp add: k_def [symmetric])
    then show ?thesis using ih k by auto
  qed
qed

lemma stream_receive_packet:
  assumes st: "byte_stream w pending" and hc: "header_codec ph uh" and d: "length d < 2 ^ 31" "d \<noteq> []" and ck: "ck_type ck = CHECKSUM_NULL"
    and p: "pending x = concat (frame ph crc ck seqno off d) @ rest"
    and t: "0 < t_len t" "length (t_to t) = t_pos t + t_len t"
    and n: "n = min (length d - t_skip t) (t_len t)"
  shows "\<exists>t' x'. receive_packet w uh t x = Ret (0, t', x') \<and> t_more t' \<and> t_skip t' = t_skip t - length d \<and> t_len t' = t_len t - n \<and>
    t_pos t' = t_pos t + n \<and> length (t_to t') = length (t_to t) \<and>
    take (t_pos t + n) (t_to t') = take (t_pos t) (t_to t) @ take n (drop (t_skip t) d) \<and>
    pending x' = drop n (drop (t_skip t) d) @ rest"
proof -
  obtain x1 where x1: "receive_header w uh x = Ret (Inr \<lparr>datalen = int (length d), lastpacketinblock = False\<rparr>, x1)" "pending x1 = d @ rest"
    using stream_receive_header [OF st hc d(1) ck p] d(2) by auto
  obtain to1 x2 where x2: "skip_loop w (t_skip t) (length d) (t_len t) (t_to t) (t_pos t) x1 = Ret (0, t_skip t - length d, length d - t_skip t, to1, x2)"
      "pending x2 = drop (t_skip t) d @ rest" "length to1 = length (t_to t)" "take (t_pos t) to1 = take (t_pos t) (t_to t)"
    using stream_skip [OF st x1(2) t] by blast
  have "int (length d) mod 2 ^ 64 = int (length d)" using d(1) by (intro mod_pos_pos_trivial) auto
  then have avail: "nat (int (length d) mod 2 ^ 64) = length d" by (simp only: nat_int)
  show ?thesis
  proof (cases "length d - t_skip t = 0")
    case True
    then show ?thesis
      unfolding receive_packet_def using x1(1) x2 avail n by (simp add: Let_def)
  next
    case False
    have "pending x2 = take n (drop (t_skip t) d) @ drop n (drop (t_skip t) d) @ rest"
      using x2(2) by (simp only: append_assoc [symmetric] append_take_drop_id)
    from stream_recv_into [OF st this, of to1 "take (t_pos t) to1" "drop (t_pos t) to1" "t_pos t"] t x2(3) n
    obtain x3 where x3: "recv_into w n to1 (t_pos t) x2 =
          Ret (int n, take (t_pos t) to1 @ take n (drop (t_skip t) d) @ drop n (drop (t_pos t) to1), x3)"
        "pending x3 = drop n (drop (t_skip t) d) @ rest"
      by auto
    have pos: "length (take (t_pos t) (t_to t)) = t_pos t" using t by simp
    have "receive_packet w uh t x = Ret (0, t\<lparr>t_more := True, t_skip := t_skip t - length d, t_len := t_len t - n, t_pos := t_pos t + n,
        t_to := take (t_pos t) to1 @ take n (drop (t_skip t) d) @ drop n (drop (t_pos t) to1)\<rparr>, x3)"
      unfolding receive_packet_def using x1(1) x2(1) x3(1) avail False by (simp add: Let_def n [symmetric])
    then show ?thesis
      using x3(2) x2(3,4) t n by auto
  qed
qed


lemma receive_loop_stop:
  "\<not> (t_more t \<and> 0 < t_len t) \<Longrightarrow> receive_loop w uh t x = Some (Ret (0, t, x))"
  by (subst receive_loop.simps) auto

lemma receive_loop_step:
  "t_more t \<Longrightarrow> 0 < t_len t \<Longrightarrow> receive_packet w uh t x = Ret (0, t1, x1) \<Longrightarrow> receive_loop w uh t x = receive_loop w uh t1 x1"
  by (subst receive_loop.simps) simp

text \<open>Skipping and taking from data whose first piece \<open>p\<close> is consumed.\<close>

lemma take_drop_pieces:
  assumes "s + l \<le> length (p @ q)" and "n = min (length p - s) l"
  shows "take l (drop s (p @ q)) = take n (drop s p) @ take (l - n) (drop (s - length p) q)"
    and "0 < l - n \<Longrightarrow> s - length p + (l - n) \<le> length q \<and> n = length p - s"
  using assms by (auto simp: min_def split: if_splits)

lemma stream_receive_loop:
  assumes st: "byte_stream w pending" and hc: "header_codec ph uh" and ck: "ck_type ck = CHECKSUM_NULL"
    and psize: "0 < psize" "psize < 2 ^ 31"
  shows "pending x = concat (packet_stream ph crc ck psize seqno off d) @ rest \<Longrightarrow> t_more t \<Longrightarrow> t_skip t + t_len t \<le> length d \<Longrightarrow>
    length (t_to t) = t_pos t + t_len t \<Longrightarrow>
    \<exists>t' x'. receive_loop w uh t x = Some (Ret (0, t', x')) \<and> t_to t' = take (t_pos t) (t_to t) @ take (t_len t) (drop (t_skip t) d)"
proof (induction "length d" arbitrary: d seqno off t x rule: less_induct)
  case less
  show ?case
  proof (cases "t_len t = 0")
    case True
    then show ?thesis using less.prems by (simp add: receive_loop_stop)
  next
    case False
    define p q where "p = take psize d" and "q = drop psize d"
    have pq: "d = p @ q" "p \<noteq> []" "length p < 2 ^ 31" "length q < length d"
      using False less.prems psize by (auto simp: p_def q_def)
    define n where "n = min (length p - t_skip t) (t_len t)"
    have "d \<noteq> []" using pq by auto
    then have "pending x = concat (frame ph crc ck seqno off p) @ (concat (packet_stream ph crc ck psize (seqno + 1) (off + length p) q) @ rest)"
      using less.prems(1) psize unfolding p_def q_def by (subst (asm) packet_stream.simps) simp
    from stream_receive_packet [OF st hc pq(3,2) ck this _ less.prems(4) n_def] False
    obtain t1 x1 where t1: "receive_packet w uh t x = Ret (0, t1, x1)" "t_more t1" "t_skip t1 = t_skip t - length p" "t_len t1 = t_len t - n"
        "t_pos t1 = t_pos t + n" "length (t_to t1) = length (t_to t)"
        "take (t_pos t + n) (t_to t1) = take (t_pos t) (t_to t) @ take n (drop (t_skip t) p)"
        "pending x1 = drop n (drop (t_skip t) p) @ concat (packet_stream ph crc ck psize (seqno + 1) (off + length p) q) @ rest"
      by auto
    have step: "receive_loop w uh t x = receive_loop w uh t1 x1"
      using t1(1) less.prems(2) False by (intro receive_loop_step) auto
    have n_le: "n \<le> t_len t" by (simp add: n_def)
    note pieces = take_drop_pieces [of "t_skip t" "t_len t" p q n, OF _ n_def]
    have fits: "t_skip t + t_len t \<le> length (p @ q)" using less.prems(3) pq(1) by simp
    show ?thesis
    proof (cases "t_len t1 = 0")
      case True
      then have "t_to t1 = take (t_pos t) (t_to t) @ take n (drop (t_skip t) p)"
        using t1(4-7) less.prems(4) n_le by simp
      then show ?thesis
        using step True pieces(1) [OF fits] t1(4) pq(1) by (simp add: receive_loop_stop)
    next
      case False
      then have more: "t_skip t1 + t_len t1 \<le> length q" "n = length p - t_skip t"
        using pieces(2) [OF fits] t1(3,4) by auto
      have "pending x1 = concat (packet_stream ph crc ck psize (seqno + 1) (off + length p) q) @ rest"
        using t1(8) more(2) by simp
      from less.hyps [OF pq(4) this t1(2) more(1)] obtain t' x' where
          "receive_loop w uh t1 x1 = Some (Ret (0, t', x'))" "t_to t' = take (t_pos t1) (t_to t1) @ take (t_len t1) (drop (t_skip t1) q)"
        using t1(4-6) less.prems(4) n_le by auto
      then show ?thesis
        using step pieces(1) [OF fits] t1(3-5,7) pq(1) by simp
    qed
  qed
qed

lemma PACK_varint: "PACK msg = Ret (varint (unat (ucast (of_nat (length msg) :: u32) :: u64)) @ msg)"
  using varint_length_u64 by (simp add: PACK_def encode_unsigned_varint_def encode_loop_varint)

lemma stream_receive_packets:
  assumes "byte_stream w pending" "header_codec ph uh" "ck_type ck = CHECKSUM_NULL" "0 < psize" "psize < 2 ^ 31"
    and "pending x = concat (packet_stream ph crc ck psize seqno off d)" "s + n \<le> length d" "length to = n"
  shows "\<exists>x'. hadoop_rpc_receive_packets w uh ack_msg s n to x = Some (Ret (0, take n (drop s d), x'))"
proof -
  obtain t x1 where "receive_loop w uh \<lparr>t_more = True, t_skip = s, t_len = n, t_to = to, t_pos = 0\<rparr> x = Some (Ret (0, t, x1))"
      "t_to t = take n (drop s d)"
    using stream_receive_loop [OF assms(1-5), of x crc seqno off d "[]" "\<lparr>t_more = True, t_skip = s, t_len = n, t_to = to, t_pos = 0\<rparr>"] assms(6-8)
    by auto
  moreover obtain r x2 where "w_send w (varint (unat (ucast (of_nat (length ack_msg) :: u32) :: u64)) @ ack_msg) x1 = (r, x2)" "0 \<le> r"
    using assms(1) unfolding byte_stream_def by meson
  ultimately show ?thesis
    by (simp add: hadoop_rpc_receive_packets_def PACK_varint hadoop_rpc_send_def)
qed

end
