(* ===== verification/Hdfs_Protocol.thy ===== *)
theory Hdfs_Protocol
  imports Hadoop_Packets
begin

text \<open>
  The messages of HDFS that \<^verbatim>\<open>usfs_wrap/hdfs/hdfs_wrap.c\<close> uses (\<^verbatim>\<open>usfs_wrap/hdfs/proto\<close>), the functions of
  \<^verbatim>\<open>hadooprpc.h\<close> it calls, as a record, and the record that the functions of \<^verbatim>\<open>hadooprpc.c\<close> make. Numbers of the messages are natural
  numbers; a message has the fields that the code sets or reads.
\<close>

section \<open>Messages\<close>

record extended_block =
  eb_poolid :: string
  eb_blockid :: nat
  eb_generationstamp :: nat
  eb_has_numbytes :: bool
  eb_numbytes :: nat

record datanode_id =
  ipaddr :: string
  xferport :: nat

record located_block =
  lb_b :: extended_block
  lb_offset :: nat
  lb_locs :: "datanode_id list"
  lb_corrupt :: bool
  lb_blocktoken :: bytes
  lb_storageids :: "string list"

record located_blocks =
  lbs_filelength :: nat
  lbs_blocks :: "located_block list"
  lbs_underconstruction :: bool

datatype file_type = IS_DIR | IS_FILE | IS_SYMLINK | IS_OTHER

text \<open>The status of a file; \<open>None\<close> is a null pointer, or an optional number without its \<^verbatim>\<open>has_\<close> flag.\<close>

record file_status =
  fst_filetype :: file_type
  fst_path :: bytes
  fst_length :: nat
  fst_permission :: "nat option"
  fst_owner :: "string option"
  fst_group :: "string option"
  fst_modification_time :: nat
  fst_access_time :: nat
  fst_block_replication :: nat
  fst_blocksize :: "nat option"
  fst_fileid :: "nat option"

record server_defaults =
  sd_blocksize :: nat
  sd_bytesperchecksum :: nat
  sd_writepacketsize :: nat
  sd_replication :: nat
  sd_checksumtype :: "checksum_type option"

datatype create_flag = CF_CREATE | CF_OVERWRITE

text \<open>The requests to the name node, in the order of the code.\<close>

datatype nn_request =
    Nn_complete string string bool nat "extended_block option"
  | Nn_create string string bool "nat option" create_flag nat nat
  | Nn_append string string
  | Nn_updateBlockForPipeline string extended_block
  | Nn_updatePipeline string extended_block extended_block "datanode_id list" "string list"
  | Nn_addBlock string string "extended_block option" bool nat
  | Nn_abandonBlock string string extended_block
  | Nn_getFileInfo string
  | Nn_getLinkTarget string
  | Nn_setTimes string int int
  | Nn_setOwner string "string option" "string option"
  | Nn_createSymlink string string nat bool
  | Nn_rename string string
  | Nn_setPermission string nat
  | Nn_getFsStats
  | Nn_delete string bool
  | Nn_mkdirs string nat bool
  | Nn_getListing string bytes bool
  | Nn_fsync string string
  | Nn_getBlockLocations string nat nat
  | Nn_getServerDefaults
  | Nn_renewLease string

fun method_name :: "nn_request \<Rightarrow> string" where
  "method_name (Nn_complete _ _ _ _ _) = ''complete''"
| "method_name (Nn_create _ _ _ _ _ _ _) = ''create''"
| "method_name (Nn_append _ _) = ''append''"
| "method_name (Nn_updateBlockForPipeline _ _) = ''updateBlockForPipeline''"
| "method_name (Nn_updatePipeline _ _ _ _ _) = ''updatePipeline''"
| "method_name (Nn_addBlock _ _ _ _ _) = ''addBlock''"
| "method_name (Nn_abandonBlock _ _ _) = ''abandonBlock''"
| "method_name (Nn_getFileInfo _) = ''getFileInfo''"
| "method_name (Nn_getLinkTarget _) = ''getLinkTarget''"
| "method_name (Nn_setTimes _ _ _) = ''setTimes''"
| "method_name (Nn_setOwner _ _ _) = ''setOwner''"
| "method_name (Nn_createSymlink _ _ _ _) = ''createSymlink''"
| "method_name (Nn_rename _ _) = ''rename''"
| "method_name (Nn_setPermission _ _) = ''setPermission''"
| "method_name Nn_getFsStats = ''getFsStats''"
| "method_name (Nn_delete _ _) = ''delete''"
| "method_name (Nn_mkdirs _ _ _) = ''mkdirs''"
| "method_name (Nn_getListing _ _ _) = ''getListing''"
| "method_name (Nn_fsync _ _) = ''fsync''"
| "method_name (Nn_getBlockLocations _ _ _) = ''getBlockLocations''"
| "method_name Nn_getServerDefaults = ''getServerDefaults''"
| "method_name (Nn_renewLease _) = ''renewLease''"

text \<open>
  The responses. The response of a method is unpacked as that method's output message, so a caller gets the kind it expects; the readers
  below take any other as the null pointer that a failed unpacking gives.
\<close>

datatype nn_response =
    Re_result bool
  | Re_status "file_status option"
  | Re_append "located_block option"
  | Re_block located_block
  | Re_void
  | Re_target "string option"
  | Re_stats nat nat
  | Re_listing "file_status option list option"
  | Re_locations "located_blocks option"
  | Re_defaults server_defaults

fun get_result :: "nn_response option \<Rightarrow> bool cres" where
  "get_result (Some (Re_result b)) = Ret b"
| "get_result _ = Undef Null_Deref"

fun get_status :: "nn_response option \<Rightarrow> file_status option cres" where
  "get_status (Some (Re_status st)) = Ret st"
| "get_status _ = Undef Null_Deref"

fun get_append :: "nn_response option \<Rightarrow> located_block option cres" where
  "get_append (Some (Re_append lb)) = Ret lb"
| "get_append _ = Undef Null_Deref"

fun get_block :: "nn_response option \<Rightarrow> located_block cres" where
  "get_block (Some (Re_block lb)) = Ret lb"
| "get_block _ = Undef Null_Deref"

fun get_target :: "nn_response option \<Rightarrow> string option cres" where
  "get_target (Some (Re_target t)) = Ret t"
| "get_target _ = Undef Null_Deref"

fun get_stats :: "nn_response option \<Rightarrow> (nat \<times> nat) cres" where
  "get_stats (Some (Re_stats capacity remaining)) = Ret (capacity, remaining)"
| "get_stats _ = Undef Null_Deref"

fun get_listing :: "nn_response option \<Rightarrow> file_status option list cres" where
  "get_listing (Some (Re_listing (Some l))) = Ret l"
| "get_listing _ = Undef Null_Deref"

fun get_locations :: "nn_response option \<Rightarrow> located_blocks option cres" where
  "get_locations (Some (Re_locations lbs)) = Ret lbs"
| "get_locations _ = Undef Null_Deref"

fun get_defaults :: "nn_response option \<Rightarrow> server_defaults cres" where
  "get_defaults (Some (Re_defaults sd)) = Ret sd"
| "get_defaults _ = Undef Null_Deref"

text \<open>Operations on a block of a data node.\<close>

datatype write_stage = PIPELINE_SETUP_CREATE | PIPELINE_SETUP_APPEND

record op_write =
  ow_clientname :: string
  ow_block :: extended_block
  ow_token :: bytes
  ow_pipelinesize :: nat
  ow_stage :: write_stage
  ow_latestgenerationstamp :: nat
  ow_minbytesrcvd :: nat
  ow_maxbytesrcvd :: nat
  ow_checksum :: checksum_proto
  ow_targets :: "datanode_id list"

record op_read =
  or_clientname :: string
  or_block :: extended_block
  or_sendchecksums :: bool
  or_offset :: nat
  or_len :: nat

text \<open>The response to an operation: its status and the offset of the first chunk, if it has one.\<close>

record op_response =
  op_status :: hdfs_status
  op_chunkoffset :: "nat option"

section \<open>The interface\<close>

text \<open>The functions of \<^verbatim>\<open>hadooprpc.h\<close> on a state that holds the connections and what lies behind them.\<close>

record 's hadooprpc =
  call_nn :: "nn_request \<Rightarrow> 's \<Rightarrow> ((int \<times> nn_response option) \<times> 's) cres"
  connect_dn :: "string \<Rightarrow> nat \<Rightarrow> 's \<Rightarrow> int \<times> 's"
  call_write :: "op_write \<Rightarrow> 's \<Rightarrow> (int \<times> 's) cres"
  call_read :: "op_read \<Rightarrow> 's \<Rightarrow> ((int \<times> op_response option) \<times> 's) cres"
  send_packets :: "buffer_pos \<Rightarrow> nat \<Rightarrow> nat \<Rightarrow> nat \<Rightarrow> checksum_proto \<Rightarrow> 's \<Rightarrow> (int \<times> buffer_pos \<times> 's) cres"
  receive_packets :: "nat \<Rightarrow> nat \<Rightarrow> bytes \<Rightarrow> 's \<Rightarrow> (int \<times> bytes \<times> 's) cres option"
  disconnect_dn :: "'s \<Rightarrow> 's"

section \<open>The functions of hadooprpc.c\<close>

text \<open>The sockets and the generated functions that pack and unpack.\<close>

record 'w hdfs_env =
  he_nn :: "'w wire"
  he_dn :: "'w wire"
  he_connect :: "string \<Rightarrow> nat \<Rightarrow> 'w \<Rightarrow> int \<times> 'w"
  he_linger :: "'w \<Rightarrow> int \<times> 'w"
  he_context :: bytes
  he_pack_header :: "int \<Rightarrow> bytes"
  he_pack_method :: "string \<Rightarrow> bytes"
  he_unpack_status :: "bytes \<Rightarrow> (rpc_status \<times> rpc_error option) option"
  he_pack_nn :: "nn_request \<Rightarrow> bytes"
  he_unpack_nn :: "string \<Rightarrow> bytes \<Rightarrow> nn_response option"
  he_pack_write :: "op_write \<Rightarrow> bytes"
  he_pack_read :: "op_read \<Rightarrow> bytes"
  he_unpack_op :: "bytes \<Rightarrow> op_response option"
  he_pack_packet :: "int \<Rightarrow> nat \<Rightarrow> bool \<Rightarrow> nat \<Rightarrow> bytes"
  he_unpack_packet :: "bytes \<Rightarrow> packet_header option"
  he_unpack_ack :: "bytes \<Rightarrow> pipeline_ack option"
  he_read_status :: bytes
  he_crc :: "bytes \<Rightarrow> u32"

definition hadoop_rpc_call_namenode :: "'w hdfs_env \<Rightarrow> nn_request \<Rightarrow> 'w connection_state \<Rightarrow> ((int \<times> nn_response option) \<times> 'w connection_state) cres" where
  "hadoop_rpc_call_namenode e req s =
     call_namenode_withlock (he_nn e) (he_pack_header e) (he_pack_method e) (he_unpack_status e) (he_unpack_nn e (method_name req))
       (method_name req) (he_pack_nn e req) s"

text \<open>On failure the socket stays open.\<close>

definition hadoop_rpc_do_connect :: "'w hdfs_env \<Rightarrow> string \<Rightarrow> nat \<Rightarrow> 'w \<Rightarrow> int \<times> 'w" where
  "hadoop_rpc_do_connect e host port x =
     (case he_connect e host port x of (res, x1) \<Rightarrow>
      if res < 0 then (res, x1)
      else case he_linger e x1 of (res, x2) \<Rightarrow> if res < 0 then (res, x2) else (0, x2))"

definition hadoop_rpc_connect_datanode :: "'w hdfs_env \<Rightarrow> string \<Rightarrow> nat \<Rightarrow> 'w connection_state \<Rightarrow> int \<times> 'w connection_state" where
  "hadoop_rpc_connect_datanode e host port s =
     (case hadoop_rpc_do_connect e host port (cworld s) of (res, x) \<Rightarrow> (res, s\<lparr>cworld := x\<rparr>))"

record namenode_state =
  nn_clientname :: string
  nn_packetsize :: nat
  nn_blocksize :: nat
  nn_replication :: nat
  nn_bytesperchecksum :: nat
  nn_checksumtype :: checksum_type

definition take_defaults :: "server_defaults \<Rightarrow> namenode_state \<Rightarrow> namenode_state" where
  "take_defaults sd nn = nn\<lparr>nn_packetsize := sd_writepacketsize sd, nn_blocksize := sd_blocksize sd, nn_replication := sd_replication sd,
     nn_bytesperchecksum := sd_bytesperchecksum sd,
     nn_checksumtype := (case sd_checksumtype sd of Some t \<Rightarrow> t | None \<Rightarrow> CHECKSUM_NULL)\<rparr>"

definition CONNECTION_CONTEXT_CALL_ID :: int where "CONNECTION_CONTEXT_CALL_ID = - 3"

text \<open>Connecting: the header, the context behind a request header, and the call for the defaults. The thread that renews the lease is not
  started here.\<close>

definition hadoop_rpc_connect_namenode :: "'w hdfs_env \<Rightarrow> string \<Rightarrow> nat \<Rightarrow> namenode_state \<Rightarrow> 'w connection_state \<Rightarrow>
    ((int \<times> namenode_state) \<times> 'w connection_state) cres" where
  "hadoop_rpc_connect_namenode e host port nn s =
     (let fail = (\<lambda>error s. Ret ((error, nn), hadoop_rpc_disconnect (he_nn e) s)) in
      case hadoop_rpc_do_connect e host port (cworld s) of (error, x1) \<Rightarrow>
      if error < 0 then fail error (s\<lparr>cworld := x1\<rparr>)
      else
        cbind (PACK (he_context e)) (\<lambda>contextbuf.
        cbind (PACK (he_pack_header e CONNECTION_CONTEXT_CALL_ID)) (\<lambda>rpcheaderbuf.
        case send_all (he_nn e) [[0x68, 0x72, 0x70, 0x63, 9, 0, 0], net32 (length rpcheaderbuf + length contextbuf), rpcheaderbuf, contextbuf] x1 of
          (error, x2) \<Rightarrow>
        if error < 0 then fail error (s\<lparr>cworld := x2\<rparr>)
        else
          cbind (hadoop_rpc_call_namenode e Nn_getServerDefaults (s\<lparr>cworld := x2\<rparr>)) (\<lambda>((error, response), s3).
          if error < 0 then fail error s3
          else cmap (\<lambda>sd. ((0, take_defaults sd nn), s3\<lparr>isconnected := True\<rparr>)) (get_defaults response)))))"

text \<open>The interface that \<^verbatim>\<open>hadooprpc.c\<close> provides.\<close>

definition hadooprpc_of :: "'w hdfs_env \<Rightarrow> 'w connection_state hadooprpc" where
  "hadooprpc_of e = \<lparr>
     call_nn = hadoop_rpc_call_namenode e,
     connect_dn = hadoop_rpc_connect_datanode e,
     call_write = (\<lambda>oper s. cmap (\<lambda>((res, _), x). (res, s\<lparr>cworld := x\<rparr>))
       (hadoop_rpc_call_datanode (he_dn e) (he_unpack_op e) op_status 80 (he_pack_write e oper) (cworld s))),
     call_read = (\<lambda>oper s. cmap (\<lambda>((res, response), x). ((res, response), s\<lparr>cworld := x\<rparr>))
       (hadoop_rpc_call_datanode (he_dn e) (he_unpack_op e) op_status 81 (he_pack_read e oper) (cworld s))),
     send_packets = (\<lambda>from len blockoffset packetsize checksum s. cmap (\<lambda>(res, from1, x). (res, from1, s\<lparr>cworld := x\<rparr>))
       (hadoop_rpc_send_packets (he_dn e) (he_pack_packet e) (he_unpack_ack e) (he_crc e) from len blockoffset packetsize checksum (cworld s))),
     receive_packets = (\<lambda>skipbytes len to s. map_option (cmap (\<lambda>(res, to1, x). (res, to1, s\<lparr>cworld := x\<rparr>)))
       (hadoop_rpc_receive_packets (he_dn e) (he_unpack_packet e) (he_read_status e) skipbytes len to (cworld s))),
     disconnect_dn = (\<lambda>s. s\<lparr>cworld := w_close (he_dn e) (cworld s)\<rparr>)\<rparr>"

end
