(* ===== verification/Hdfs_Wrap.thy ===== *)
theory Hdfs_Wrap
  imports Hdfs_Protocol Paths
begin

text \<open>
  The HDFS library (\<^verbatim>\<open>usfs_wrap/hdfs/hdfs_wrap.c\<close>): helpers, the operations on names and attributes, reading, writing and truncating
  files, and the \<^verbatim>\<open>usfs_\<close> functions. The name node and the data nodes are behind the functions of \<^verbatim>\<open>hadooprpc.h\<close>, the argument \<open>rpc\<close>;
  \<open>nn\<close> is the global \<^verbatim>\<open>nn_state\<close>. The loops that wait or that call the servers again have fuel \<open>n\<close>: running out of it is the outcome
  \<open>Undef Diverges\<close>. A false assertion is the outcome \<open>Undef Assertion_Failed\<close>.
\<close>

section \<open>Sizes\<close>

text \<open>Arithmetic of \<^verbatim>\<open>uint64_t\<close>, and the conversion of an \<^verbatim>\<open>off_t\<close>.\<close>

definition sub64 :: "nat \<Rightarrow> nat \<Rightarrow> nat" where
  "sub64 a b = nat ((int a - int b) mod 2 ^ 64)"

definition add64 :: "nat \<Rightarrow> nat \<Rightarrow> nat" where
  "add64 a b = (a + b) mod 2 ^ 64"

definition of_off_t :: "int \<Rightarrow> nat" where
  "of_off_t offset = nat (offset mod 2 ^ 64)"

section \<open>File handles\<close>

record hdfs_handle =
  hf_fileid :: nat
  hf_blocksize :: nat
  hf_path :: string

text \<open>
  The \<^verbatim>\<open>fi\<close> argument, a \<^verbatim>\<open>uint64_t *\<close> that the code casts to a handle: null, a handle, or the address of a 64-bit variable, as the callers
  pass it. The first field of the handle then lies on the variable and the others behind it.
\<close>

datatype hfi = Hf_Null | Hf_Handle hdfs_handle | Hf_Word nat

fun get_fileid :: "hfi \<Rightarrow> nat cres" where
  "get_fileid Hf_Null = Undef Null_Deref"
| "get_fileid (Hf_Handle fh) = Ret (hf_fileid fh)"
| "get_fileid (Hf_Word w) = Ret w"

fun set_fileid :: "nat \<Rightarrow> hfi \<Rightarrow> hfi cres" where
  "set_fileid v Hf_Null = Undef Null_Deref"
| "set_fileid v (Hf_Handle fh) = Ret (Hf_Handle (fh\<lparr>hf_fileid := v\<rparr>))"
| "set_fileid v (Hf_Word w) = Ret (Hf_Word v)"

fun get_blocksize :: "hfi \<Rightarrow> nat cres" where
  "get_blocksize Hf_Null = Undef Null_Deref"
| "get_blocksize (Hf_Handle fh) = Ret (hf_blocksize fh)"
| "get_blocksize (Hf_Word w) = Undef Out_Of_Bounds"

section \<open>Attributes\<close>

text \<open>The user database of the C library.\<close>

record user_db =
  ud_uid :: "string \<Rightarrow> nat option"
  ud_gid :: "string \<Rightarrow> nat option"
  ud_user :: "nat \<Rightarrow> string option"
  ud_group :: "nat \<Rightarrow> string option"

record hdfs_stat =
  hs_size :: nat
  hs_mode :: nat
  hs_blksize :: nat
  hs_mtime :: nat
  hs_atime :: nat
  hs_uid :: nat
  hs_gid :: nat

definition zero_stat :: hdfs_stat where
  "zero_stat = \<lparr>hs_size = 0, hs_mode = 0, hs_blksize = 0, hs_mtime = 0, hs_atime = 0, hs_uid = 0, hs_gid = 0\<rparr>"

fun type_mode :: "file_type \<Rightarrow> nat \<Rightarrow> nat" where
  "type_mode IS_DIR m = 0x4000"
| "type_mode IS_FILE m = 0x8000"
| "type_mode IS_SYMLINK m = 0xA000"
| "type_mode IS_OTHER m = m"

definition unpack_filestatus :: "namenode_state \<Rightarrow> user_db \<Rightarrow> file_status \<Rightarrow> hdfs_stat \<Rightarrow> hdfs_stat" where
  "unpack_filestatus nn db fs st =
     (let mode = type_mode (fst_filetype fs) (hs_mode st);
          look = (\<lambda>f name old. case name of Some s \<Rightarrow> (case f s of Some i \<Rightarrow> i | None \<Rightarrow> old) | None \<Rightarrow> old)
      in st\<lparr>hs_size := fst_length fs,
        hs_mode := (case fst_permission fs of Some p \<Rightarrow> mode OR p | None \<Rightarrow> mode),
        hs_blksize := (case fst_blocksize fs of Some b \<Rightarrow> b | None \<Rightarrow> nn_blocksize nn),
        hs_mtime := fst_modification_time fs div 1000,
        hs_atime := fst_access_time fs div 1000,
        hs_uid := look (ud_uid db) (fst_owner fs) (hs_uid st),
        hs_gid := look (ud_gid db) (fst_group fs) (hs_gid st)\<rparr>)"

section \<open>Helpers\<close>

text \<open>Packing a block and unpacking it again: a copy, or nothing for a null pointer.\<close>

definition hadoop_fuse_clone_block :: "extended_block option \<Rightarrow> extended_block option" where
  "hadoop_fuse_clone_block block = block"

text \<open>The loop asks again until the name node says that the file is complete.\<close>

primrec hadoop_fuse_complete :: "nat \<Rightarrow> namenode_state \<Rightarrow> 's hadooprpc \<Rightarrow> string \<Rightarrow> nat \<Rightarrow> extended_block option \<Rightarrow> 's \<Rightarrow> (int \<times> 's) cres" where
  "hadoop_fuse_complete 0 nn rpc src fileid lst s = Undef Diverges"
| "hadoop_fuse_complete (Suc n) nn rpc src fileid lst s =
     cbind (call_nn rpc (Nn_complete src (nn_clientname nn) (0 < fileid) fileid lst) s) (\<lambda>((res, response), s1).
     if res < 0 then Ret (res, s1)
     else
       cbind (get_result response) (\<lambda>complete.
       if complete then Ret (res, s1) else hadoop_fuse_complete n nn rpc src fileid lst s1))"

definition hadoop_fuse_createemptyfile :: "nat \<Rightarrow> namenode_state \<Rightarrow> 's hadooprpc \<Rightarrow> string \<Rightarrow> nat \<Rightarrow> 's \<Rightarrow> ((int \<times> nat option) \<times> 's) cres" where
  "hadoop_fuse_createemptyfile n nn rpc src perm s =
     cbind (call_nn rpc (Nn_create src (nn_clientname nn) False (Some perm) CF_CREATE (nn_replication nn) (nn_blocksize nn)) s) (\<lambda>((res, response), s1).
     if res < 0 then Ret ((res, None), s1)
     else
       cbind (get_status response) (\<lambda>fs.
       case (case fs of Some st \<Rightarrow> fst_fileid st | None \<Rightarrow> None) of
         None \<Rightarrow> Ret ((- EPROTO, None), s1)
       | Some fileid \<Rightarrow>
           cbind (hadoop_fuse_complete n nn rpc src fileid None s1) (\<lambda>(res, s2).
           if res < 0 then Ret ((res, None), s2) else Ret ((0, Some fileid), s2))))"

definition hadoop_fuse_lock :: "namenode_state \<Rightarrow> 's hadooprpc \<Rightarrow> string \<Rightarrow> extended_block option \<Rightarrow> 's \<Rightarrow> ((int \<times> extended_block option) \<times> 's) cres" where
  "hadoop_fuse_lock nn rpc src lst s =
     cbind (call_nn rpc (Nn_append src (nn_clientname nn)) s) (\<lambda>((res, response), s1).
     if res < 0 then Ret ((res, lst), s1)
     else
       cbind (get_append response) (\<lambda>block.
       Ret ((0, case block of Some lb \<Rightarrow> hadoop_fuse_clone_block (Some (lb_b lb)) | None \<Rightarrow> lst), s1)))"

section \<open>Writing a block\<close>

definition write_request :: "namenode_state \<Rightarrow> nat \<Rightarrow> checksum_proto \<Rightarrow> located_block \<Rightarrow> located_block \<Rightarrow> op_write" where
  "write_request nn newblocklen checksum block newblock =
     \<lparr>ow_clientname = nn_clientname nn, ow_block = lb_b block, ow_token = lb_blocktoken newblock, ow_pipelinesize = length (lb_locs block),
       ow_stage = (if eb_generationstamp (lb_b newblock) = eb_generationstamp (lb_b block) then PIPELINE_SETUP_CREATE else PIPELINE_SETUP_APPEND),
       ow_latestgenerationstamp = eb_generationstamp (lb_b newblock), ow_minbytesrcvd = eb_numbytes (lb_b newblock),
       ow_maxbytesrcvd = newblocklen, ow_checksum = checksum, ow_targets = []\<rparr>"

text \<open>
  The locations in turn, until one takes the data; the targets are the other locations. The position in the buffers is where the attempt
  before left it.
\<close>

primrec write_block_loop :: "namenode_state \<Rightarrow> 's hadooprpc \<Rightarrow> op_write \<Rightarrow> datanode_id list \<Rightarrow> nat \<Rightarrow> nat \<Rightarrow> nat list \<Rightarrow> int \<Rightarrow> buffer_pos \<Rightarrow> 's \<Rightarrow>
    ((int \<times> bool) \<times> buffer_pos \<times> 's) cres" where
  "write_block_loop nn rpc oper locs len blockoffset [] res from s = Ret ((res, False), from, s)"
| "write_block_loop nn rpc oper locs len blockoffset (l # ls) res from s =
     (case connect_dn rpc (ipaddr (locs ! l)) (xferport (locs ! l) mod 2 ^ 16) s of (res, s1) \<Rightarrow>
      if res < 0 then write_block_loop nn rpc oper locs len blockoffset ls res from s1
      else
        cbind (call_write rpc (oper\<lparr>ow_targets := take l locs @ drop (Suc l) locs\<rparr>) s1) (\<lambda>(res, s2).
        if res = 0 then
          cbind (send_packets rpc from len blockoffset (nn_packetsize nn) (ow_checksum oper) s2) (\<lambda>(res, from1, s3).
          let s4 = disconnect_dn rpc s3 in
          if res = 0 then Ret ((res, True), from1, s4) else write_block_loop nn rpc oper locs len blockoffset ls res from1 s4)
        else write_block_loop nn rpc oper locs len blockoffset ls res from (disconnect_dn rpc s2)))"

text \<open>The result is the length as an \<^verbatim>\<open>int\<close>; \<open>newblock\<close> comes back with its new length.\<close>

definition hadoop_fuse_write_block :: "namenode_state \<Rightarrow> 's hadooprpc \<Rightarrow> buffer_pos \<Rightarrow> nat \<Rightarrow> nat \<Rightarrow> checksum_proto \<Rightarrow> located_block \<Rightarrow> located_block \<Rightarrow> 's \<Rightarrow>
    ((int \<times> located_block) \<times> buffer_pos \<times> 's) cres" where
  "hadoop_fuse_write_block nn rpc from len blockoffset checksum block newblock s =
     (let b = lb_b newblock;
          newblocklen = max (if eb_has_numbytes b then eb_numbytes b else 0) (add64 blockoffset len)
      in if pos_len from = 0 \<or> lb_locs block = [] then Undef Assertion_Failed
         else
           cbind (write_block_loop nn rpc (write_request nn newblocklen checksum block newblock) (lb_locs block) len blockoffset
             [0..<length (lb_locs block)] 0 from s) (\<lambda>((res, written), from1, s1).
           if written then
             Ret ((to_c_int (int len), newblock\<lparr>lb_b := b\<lparr>eb_has_numbytes := True, eb_numbytes := newblocklen\<rparr>\<rparr>), from1, s1)
           else Ret ((if res < 0 then res else - EIO, newblock), from1, s1)))"

definition hadoop_fuse_bytestowrite :: "buffer_pos \<Rightarrow> nat \<Rightarrow> nat \<Rightarrow> nat" where
  "hadoop_fuse_bytestowrite from blockoffset blocksize = min (sub64 blocksize blockoffset) (sub64 (pos_len from) (bufferoffset from))"

section \<open>Writing\<close>

text \<open>The part of the data that goes into the last block.\<close>

definition write_last_block :: "namenode_state \<Rightarrow> 's hadooprpc \<Rightarrow> checksum_proto \<Rightarrow> nat \<Rightarrow> nat \<Rightarrow> located_block \<Rightarrow> extended_block option \<Rightarrow> buffer_pos \<Rightarrow> 's \<Rightarrow>
    ((int \<times> extended_block option) \<times> buffer_pos \<times> 's) cres" where
  "write_last_block nn rpc checksum len blockoffset lastlocation lst from s =
     cbind (call_nn rpc (Nn_updateBlockForPipeline (nn_clientname nn) (lb_b lastlocation)) s) (\<lambda>((res, response), s1).
     if res < 0 then Ret ((res, lst), from, s1)
     else
       cbind (get_block response) (\<lambda>block.
       cbind (hadoop_fuse_write_block nn rpc from len blockoffset checksum lastlocation block s1) (\<lambda>((res, newblock), from1, s2).
       if res < 0 then Ret ((res, lst), from1, s2)
       else
         cbind (call_nn rpc (Nn_updatePipeline (nn_clientname nn) (lb_b lastlocation) (lb_b newblock) (lb_locs lastlocation) (lb_storageids lastlocation)) s2)
           (\<lambda>((res, _), s3).
         if res < 0 then Ret ((res, lst), from1, s3)
         else Ret ((res, hadoop_fuse_clone_block (Some (lb_b newblock))), from1, s3)))))"

text \<open>The loop that adds blocks while data is left.\<close>

primrec add_blocks :: "nat \<Rightarrow> namenode_state \<Rightarrow> 's hadooprpc \<Rightarrow> checksum_proto \<Rightarrow> string \<Rightarrow> nat \<Rightarrow> nat \<Rightarrow> int \<Rightarrow> extended_block option \<Rightarrow> buffer_pos \<Rightarrow> 's \<Rightarrow>
    ((int \<times> extended_block option) \<times> buffer_pos \<times> 's) cres" where
  "add_blocks 0 nn rpc checksum src fileid blocksize res lst from s = Undef Diverges"
| "add_blocks (Suc n) nn rpc checksum src fileid blocksize res lst from s =
     (if bufferoffset from < pos_len from \<and> 0 \<le> res then
        cbind (call_nn rpc (Nn_addBlock src (nn_clientname nn) lst True fileid) s) (\<lambda>((res, response), s1).
        if res < 0 then Ret ((res, lst), from, s1)
        else
          cbind (get_block response) (\<lambda>block.
          cbind (hadoop_fuse_write_block nn rpc from (hadoop_fuse_bytestowrite from 0 blocksize) 0 checksum block block s1) (\<lambda>((res, newblock), from1, s2).
          if res < 0 then
            cbind (call_nn rpc (Nn_abandonBlock src (nn_clientname nn) (lb_b newblock)) s2) (\<lambda>(_, s3).
            add_blocks n nn rpc checksum src fileid blocksize res lst from1 s3)
          else add_blocks n nn rpc checksum src fileid blocksize res (hadoop_fuse_clone_block (Some (lb_b newblock))) from1 s2)))
      else Ret ((res, lst), from, s))"

text \<open>The data first goes into the last block, if the offset lies in it.\<close>

definition write_in_last :: "namenode_state \<Rightarrow> 's hadooprpc \<Rightarrow> checksum_proto \<Rightarrow> nat \<Rightarrow> nat \<Rightarrow> located_block option \<Rightarrow> extended_block option \<Rightarrow> buffer_pos \<Rightarrow> 's \<Rightarrow>
    ((int \<times> extended_block option) \<times> buffer_pos \<times> 's) cres" where
  "write_in_last nn rpc checksum blocksize offsetintofile lastlocation lst from s =
     (case lastlocation of
        Some lb \<Rightarrow>
          if offsetintofile < add64 (lb_offset lb) blocksize then
            let blockoffset = sub64 offsetintofile (lb_offset lb) in
            write_last_block nn rpc checksum (hadoop_fuse_bytestowrite from blockoffset blocksize) blockoffset lb lst from s
          else Ret ((0, lst), from, s)
      | None \<Rightarrow> Ret ((0, lst), from, s))"

definition hadoop_fuse_do_write :: "nat \<Rightarrow> namenode_state \<Rightarrow> 's hadooprpc \<Rightarrow> string \<Rightarrow> buffer_pos \<Rightarrow> nat \<Rightarrow> hfi \<Rightarrow> located_block option \<Rightarrow> extended_block option \<Rightarrow> 's \<Rightarrow>
    ((int \<times> extended_block option) \<times> buffer_pos \<times> 's) cres" where
  "hadoop_fuse_do_write n nn rpc src from offsetintofile fh lastlocation lst s =
     cbind (get_blocksize fh) (\<lambda>blocksize.
     if blocksize = 0 \<or> bufferoffset from \<noteq> 0 \<or>
       (case lastlocation of Some lb \<Rightarrow> offsetintofile < lb_offset lb \<or> \<not> eb_has_numbytes (lb_b lb) | None \<Rightarrow> False)
     then Undef Assertion_Failed
     else
       cbind (get_fileid fh) (\<lambda>fileid.
       let checksum = \<lparr>ck_type = nn_checksumtype nn, bytesperchecksum = nn_bytesperchecksum nn\<rparr> in
       cbind (write_in_last nn rpc checksum blocksize offsetintofile lastlocation lst from s) (\<lambda>((res, lst1), from1, s1).
       if res < 0 then Ret ((res, lst1), from1, s1)
       else add_blocks n nn rpc checksum src fileid blocksize res lst1 from1 s1)))"

section \<open>Reading\<close>

primrec read_block_loop :: "'s hadooprpc \<Rightarrow> op_read \<Rightarrow> datanode_id list \<Rightarrow> int \<Rightarrow> bytes \<Rightarrow> 's \<Rightarrow> ((int \<times> bool) \<times> bytes \<times> 's) cres" where
  "read_block_loop rpc oper [] res buf s = Ret ((res, False), buf, s)"
| "read_block_loop rpc oper (location # locs) res buf s =
     (case connect_dn rpc (ipaddr location) (xferport location mod 2 ^ 16) s of (res, s1) \<Rightarrow>
      if res < 0 then read_block_loop rpc oper locs res buf s1
      else
        cbind (call_read rpc oper s1) (\<lambda>((res, response), s2).
        if res < 0 then read_block_loop rpc oper locs res buf (disconnect_dn rpc s2)
        else
          cbind (deref response) (\<lambda>r.
          let skipbytes = (case op_chunkoffset r of Some c \<Rightarrow> sub64 (or_offset oper) c | None \<Rightarrow> 0) in
          case receive_packets rpc skipbytes (or_len oper) buf s2 of
            None \<Rightarrow> Undef Diverges
          | Some c \<Rightarrow>
              cbind c (\<lambda>(res, buf1, s3).
              if res < 0 then read_block_loop rpc oper locs res buf1 (disconnect_dn rpc s3)
              else Ret ((res, True), buf1, disconnect_dn rpc s3)))))"

text \<open>Each block is received at the start of the buffer; the smaller of two unsigned numbers, one of them 0, is 0.\<close>

definition read_request :: "namenode_state \<Rightarrow> nat \<Rightarrow> int \<Rightarrow> located_block \<Rightarrow> op_read" where
  "read_request nn sz offset block =
     (let off = min (sub64 (of_off_t offset) (lb_offset block)) 0 in
      \<lparr>or_clientname = nn_clientname nn, or_block = lb_b block, or_sendchecksums = False, or_offset = off,
        or_len = min (sub64 (eb_numbytes (lb_b block)) off) sz\<rparr>)"

primrec read_blocks :: "namenode_state \<Rightarrow> 's hadooprpc \<Rightarrow> nat \<Rightarrow> int \<Rightarrow> located_block list \<Rightarrow> int \<Rightarrow> bytes \<Rightarrow> 's \<Rightarrow> (int \<times> bytes \<times> 's) cres" where
  "read_blocks nn rpc sz offset [] res buf s = Ret (to_c_int (int sz), buf, s)"
| "read_blocks nn rpc sz offset (block # blocks) res buf s =
     (if lb_corrupt block then read_blocks nn rpc sz offset blocks (- EBADMSG) buf s
      else
        cbind (read_block_loop rpc (read_request nn sz offset block) (lb_locs block) res buf s) (\<lambda>((res, read), buf1, s1).
        if \<not> read then Ret (if res < 0 then res else - EIO, buf1, s1)
        else read_blocks nn rpc sz offset blocks res buf1 s1))"

definition hadoop_fuse_read :: "namenode_state \<Rightarrow> 's hadooprpc \<Rightarrow> string \<Rightarrow> bytes \<Rightarrow> nat \<Rightarrow> int \<Rightarrow> 's \<Rightarrow> (int \<times> bytes \<times> 's) cres" where
  "hadoop_fuse_read nn rpc src buf sz offset s =
     cbind (call_nn rpc (Nn_getBlockLocations src (of_off_t offset) sz) s) (\<lambda>((res, response), s1).
     if res < 0 then Ret (res, buf, s1)
     else
       cbind (get_locations response) (\<lambda>locations.
       case locations of
         None \<Rightarrow> Ret (- ENOENT, buf, s1)
       | Some lbs \<Rightarrow>
           if lbs_underconstruction lbs then Ret (- EAGAIN, buf, s1)
           else read_blocks nn rpc sz offset (lbs_blocks lbs) res buf s1))"

section \<open>Truncating and writing at an offset\<close>

definition ALL_BYTES :: nat where "ALL_BYTES = 0x7FFFFFFFFFFFFFFF"

text \<open>The last block that stays whole (\<open>None\<close> if there is none) and the block that stays in part.\<close>

primrec kept_blocks :: "nat \<Rightarrow> nat \<Rightarrow> nat option \<Rightarrow> located_block list \<Rightarrow> nat option \<times> located_block option" where
  "kept_blocks newlength b lastkept [] = (lastkept, None)"
| "kept_blocks newlength b lastkept (block # blocks) =
     (if add64 (lb_offset block) (eb_numbytes (lb_b block)) \<le> newlength then kept_blocks newlength (Suc b) (Some b) blocks
      else (lastkept, if lb_offset block < newlength then Some block else None))"

primrec abandon_blocks :: "namenode_state \<Rightarrow> 's hadooprpc \<Rightarrow> string \<Rightarrow> located_block list \<Rightarrow> int \<Rightarrow> 's \<Rightarrow> (int \<times> 's) cres" where
  "abandon_blocks nn rpc path [] res s = Ret (res, s)"
| "abandon_blocks nn rpc path (block # blocks) res s =
     cbind (call_nn rpc (Nn_abandonBlock path (nn_clientname nn) (lb_b block)) s) (\<lambda>((res, _), s1).
     if res < 0 then Ret (res, s1) else abandon_blocks nn rpc path blocks res s1)"

text \<open>Dropping every block: the file is created again, and the handle gets its number.\<close>

definition overwrite_file :: "namenode_state \<Rightarrow> 's hadooprpc \<Rightarrow> string \<Rightarrow> hfi \<Rightarrow> 's \<Rightarrow> ((int \<times> hfi) \<times> 's) cres" where
  "overwrite_file nn rpc path fh s =
     cbind (call_nn rpc (Nn_getFileInfo path) s) (\<lambda>((res, fileresponse), s1).
     if res < 0 then Ret ((res, fh), s1)
     else
       cbind (get_status fileresponse) (\<lambda>st.
       cbind (deref st) (\<lambda>fs.
       cbind (call_nn rpc (Nn_create path (nn_clientname nn) False (fst_permission fs) CF_OVERWRITE (fst_block_replication fs)
           (case fst_blocksize fs of Some b \<Rightarrow> b | None \<Rightarrow> 0)) s1) (\<lambda>((res, response), s2).
       if res < 0 then Ret ((res, fh), s2)
       else
         cbind (get_status response) (\<lambda>st2.
         cbind (deref st2) (\<lambda>fs2.
         case fst_fileid fs2 of
           Some i \<Rightarrow> cmap (\<lambda>fh1. ((0, fh1), s2)) (set_fileid i fh)
         | None \<Rightarrow> Ret ((0, fh), s2)))))))"

text \<open>Dropping the blocks after the last kept one, from the end.\<close>

definition drop_blocks :: "namenode_state \<Rightarrow> 's hadooprpc \<Rightarrow> string \<Rightarrow> located_block list \<Rightarrow> nat \<Rightarrow> 's \<Rightarrow> ((int \<times> extended_block option) \<times> 's) cres" where
  "drop_blocks nn rpc path blocks lastkept s =
     cbind (hadoop_fuse_lock nn rpc path None s) (\<lambda>((res, lst), s1).
     if res < 0 then Ret ((res, lst), s1)
     else
       cbind (abandon_blocks nn rpc path (rev (drop (Suc lastkept) blocks)) res s1) (\<lambda>(res, s2).
       if res < 0 then Ret ((res, lst), s2)
       else Ret ((0, hadoop_fuse_clone_block (Some (lb_b (blocks ! lastkept)))), s2)))"

text \<open>
  Making a file shorter: the part of a block that stays is read (\<open>memory\<close> gives the contents of newly allocated memory), the blocks are
  dropped, and the part is written back as a new block. The result is the error or 0, and the handle.
\<close>

definition read_kept :: "namenode_state \<Rightarrow> 's hadooprpc \<Rightarrow> (nat \<Rightarrow> bytes) \<Rightarrow> string \<Rightarrow> nat \<Rightarrow> located_block option \<Rightarrow> 's \<Rightarrow>
    ((int \<times> (bytes \<times> nat) option) \<times> 's) cres" where
  "read_kept nn rpc memory path newlength part s =
     (case part of
        Some block \<Rightarrow>
          let len = newlength - lb_offset block in
          cmap (\<lambda>(res, buf, s1). ((res, Some (buf, lb_offset block)), s1)) (hadoop_fuse_read nn rpc path (memory len) len (int (lb_offset block)) s)
      | None \<Rightarrow> Ret ((0, None), s))"

definition drop_rest :: "namenode_state \<Rightarrow> 's hadooprpc \<Rightarrow> string \<Rightarrow> located_block list \<Rightarrow> nat option \<Rightarrow> hfi \<Rightarrow> 's \<Rightarrow>
    ((int \<times> hfi \<times> extended_block option) \<times> 's) cres" where
  "drop_rest nn rpc path blocks lastkept fh s =
     (case lastkept of
        None \<Rightarrow> cmap (\<lambda>((res, fh1), s1). ((res, fh1, hadoop_fuse_clone_block None), s1)) (overwrite_file nn rpc path fh s)
      | Some k \<Rightarrow> cmap (\<lambda>((res, lst), s1). ((res, fh, lst), s1)) (drop_blocks nn rpc path blocks k s))"

definition write_back :: "nat \<Rightarrow> namenode_state \<Rightarrow> 's hadooprpc \<Rightarrow> string \<Rightarrow> (bytes \<times> nat) option \<Rightarrow> hfi \<Rightarrow> extended_block option \<Rightarrow> 's \<Rightarrow>
    ((int \<times> extended_block option) \<times> 's) cres" where
  "write_back n nn rpc path byteskept fh lst s =
     (case byteskept of
        Some (buf, bytesoffset) \<Rightarrow>
          cmap (\<lambda>((res, lst1), _, s1). ((res, lst1), s1))
            (hadoop_fuse_do_write n nn rpc path \<lparr>buffers = [Data buf], bufferoffset = 0, pos_len = length buf\<rparr> bytesoffset fh None lst s)
      | None \<Rightarrow> Ret ((0, lst), s))"

definition shorten_file :: "nat \<Rightarrow> namenode_state \<Rightarrow> 's hadooprpc \<Rightarrow> (nat \<Rightarrow> bytes) \<Rightarrow> string \<Rightarrow> nat \<Rightarrow> located_block list \<Rightarrow> hfi \<Rightarrow> 's \<Rightarrow>
    ((int \<times> hfi) \<times> 's) cres" where
  "shorten_file n nn rpc memory path newlength blocks fh s =
     (case kept_blocks newlength 0 None blocks of (lastkept, part) \<Rightarrow>
      cbind (read_kept nn rpc memory path newlength part s) (\<lambda>((res, byteskept), s1).
      if res < 0 then Ret ((res, fh), s1)
      else
        cbind (drop_rest nn rpc path blocks lastkept fh s1) (\<lambda>((res, fh1, lst), s2).
        if res < 0 then Ret ((res, fh1), s2)
        else
          cbind (write_back n nn rpc path byteskept fh1 lst s2) (\<lambda>((res, lst1), s3).
          if res < 0 then Ret ((res, fh1), s3)
          else
            cbind (get_fileid fh1) (\<lambda>fileid.
            cmap (\<lambda>(res, s4). ((if res < 0 then res else 0, fh1), s4)) (hadoop_fuse_complete n nn rpc path fileid lst1 s3))))))"

text \<open>Truncating; \<open>write\<close> is the write of zeros that makes a file longer.\<close>

definition ftruncate_with :: "(fuse_buffer \<Rightarrow> int \<Rightarrow> hfi \<Rightarrow> 's \<Rightarrow> ((int \<times> hfi) \<times> 's) cres) \<Rightarrow> nat \<Rightarrow> namenode_state \<Rightarrow> 's hadooprpc \<Rightarrow> (nat \<Rightarrow> bytes) \<Rightarrow>
    string \<Rightarrow> int \<Rightarrow> hfi \<Rightarrow> 's \<Rightarrow> ((int \<times> hfi) \<times> 's) cres" where
  "ftruncate_with write n nn rpc memory path offset fh s =
     (if offset < 0 then Undef Assertion_Failed
      else
        cbind (call_nn rpc (Nn_getBlockLocations path 0 ALL_BYTES) s) (\<lambda>((res, response), s1).
        if res < 0 then Ret ((res, fh), s1)
        else
          cbind (get_locations response) (\<lambda>locations.
          case locations of
            None \<Rightarrow> Ret ((- ENOENT, fh), s1)
          | Some lbs \<Rightarrow>
              let oldlength = lbs_filelength lbs; newlength = of_off_t offset in
              if newlength > oldlength then
                cmap (\<lambda>((res, fh1), s2). ((if res < 0 then res else 0, fh1), s2)) (write (Zeros (newlength - oldlength)) (int oldlength) fh s1)
              else if newlength = oldlength then Ret ((res, fh), s1)
              else shorten_file n nn rpc memory path newlength (lbs_blocks lbs) fh s1)))"

text \<open>
  The blocks before a write into the middle of a file: the offset to truncate to, which is set only when a block ends before the write
  starts, and the first block that is dropped, with its number.
\<close>

primrec dropped_block :: "nat \<Rightarrow> nat \<Rightarrow> nat option \<Rightarrow> located_block list \<Rightarrow> nat option \<times> (nat \<times> located_block) option" where
  "dropped_block offset b truncateto [] = (truncateto, None)"
| "dropped_block offset b truncateto (block # blocks) =
     (let blockend = add64 (lb_offset block) (eb_numbytes (lb_b block)) in
      if blockend < offset then dropped_block offset (Suc b) (Some blockend) blocks else (truncateto, Some (b, block)))"

text \<open>What a write works with: the buffers for the kept start, the padding and the kept end, the offset, the number of blocks and the last one.\<close>

record write_plan =
  wp_start :: fuse_buffer
  wp_pad :: fuse_buffer
  wp_trailing :: fuse_buffer
  wp_len :: nat
  wp_offset :: nat
  wp_n_blocks :: nat
  wp_last :: "extended_block option"

text \<open>Saving what lies after the write, and what lies before it in its first block.\<close>

definition save_trailing :: "namenode_state \<Rightarrow> 's hadooprpc \<Rightarrow> (nat \<Rightarrow> bytes) \<Rightarrow> string \<Rightarrow> nat \<Rightarrow> located_blocks \<Rightarrow> write_plan \<Rightarrow> 's \<Rightarrow>
    ((int \<times> write_plan) \<times> 's) cres" where
  "save_trailing nn rpc memory src len lbs p s =
     (let trailing = sub64 (lbs_filelength lbs) (min (lbs_filelength lbs) (add64 (wp_offset p) len)) in
      if 0 < trailing then
        cmap (\<lambda>(res, buf, s1). ((res, p\<lparr>wp_trailing := Data buf, wp_len := add64 (wp_len p) trailing\<rparr>), s1))
          (hadoop_fuse_read nn rpc src (memory trailing) trailing (int (add64 (wp_offset p) len)) s)
      else Ret ((0, p), s))"

definition save_start :: "namenode_state \<Rightarrow> 's hadooprpc \<Rightarrow> (nat \<Rightarrow> bytes) \<Rightarrow> string \<Rightarrow> located_blocks \<Rightarrow> (nat \<times> located_block) option \<Rightarrow> write_plan \<Rightarrow> 's \<Rightarrow>
    ((int \<times> write_plan) \<times> 's) cres" where
  "save_start nn rpc memory src lbs first p s =
     (case first of
        None \<Rightarrow> Ret ((0, p), s)
      | Some (b, block) \<Rightarrow>
          let keep = sub64 (wp_offset p) (lb_offset block);
              p1 = p\<lparr>wp_len := add64 (wp_len p) keep, wp_n_blocks := b,
                wp_last := hadoop_fuse_clone_block (if b = 0 then None else Some (lb_b (lbs_blocks lbs ! (b - 1))))\<rparr>
          in if 0 < keep then
               cmap (\<lambda>(res, buf, s1). ((res, p1\<lparr>wp_start := Data buf, wp_offset := sub64 (wp_offset p) keep\<rparr>), s1))
                 (hadoop_fuse_read nn rpc src (memory keep) keep (int (lb_offset block)) s)
             else Ret ((0, p1), s))"

text \<open>Then the file is truncated to the end of the block before.\<close>

definition cut_file :: "(int \<Rightarrow> hfi \<Rightarrow> 's \<Rightarrow> ((int \<times> hfi) \<times> 's) cres) \<Rightarrow> namenode_state \<Rightarrow> 's hadooprpc \<Rightarrow> (nat \<Rightarrow> bytes) \<Rightarrow> string \<Rightarrow> nat \<Rightarrow>
    located_blocks \<Rightarrow> write_plan \<Rightarrow> hfi \<Rightarrow> 's \<Rightarrow> ((int \<times> write_plan \<times> hfi) \<times> 's) cres" where
  "cut_file ftruncate nn rpc memory src len lbs p fh s =
     cbind (save_trailing nn rpc memory src len lbs p s) (\<lambda>((res, p1), s1).
     if res < 0 then Ret ((res, p1, fh), s1)
     else
       case dropped_block (wp_offset p1) 0 None (lbs_blocks lbs) of (truncateto, first) \<Rightarrow>
       cbind (save_start nn rpc memory src lbs first p1 s1) (\<lambda>((res, p2), s2).
       if res < 0 then Ret ((res, p2, fh), s2)
       else case truncateto of
           None \<Rightarrow> Undef Uninitialised
         | Some t \<Rightarrow> cmap (\<lambda>((res, fh1), s3). ((res, p2, fh1), s3)) (ftruncate (int t) fh s2)))"

text \<open>The data of a write is a buffer, null for zeros. The result is the length as an \<^verbatim>\<open>int\<close>.\<close>

definition first_plan :: "located_blocks \<Rightarrow> nat \<Rightarrow> write_plan" where
  "first_plan lbs off =
     (let flen = lbs_filelength lbs; pad = (if off > flen then sub64 flen off else 0) in
      \<lparr>wp_start = Zeros 0, wp_pad = Zeros pad, wp_trailing = Zeros 0, wp_len = pad, wp_offset = min off flen,
        wp_n_blocks = length (lbs_blocks lbs), wp_last = None\<rparr>)"

text \<open>Taking the lease, writing the buffers and giving the lease back.\<close>

definition write_buffers :: "nat \<Rightarrow> namenode_state \<Rightarrow> 's hadooprpc \<Rightarrow> string \<Rightarrow> fuse_buffer \<Rightarrow> located_blocks \<Rightarrow> write_plan \<Rightarrow> hfi \<Rightarrow> 's \<Rightarrow> (int \<times> 's) cres" where
  "write_buffers n nn rpc src data lbs p fh s =
     cbind (hadoop_fuse_lock nn rpc src (wp_last p) s) (\<lambda>((res, lst), s1).
     if res < 0 then Ret (res, s1)
     else
       cbind (hadoop_fuse_do_write n nn rpc src
           \<lparr>buffers = [wp_start p, wp_pad p, data, wp_trailing p], bufferoffset = 0, pos_len = add64 (wp_len p) (buffer_len data)\<rparr> (wp_offset p) fh
           (if wp_n_blocks p = 0 then None else Some (lbs_blocks lbs ! (wp_n_blocks p - 1))) lst s1) (\<lambda>((res, lst1), _, s2).
       cbind (get_fileid fh) (\<lambda>fileid.
       cmap (\<lambda>(complete, s3). (if 0 \<le> res \<and> complete < 0 then complete else res, s3)) (hadoop_fuse_complete n nn rpc src fileid lst1 s2))))"

definition write_with :: "(int \<Rightarrow> hfi \<Rightarrow> 's \<Rightarrow> ((int \<times> hfi) \<times> 's) cres) \<Rightarrow> nat \<Rightarrow> namenode_state \<Rightarrow> 's hadooprpc \<Rightarrow> (nat \<Rightarrow> bytes) \<Rightarrow>
    string \<Rightarrow> fuse_buffer \<Rightarrow> int \<Rightarrow> hfi \<Rightarrow> 's \<Rightarrow> ((int \<times> hfi) \<times> 's) cres" where
  "write_with ftruncate n nn rpc memory src data offset fh s =
     cbind (call_nn rpc (Nn_getBlockLocations src 0 ALL_BYTES) s) (\<lambda>((res, response), s1).
     if res < 0 then Ret ((res, fh), s1)
     else
       cbind (get_locations response) (\<lambda>locations.
       case locations of
         None \<Rightarrow> Ret ((- ENOENT, fh), s1)
       | Some lbs \<Rightarrow>
           let p = first_plan lbs (of_off_t offset) in
           cbind (if lbs_blocks lbs \<noteq> [] \<and> wp_offset p < lb_offset (last (lbs_blocks lbs))
             then cut_file ftruncate nn rpc memory src (buffer_len data) lbs p fh s1
             else Ret ((0, p, fh), s1)) (\<lambda>((res, p1, fh1), s2).
           if res < 0 then Ret ((res, fh1), s2)
           else
             cmap (\<lambda>(res, s3). ((if res < 0 then res else to_c_int (int (buffer_len data)), fh1), s3))
               (write_buffers n nn rpc src data lbs p1 fh1 s2))))"

text \<open>The two functions call each other; each call uses fuel.\<close>

primrec hadoop_fuse_write :: "nat \<Rightarrow> nat \<Rightarrow> namenode_state \<Rightarrow> 's hadooprpc \<Rightarrow> (nat \<Rightarrow> bytes) \<Rightarrow> string \<Rightarrow> fuse_buffer \<Rightarrow> int \<Rightarrow> hfi \<Rightarrow> 's \<Rightarrow>
    ((int \<times> hfi) \<times> 's) cres" where
  "hadoop_fuse_write 0 n nn rpc memory src data offset fh s = Undef Diverges"
| "hadoop_fuse_write (Suc k) n nn rpc memory src data offset fh s =
     write_with (ftruncate_with (hadoop_fuse_write k n nn rpc memory src) n nn rpc memory src) n nn rpc memory src data offset fh s"

definition hadoop_fuse_ftruncate :: "nat \<Rightarrow> nat \<Rightarrow> namenode_state \<Rightarrow> 's hadooprpc \<Rightarrow> (nat \<Rightarrow> bytes) \<Rightarrow> string \<Rightarrow> int \<Rightarrow> hfi \<Rightarrow> 's \<Rightarrow>
    ((int \<times> hfi) \<times> 's) cres" where
  "hadoop_fuse_ftruncate k n nn rpc memory path = ftruncate_with (hadoop_fuse_write k n nn rpc memory path) n nn rpc memory path"

definition hadoop_fuse_truncate :: "nat \<Rightarrow> nat \<Rightarrow> namenode_state \<Rightarrow> 's hadooprpc \<Rightarrow> (nat \<Rightarrow> bytes) \<Rightarrow> string \<Rightarrow> int \<Rightarrow> 's \<Rightarrow> (int \<times> 's) cres" where
  "hadoop_fuse_truncate k n nn rpc memory path offset s =
     cmap (\<lambda>((res, _), s1). (res, s1)) (hadoop_fuse_ftruncate k n nn rpc memory path offset Hf_Null s)"

section \<open>Names and attributes\<close>

text \<open>A call whose response has nothing to read.\<close>

definition simple_call :: "'s hadooprpc \<Rightarrow> nn_request \<Rightarrow> 's \<Rightarrow> (int \<times> 's) cres" where
  "simple_call rpc request s = cmap (\<lambda>((res, _), s1). (if res < 0 then res else 0, s1)) (call_nn rpc request s)"

text \<open>A call whose response says whether it worked.\<close>

definition result_call :: "'s hadooprpc \<Rightarrow> nn_request \<Rightarrow> 's \<Rightarrow> (int \<times> 's) cres" where
  "result_call rpc request s =
     cbind (call_nn rpc request s) (\<lambda>((res, response), s1).
     if res < 0 then Ret (res, s1)
     else cmap (\<lambda>result. (if result then 0 else - EINVAL, s1)) (get_result response))"

definition hadoop_fuse_getattr :: "namenode_state \<Rightarrow> 's hadooprpc \<Rightarrow> user_db \<Rightarrow> string \<Rightarrow> 's \<Rightarrow> ((int \<times> hdfs_stat) \<times> 's) cres" where
  "hadoop_fuse_getattr nn rpc db path s =
     cbind (call_nn rpc (Nn_getFileInfo path) s) (\<lambda>((res, response), s1).
     if res < 0 then Ret ((res, zero_stat), s1)
     else
       cmap (\<lambda>fs. (case fs of None \<Rightarrow> (- ENOENT, zero_stat) | Some st \<Rightarrow> (0, unpack_filestatus nn db st zero_stat), s1)) (get_status response))"

text \<open>The link target in a buffer of \<open>len\<close> bytes.\<close>

definition hadoop_fuse_readlink :: "'s hadooprpc \<Rightarrow> string \<Rightarrow> nat \<Rightarrow> 's \<Rightarrow> ((int \<times> string option) \<times> 's) cres" where
  "hadoop_fuse_readlink rpc path len s =
     cbind (call_nn rpc (Nn_getLinkTarget path) s) (\<lambda>((res, response), s1).
     if res < 0 then Ret ((res, None), s1)
     else
       cbind (get_target response) (\<lambda>target.
       case target of
         None \<Rightarrow> Ret ((- ENOENT, None), s1)
       | Some t \<Rightarrow> if len = 0 then Undef Out_Of_Bounds else Ret ((0, Some (take (len - 1) t)), s1)))"

text \<open>The two times are pairs of seconds and nanoseconds; \<^verbatim>\<open>/\<close> rounds towards zero, and nanoseconds are not negative.\<close>

definition millis :: "int \<times> int \<Rightarrow> int" where
  "millis tv = fst tv * 1000 + snd tv div 1000000"

definition hadoop_fuse_utimens :: "'s hadooprpc \<Rightarrow> string \<Rightarrow> (int \<times> int) \<times> (int \<times> int) \<Rightarrow> 's \<Rightarrow> (int \<times> 's) cres" where
  "hadoop_fuse_utimens rpc src tv = simple_call rpc (Nn_setTimes src (millis (snd tv)) (millis (fst tv)))"

definition hadoop_fuse_chown :: "'s hadooprpc \<Rightarrow> user_db \<Rightarrow> string \<Rightarrow> nat \<Rightarrow> nat \<Rightarrow> 's \<Rightarrow> (int \<times> 's) cres" where
  "hadoop_fuse_chown rpc db src uid gid = simple_call rpc (Nn_setOwner src (ud_user db uid) (ud_group db gid))"

definition hadoop_fuse_symlink :: "'s hadooprpc \<Rightarrow> string \<Rightarrow> string \<Rightarrow> 's \<Rightarrow> (int \<times> 's) cres" where
  "hadoop_fuse_symlink rpc target lnk = simple_call rpc (Nn_createSymlink target lnk 0x1FF False)"

definition hadoop_fuse_rename :: "'s hadooprpc \<Rightarrow> string \<Rightarrow> string \<Rightarrow> 's \<Rightarrow> (int \<times> 's) cres" where
  "hadoop_fuse_rename rpc src dst = result_call rpc (Nn_rename src dst)"

definition hadoop_fuse_chmod :: "'s hadooprpc \<Rightarrow> string \<Rightarrow> nat \<Rightarrow> 's \<Rightarrow> (int \<times> 's) cres" where
  "hadoop_fuse_chmod rpc src perm = simple_call rpc (Nn_setPermission src perm)"

record hdfs_statvfs =
  hv_bsize :: nat
  hv_blocks :: nat
  hv_bfree :: nat
  hv_namemax :: nat

definition hadoop_fuse_statfs :: "namenode_state \<Rightarrow> 's hadooprpc \<Rightarrow> 's \<Rightarrow> ((int \<times> hdfs_statvfs option) \<times> 's) cres" where
  "hadoop_fuse_statfs nn rpc s =
     cbind (call_nn rpc Nn_getFsStats s) (\<lambda>((res, response), s1).
     if res < 0 then Ret ((res, None), s1)
     else
       cbind (get_stats response) (\<lambda>(capacity, remaining).
       if nn_blocksize nn = 0 then Undef Division_By_Zero
       else Ret ((0, Some \<lparr>hv_bsize = nn_blocksize nn, hv_blocks = capacity div nn_blocksize nn, hv_bfree = remaining div nn_blocksize nn,
         hv_namemax = 0x7FFFFFFF\<rparr>), s1)))"

definition hadoop_fuse_delete :: "'s hadooprpc \<Rightarrow> string \<Rightarrow> 's \<Rightarrow> (int \<times> 's) cres" where
  "hadoop_fuse_delete rpc src = result_call rpc (Nn_delete src False)"

definition hadoop_fuse_mkdir :: "'s hadooprpc \<Rightarrow> string \<Rightarrow> nat \<Rightarrow> 's \<Rightarrow> (int \<times> 's) cres" where
  "hadoop_fuse_mkdir rpc src perm = result_call rpc (Nn_mkdirs src perm False)"

text \<open>The entries of the first part of the listing; a null entry is read all the same. \<open>filler\<close> is the caller's.\<close>

primrec fill_entries :: "namenode_state \<Rightarrow> user_db \<Rightarrow> (string \<Rightarrow> hdfs_stat \<Rightarrow> 'd \<Rightarrow> int \<times> 'd) \<Rightarrow> file_status option list \<Rightarrow> 'd \<Rightarrow> (int \<times> 'd) cres" where
  "fill_entries nn db filler [] d = Ret (0, d)"
| "fill_entries nn db filler (file # files) d =
     cbind (deref file) (\<lambda>fs.
     case filler (cstr (map char_of_byte (fst_path fs) @ [CHR 0x00])) (unpack_filestatus nn db fs zero_stat) d of (filled, d1) \<Rightarrow>
     if filled \<noteq> 0 then Ret (- ENOMEM, d1) else fill_entries nn db filler files d1)"

definition hadoop_fuse_readdir :: "namenode_state \<Rightarrow> 's hadooprpc \<Rightarrow> user_db \<Rightarrow> (string \<Rightarrow> hdfs_stat \<Rightarrow> 'd \<Rightarrow> int \<times> 'd) \<Rightarrow> string \<Rightarrow> 'd \<Rightarrow> 's \<Rightarrow> ((int \<times> 'd) \<times> 's) cres" where
  "hadoop_fuse_readdir nn rpc db filler path d s =
     cbind (call_nn rpc (Nn_getListing path [] False) s) (\<lambda>((res, response), s1).
     if res < 0 then Ret ((res, d), s1)
     else cbind (get_listing response) (\<lambda>files. cmap (\<lambda>r. (r, s1)) (fill_entries nn db filler files d)))"

definition hadoop_fuse_fsync :: "namenode_state \<Rightarrow> 's hadooprpc \<Rightarrow> string \<Rightarrow> 's \<Rightarrow> (int \<times> 's) cres" where
  "hadoop_fuse_fsync nn rpc src = simple_call rpc (Nn_fsync src (nn_clientname nn))"

definition hadoop_fuse_mknod :: "nat \<Rightarrow> namenode_state \<Rightarrow> 's hadooprpc \<Rightarrow> string \<Rightarrow> nat \<Rightarrow> 's \<Rightarrow> (int \<times> 's) cres" where
  "hadoop_fuse_mknod n nn rpc src perm s = cmap (\<lambda>((res, _), s1). (res, s1)) (hadoop_fuse_createemptyfile n nn rpc src perm s)"

section \<open>Opening\<close>

definition HO_CREAT :: nat where "HO_CREAT = 0x40"
definition HO_EXCL :: nat where "HO_EXCL = 0x80"
definition HO_TRUNC :: nat where "HO_TRUNC = 0x200"

text \<open>The number and the block size of the file, which is created when it is missing and may be.\<close>

definition find_or_create :: "nat \<Rightarrow> namenode_state \<Rightarrow> 's hadooprpc \<Rightarrow> string \<Rightarrow> nat \<Rightarrow> 's \<Rightarrow> ((int + nat \<times> nat) \<times> 's) cres" where
  "find_or_create n nn rpc path flags s =
     cbind (call_nn rpc (Nn_getFileInfo path) s) (\<lambda>((res, response), s1).
     if res < 0 then Ret (Inl res, s1)
     else
       cbind (get_status response) (\<lambda>st.
       case (case st of Some fs \<Rightarrow> map_option (\<lambda>i. (fs, i)) (fst_fileid fs) | None \<Rightarrow> None) of
         Some (fs, fileid) \<Rightarrow>
           cbind (deref (fst_permission fs)) (\<lambda>_.
           if flags AND HO_EXCL = HO_EXCL then Ret (Inl (- EEXIST), s1)
           else Ret (Inr (fileid, case fst_blocksize fs of Some b \<Rightarrow> if b \<noteq> 0 then b else nn_blocksize nn | None \<Rightarrow> nn_blocksize nn), s1))
       | None \<Rightarrow>
           if flags AND HO_CREAT \<noteq> 0 then
             cmap (\<lambda>((res, fileid), s2). (case fileid of Some i \<Rightarrow> Inr (i, nn_blocksize nn) | None \<Rightarrow> Inl res, s2))
               (hadoop_fuse_createemptyfile n nn rpc path 0x1ED s1)
           else Ret (Inl (- ENOENT), s1)))"

text \<open>
  Opening: \<open>addr\<close> is the address of the new handle (0 when there is no memory), which the caller's variable gets. Truncating gets the
  address of that variable in place of the handle. The result is the error or 0, the variable, and the handle.
\<close>

definition hadoop_fuse_open :: "nat \<Rightarrow> nat \<Rightarrow> namenode_state \<Rightarrow> 's hadooprpc \<Rightarrow> (nat \<Rightarrow> bytes) \<Rightarrow> string \<Rightarrow> nat \<Rightarrow> nat \<Rightarrow> nat \<Rightarrow> 's \<Rightarrow>
    ((int \<times> nat \<times> hdfs_handle option) \<times> 's) cres" where
  "hadoop_fuse_open k n nn rpc memory path flags addr fi s =
     cbind (find_or_create n nn rpc path flags s) (\<lambda>(found, s1).
     case found of
       Inl res \<Rightarrow> Ret ((res, fi, None), s1)
     | Inr (fileid, blocksize) \<Rightarrow>
         if addr = 0 then Ret ((- ENOMEM, fi, None), s1)
         else
           let fh = \<lparr>hf_fileid = fileid, hf_blocksize = blocksize, hf_path = []\<rparr> in
           if flags AND HO_TRUNC \<noteq> 0 then
             cmap (\<lambda>((res, fi1), s2). ((if res < 0 then res else 0, case fi1 of Hf_Word w \<Rightarrow> w | _ \<Rightarrow> addr, Some fh), s2))
               (hadoop_fuse_ftruncate k n nn rpc memory path 0 (Hf_Word addr) s1)
           else Ret ((0, addr, Some fh), s1))"

section \<open>The library's functions\<close>

text \<open>The handles in memory, by address; a handle that was never allocated lies outside.\<close>

type_synonym hdfs_heap = "nat \<rightharpoonup> hdfs_handle"

definition handle_at :: "hdfs_heap \<Rightarrow> nat \<Rightarrow> hdfs_handle cres" where
  "handle_at h fhi = (case h fhi of Some fh \<Rightarrow> Ret fh | None \<Rightarrow> Undef Out_Of_Bounds)"

text \<open>\<^verbatim>\<open>usfs_open\<close> copies the path with \<^verbatim>\<open>strncpy\<close> into the handle at the address in the variable.\<close>

definition usfs_open_hdfs :: "nat \<Rightarrow> nat \<Rightarrow> namenode_state \<Rightarrow> 's hadooprpc \<Rightarrow> (nat \<Rightarrow> bytes) \<Rightarrow> string \<Rightarrow> nat \<Rightarrow> nat \<Rightarrow> nat \<Rightarrow> nat \<Rightarrow> hdfs_heap \<times> 's \<Rightarrow>
    ((int \<times> nat) \<times> hdfs_heap \<times> 's) cres" where
  "usfs_open_hdfs k n nn rpc memory path flags mode addr ret_fh hs =
     cbind (if flags AND HO_CREAT \<noteq> 0 then hadoop_fuse_mknod n nn rpc path mode (snd hs) else Ret (0, snd hs)) (\<lambda>(rc, s1).
     if rc \<noteq> 0 then Ret ((- rc, ret_fh), fst hs, s1)
     else
       cbind (hadoop_fuse_open k n nn rpc memory path flags addr ret_fh s1) (\<lambda>((rc, fi, fh), s2).
       let h = (case fh of Some x \<Rightarrow> (fst hs)(addr \<mapsto> x) | None \<Rightarrow> fst hs) in
       if 0 \<le> rc then
         cmap (\<lambda>x. ((- rc, fi), h(fi \<mapsto> x\<lparr>hf_path := take PATH_MAX path\<rparr>), s2)) (handle_at h fi)
       else Ret ((- rc, fi), h, s2)))"

text \<open>The functions on an open file pass the address of their argument \<open>fhi\<close> on.\<close>

definition usfs_read_hdfs :: "namenode_state \<Rightarrow> 's hadooprpc \<Rightarrow> nat \<Rightarrow> bytes \<Rightarrow> nat \<Rightarrow> int \<Rightarrow> hdfs_heap \<times> 's \<Rightarrow> ((int \<times> bytes \<times> nat option) \<times> hdfs_heap \<times> 's) cres" where
  "usfs_read_hdfs nn rpc fhi buf sz offset hs =
     cbind (handle_at (fst hs) fhi) (\<lambda>fh.
     cmap (\<lambda>(rc, buf1, s1). (if rc < 0 then (- rc, buf1, None) else (0, buf1, Some (nat rc)), fst hs, s1))
       (hadoop_fuse_read nn rpc (hf_path fh) buf sz offset (snd hs)))"

definition usfs_write_hdfs :: "nat \<Rightarrow> nat \<Rightarrow> namenode_state \<Rightarrow> 's hadooprpc \<Rightarrow> (nat \<Rightarrow> bytes) \<Rightarrow> nat \<Rightarrow> bytes \<Rightarrow> int \<Rightarrow> hdfs_heap \<times> 's \<Rightarrow>
    ((int \<times> nat option) \<times> hdfs_heap \<times> 's) cres" where
  "usfs_write_hdfs k n nn rpc memory fhi buf offset hs =
     cbind (handle_at (fst hs) fhi) (\<lambda>fh.
     cmap (\<lambda>((rc, _), s1). (if rc < 0 then (- rc, None) else (0, Some (nat rc)), fst hs, s1))
       (hadoop_fuse_write k n nn rpc memory (hf_path fh) (Data buf) offset (Hf_Word fhi) (snd hs)))"

definition usfs_fsync_hdfs :: "namenode_state \<Rightarrow> 's hadooprpc \<Rightarrow> nat \<Rightarrow> hdfs_heap \<times> 's \<Rightarrow> (int \<times> hdfs_heap \<times> 's) cres" where
  "usfs_fsync_hdfs nn rpc fhi hs =
     cbind (handle_at (fst hs) fhi) (\<lambda>fh. cmap (\<lambda>(rc, s1). (- rc, fst hs, s1)) (hadoop_fuse_fsync nn rpc (hf_path fh) (snd hs)))"

definition usfs_truncate_hdfs :: "nat \<Rightarrow> nat \<Rightarrow> namenode_state \<Rightarrow> 's hadooprpc \<Rightarrow> (nat \<Rightarrow> bytes) \<Rightarrow> string \<Rightarrow> int \<Rightarrow> 's \<Rightarrow> (int \<times> 's) cres" where
  "usfs_truncate_hdfs k n nn rpc memory path len s = cmap (\<lambda>(rc, s1). (- rc, s1)) (hadoop_fuse_truncate k n nn rpc memory path len s)"

definition usfs_ftruncate_hdfs :: "nat \<Rightarrow> nat \<Rightarrow> namenode_state \<Rightarrow> 's hadooprpc \<Rightarrow> (nat \<Rightarrow> bytes) \<Rightarrow> nat \<Rightarrow> int \<Rightarrow> hdfs_heap \<times> 's \<Rightarrow> (int \<times> hdfs_heap \<times> 's) cres" where
  "usfs_ftruncate_hdfs k n nn rpc memory fhi offset hs =
     cbind (handle_at (fst hs) fhi) (\<lambda>fh.
     cmap (\<lambda>((rc, _), s1). (- rc, fst hs, s1)) (hadoop_fuse_ftruncate k n nn rpc memory (hf_path fh) offset (Hf_Word fhi) (snd hs)))"

definition usfs_getattr_hdfs :: "namenode_state \<Rightarrow> 's hadooprpc \<Rightarrow> user_db \<Rightarrow> string \<Rightarrow> 's \<Rightarrow> ((int \<times> hdfs_stat) \<times> 's) cres" where
  "usfs_getattr_hdfs nn rpc db path s = cmap (\<lambda>((rc, st), s1). ((- rc, st), s1)) (hadoop_fuse_getattr nn rpc db path s)"

definition usfs_fgetattr_hdfs :: "namenode_state \<Rightarrow> 's hadooprpc \<Rightarrow> user_db \<Rightarrow> nat \<Rightarrow> hdfs_heap \<times> 's \<Rightarrow> ((int \<times> hdfs_stat) \<times> 's) cres" where
  "usfs_fgetattr_hdfs nn rpc db fhi hs = cbind (handle_at (fst hs) fhi) (\<lambda>fh. usfs_getattr_hdfs nn rpc db (hf_path fh) (snd hs))"

definition usfs_unlink_hdfs :: "'s hadooprpc \<Rightarrow> string \<Rightarrow> 's \<Rightarrow> (int \<times> 's) cres" where
  "usfs_unlink_hdfs rpc path s = cmap (\<lambda>(rc, s1). (- rc, s1)) (hadoop_fuse_delete rpc path s)"

definition usfs_close_hdfs :: "nat \<Rightarrow> int" where
  "usfs_close_hdfs ret_fh = 0"


section \<open>Start\<close>

text \<open>\<^verbatim>\<open>usfs_init\<close>: host and port are the parts of the backend between colons; a missing port is a null pointer for \<^verbatim>\<open>atoi\<close>.\<close>

fun colon_parts :: "string \<Rightarrow> string \<Rightarrow> string list" where
  "colon_parts part [] = (if part = [] then [] else [part])"
| "colon_parts part (c # cs) =
     (if c = CHR '':'' then (if part = [] then colon_parts [] cs else part # colon_parts [] cs) else colon_parts (part @ [c]) cs)"

fun digits_value :: "int \<Rightarrow> string \<Rightarrow> int" where
  "digits_value acc [] = acc"
| "digits_value acc (c # cs) =
     (if 48 \<le> (of_char c :: int) \<and> (of_char c :: int) \<le> 57 then digits_value (acc * 10 + (of_char c - 48)) cs else acc)"

definition c_spaces :: "char set" where
  "c_spaces = {CHR '' '', CHR 0x09, CHR 0x0A, CHR 0x0B, CHR 0x0C, CHR 0x0D}"

definition atoi :: "string \<Rightarrow> int" where
  "atoi str =
     (case dropWhile (\<lambda>c. c \<in> c_spaces) str of
        [] \<Rightarrow> 0
      | c # cs \<Rightarrow> if c = CHR ''-'' then - digits_value 0 cs else if c = CHR ''+'' then digits_value 0 cs else digits_value 0 (c # cs))"

definition usfs_init_hdfs :: "'w hdfs_env \<Rightarrow> string \<Rightarrow> 'w connection_state \<Rightarrow> (namenode_state \<times> 'w connection_state) cres" where
  "usfs_init_hdfs e backend s =
     (case colon_parts [] backend of
        host # port # _ \<Rightarrow>
          cbind (hadoop_rpc_connect_namenode e host (nat (atoi port mod 2 ^ 16))
            \<lparr>nn_clientname = ''hadoop_fuse'', nn_packetsize = 0, nn_blocksize = 0, nn_replication = 0, nn_bytesperchecksum = 0, nn_checksumtype = CHECKSUM_NULL\<rparr> s)
            (\<lambda>((res, nn), s1). if res < 0 then Exited else Ret (nn, s1))
      | _ \<Rightarrow> Undef Null_Deref)"


end
