(* ===== verification/Hdfs_Files.thy ===== *)
theory Hdfs_Files
  imports Hdfs_Wrap
begin

text \<open>
  What the HDFS library does to a file, given a name node and data nodes that behave as documented: appending, reading back, and the
  operations that the library gets wrong. The file is its blocks, each a number and its bytes.
\<close>

section \<open>Servers\<close>

type_synonym hdfs_blocks = "(nat \<times> bytes) list"

definition file_bytes :: "hdfs_blocks \<Rightarrow> bytes" where
  "file_bytes v = concat (map snd v)"

text \<open>The located blocks that describe a file.\<close>

definition describes :: "located_block \<Rightarrow> nat \<Rightarrow> nat \<times> bytes \<Rightarrow> bool" where
  "describes lb off ic \<longleftrightarrow> lb_offset lb = off \<and> eb_blockid (lb_b lb) = fst ic \<and> eb_has_numbytes (lb_b lb) \<and>
     eb_numbytes (lb_b lb) = length (snd ic) \<and> lb_locs lb \<noteq> [] \<and> \<not> lb_corrupt lb"

fun locates :: "nat \<Rightarrow> hdfs_blocks \<Rightarrow> located_block list \<Rightarrow> bool" where
  "locates off [] lbs \<longleftrightarrow> lbs = []"
| "locates off (ic # v) lbs \<longleftrightarrow> (\<exists>lb lbs'. lbs = lb # lbs' \<and> describes lb off ic \<and> locates (off + length (snd ic)) v lbs')"

text \<open>
  The name node, for the file \<open>src\<close>: it describes the blocks of the file that overlap a range, grants the lease, gives new versions of
  blocks and new empty blocks, and says at some time that the file is complete, after at most \<open>N\<close> refusals.
\<close>

definition name_node :: "'s hadooprpc \<Rightarrow> namenode_state \<Rightarrow> string \<Rightarrow> ('s \<Rightarrow> hdfs_blocks) \<Rightarrow> ('s \<Rightarrow> nat) \<Rightarrow> nat \<Rightarrow> bool" where
  "name_node rpc nn src view waits N \<longleftrightarrow>
     (\<forall>s off sz. \<exists>lbs all s'. call_nn rpc (Nn_getBlockLocations src off sz) s = Ret ((0, Some (Re_locations (Some lbs))), s') \<and> view s' = view s \<and>
        lbs_filelength lbs = length (file_bytes (view s)) \<and> \<not> lbs_underconstruction lbs \<and> locates 0 (view s) all \<and>
        lbs_blocks lbs = filter (\<lambda>lb. lb_offset lb < off + sz \<and> off < lb_offset lb + eb_numbytes (lb_b lb)) all) \<and>
     (\<forall>s. \<exists>lb s'. call_nn rpc (Nn_append src (nn_clientname nn)) s = Ret ((0, Some (Re_append lb)), s') \<and> view s' = view s) \<and>
     (\<forall>s b. \<exists>lb s'. call_nn rpc (Nn_updateBlockForPipeline (nn_clientname nn) b) s = Ret ((0, Some (Re_block lb)), s') \<and> view s' = view s) \<and>
     (\<forall>s b b' locs ids. \<exists>s'. call_nn rpc (Nn_updatePipeline (nn_clientname nn) b b' locs ids) s = Ret ((0, Some Re_void), s') \<and> view s' = view s) \<and>
     (\<forall>s b i. \<exists>lb s'. call_nn rpc (Nn_addBlock src (nn_clientname nn) b True i) s = Ret ((0, Some (Re_block lb)), s') \<and>
        view s' = view s @ [(eb_blockid (lb_b lb), [])] \<and> eb_blockid (lb_b lb) \<notin> fst ` set (view s) \<and> lb_locs lb \<noteq> []) \<and>
     (\<forall>s h i b. \<exists>c s'. call_nn rpc (Nn_complete src (nn_clientname nn) h i b) s = Ret ((0, Some (Re_result c)), s') \<and> view s' = view s \<and>
        waits s \<le> N \<and> (\<not> c \<longrightarrow> waits s' < waits s))"

text \<open>Writing bytes into a block.\<close>

definition splice_block :: "nat \<Rightarrow> bytes \<Rightarrow> bytes \<Rightarrow> bytes" where
  "splice_block off d c = take off c @ d @ drop (off + length d) c"

definition store_block :: "nat \<Rightarrow> nat \<Rightarrow> bytes \<Rightarrow> hdfs_blocks \<Rightarrow> hdfs_blocks" where
  "store_block i off d v = map (\<lambda>(j, c). (j, if j = i then splice_block off d c else c)) v"

definition nn_checksum :: "namenode_state \<Rightarrow> checksum_proto" where
  "nn_checksum nn = \<lparr>ck_type = nn_checksumtype nn, bytesperchecksum = nn_bytesperchecksum nn\<rparr>"

text \<open>
  A data node: a connection can be made, it takes a write, and after the packets and the end of the connection the block has the data. The
  data starts at a multiple of the bytes per checksum.
\<close>

definition data_node :: "'s hadooprpc \<Rightarrow> namenode_state \<Rightarrow> ('s \<Rightarrow> hdfs_blocks) \<Rightarrow> bool" where
  "data_node rpc nn view \<longleftrightarrow>
     (\<forall>host port s oper from len off.
        pos_ok from \<and> bufferoffset from + len \<le> pos_len from \<and> len < 2 ^ 31 \<and> off < 2 ^ 31 \<and> nn_bytesperchecksum nn dvd off \<and> ow_checksum oper = nn_checksum nn \<longrightarrow>
        (\<exists>s1 s2 s3. connect_dn rpc host port s = (0, s1) \<and> call_write rpc oper s1 = Ret (0, s2) \<and>
           send_packets rpc from len off (nn_packetsize nn) (nn_checksum nn) s2 = Ret (0, from\<lparr>bufferoffset := bufferoffset from + len\<rparr>, s3) \<and>
           view (disconnect_dn rpc s3) =
             store_block (eb_blockid (ow_block oper)) off (take len (drop (bufferoffset from) (contents (buffers from)))) (view s)))"

text \<open>A data node that is read: it answers with the offset of the first chunk it sends, which may lie before the one asked for.\<close>

definition data_source :: "'s hadooprpc \<Rightarrow> ('s \<Rightarrow> hdfs_blocks) \<Rightarrow> bool" where
  "data_source rpc view \<longleftrightarrow>
     (\<forall>host port s oper buf c.
        map_of (view s) (eb_blockid (or_block oper)) = Some c \<and> or_offset oper + or_len oper \<le> length c \<and> or_len oper = length buf \<longrightarrow>
        (\<exists>s1 s2 r start s3. connect_dn rpc host port s = (0, s1) \<and> call_read rpc oper s1 = Ret ((0, Some r), s2) \<and>
           op_chunkoffset r = Some start \<and> start \<le> or_offset oper \<and>
           receive_packets rpc (or_offset oper - start) (or_len oper) buf s2 =
             Some (Ret (0, take (or_len oper) (drop (or_offset oper) c), s3))))"

section \<open>Sizes\<close>

lemma sub64_le:
  assumes "b \<le> a" and "a < 2 ^ 64"
  shows "sub64 a b = a - b"
proof -
  have "(int a - int b) mod 2 ^ 64 = int a - int b" using assms by (intro mod_pos_pos_trivial) auto
  then show ?thesis unfolding sub64_def by linarith
qed

lemma add64_small: "a + b < 2 ^ 64 \<Longrightarrow> add64 a b = a + b"
  unfolding add64_def by (rule mod_less)

lemma of_off_t_small:
  assumes "n < 2 ^ 64"
  shows "of_off_t (int n) = n"
proof -
  have "int n mod 2 ^ 64 = int n" using assms by (intro mod_pos_pos_trivial) auto
  then show ?thesis unfolding of_off_t_def by linarith
qed

section \<open>Writing one block\<close>

lemma write_block_stores:
  assumes dn: "data_node rpc nn view"
    and pos: "pos_ok from" "bufferoffset from + len \<le> pos_len from" "0 < pos_len from" "len < 2 ^ 31"
    and off: "off < 2 ^ 31" "nn_bytesperchecksum nn dvd off" and locs: "lb_locs block \<noteq> []"
  shows "\<exists>nb s'. hadoop_fuse_write_block nn rpc from len off (nn_checksum nn) block newblock s =
      Ret ((int len, nb), from\<lparr>bufferoffset := bufferoffset from + len\<rparr>, s') \<and>
    view s' = store_block (eb_blockid (lb_b block)) off (take len (drop (bufferoffset from) (contents (buffers from)))) (view s)"
proof -
  define b where "b = lb_b newblock"
  define newlen where "newlen = max (if eb_has_numbytes b then eb_numbytes b else 0) (add64 off len)"
  define oper where "oper = write_request nn newlen (nn_checksum nn) block newblock"
  let ?oper = "oper\<lparr>ow_targets := take 0 (lb_locs block) @ drop (Suc 0) (lb_locs block)\<rparr>"
  have ck: "ow_checksum ?oper = nn_checksum nn" "ow_checksum oper = nn_checksum nn" "ow_block ?oper = lb_b block"
    by (simp_all add: oper_def write_request_def)
  obtain s1 s2 s3 where s: "connect_dn rpc (ipaddr (lb_locs block ! 0)) (xferport (lb_locs block ! 0) mod 2 ^ 16) s = (0, s1)"
      "call_write rpc ?oper s1 = Ret (0, s2)"
      "send_packets rpc from len off (nn_packetsize nn) (nn_checksum nn) s2 = Ret (0, from\<lparr>bufferoffset := bufferoffset from + len\<rparr>, s3)"
      "view (disconnect_dn rpc s3) =
        store_block (eb_blockid (ow_block ?oper)) off (take len (drop (bufferoffset from) (contents (buffers from)))) (view s)"
    using dn pos off ck(1) unfolding data_node_def by meson
  have first: "[0..<length (lb_locs block)] = 0 # [Suc 0..<length (lb_locs block)]"
    using locs by (simp add: upt_conv_Cons)
  have "write_block_loop nn rpc oper (lb_locs block) len off [0..<length (lb_locs block)] 0 from s =
      Ret ((0, True), from\<lparr>bufferoffset := bufferoffset from + len\<rparr>, disconnect_dn rpc s3)"
    unfolding first write_block_loop.simps s(1) prod.case using s(2,3) ck(2) by simp
  moreover have "to_c_int (int len) = int len" using pos(4) by (intro to_c_int_id) auto
  ultimately have "hadoop_fuse_write_block nn rpc from len off (nn_checksum nn) block newblock s =
      Ret ((int len, newblock\<lparr>lb_b := b\<lparr>eb_has_numbytes := True, eb_numbytes := newlen\<rparr>\<rparr>), from\<lparr>bufferoffset := bufferoffset from + len\<rparr>,
        disconnect_dn rpc s3)"
    using pos(3) locs unfolding hadoop_fuse_write_block_def Let_def b_def [symmetric] newlen_def [symmetric] oper_def [symmetric] by simp
  then show ?thesis using s(4) ck(3) by auto
qed


section \<open>Adding blocks\<close>

text \<open>The shape of a file's blocks: all but the last are full; each has its own number and some bytes.\<close>

definition full_blocks :: "nat \<Rightarrow> hdfs_blocks \<Rightarrow> bool" where
  "full_blocks bs v \<longleftrightarrow> (\<forall>ic \<in> set (butlast v). length (snd ic) = bs) \<and> (\<forall>ic \<in> set v. length (snd ic) \<le> bs)"

definition file_ok :: "nat \<Rightarrow> hdfs_blocks \<Rightarrow> bool" where
  "file_ok bs v \<longleftrightarrow> full_blocks bs v \<and> distinct (map fst v) \<and> (\<forall>ic \<in> set v. snd ic \<noteq> [])"

lemma full_blocks_Cons: "full_blocks bs (ic # v) \<longleftrightarrow> length (snd ic) \<le> bs \<and> (v \<noteq> [] \<longrightarrow> length (snd ic) = bs) \<and> full_blocks bs v"
  by (auto simp: full_blocks_def)

lemma full_blocks_append:
  assumes "full_blocks bs v" "full_blocks bs w" and "v \<noteq> [] \<Longrightarrow> w \<noteq> [] \<Longrightarrow> length (snd (last v)) = bs"
  shows "full_blocks bs (v @ w)"
  using assms
proof (induction v)
  case (Cons ic v)
  then show ?case by (cases v) (simp_all add: full_blocks_Cons)
qed simp

lemma store_fresh: "i \<notin> fst ` set v \<Longrightarrow> store_block i 0 d (v @ [(i, [])]) = v @ [(i, d)]"
  by (induction v) (auto simp: store_block_def splice_block_def)

text \<open>One turn of the loop: a new block with the next bytes.\<close>

lemma add_block_step:
  assumes nn: "name_node rpc nn src view waits N" and dn: "data_node rpc nn view" and bs: "0 < bs" "bs < 2 ^ 31"
    and pos: "pos_ok from" "bufferoffset from < pos_len from" "pos_len from < 2 ^ 64" "0 \<le> res"
    and len: "len = min bs (pos_len from - bufferoffset from)"
  shows "\<exists>i nb s'. add_blocks (Suc n) nn rpc (nn_checksum nn) src fileid bs res lst from s =
      add_blocks n nn rpc (nn_checksum nn) src fileid bs (int len) nb (from\<lparr>bufferoffset := bufferoffset from + len\<rparr>) s' \<and>
    view s' = view s @ [(i, take len (drop (bufferoffset from) (contents (buffers from))))] \<and> i \<notin> fst ` set (view s)"
proof -
  have l: "hadoop_fuse_bytestowrite from 0 bs = len"
    using pos bs unfolding len hadoop_fuse_bytestowrite_def by (simp only: sub64_le) (simp add: sub64_le)
  obtain lb s1 where a: "call_nn rpc (Nn_addBlock src (nn_clientname nn) lst True fileid) s = Ret ((0, Some (Re_block lb)), s1)"
      "view s1 = view s @ [(eb_blockid (lb_b lb), [])]" "eb_blockid (lb_b lb) \<notin> fst ` set (view s)" "lb_locs lb \<noteq> []"
    using nn unfolding name_node_def by meson
  have lens: "bufferoffset from + len \<le> pos_len from" "len < 2 ^ 31" "0 < pos_len from" using len bs pos by auto
  obtain nb s2 where w: "hadoop_fuse_write_block nn rpc from len 0 (nn_checksum nn) lb lb s1 =
        Ret ((int len, nb), from\<lparr>bufferoffset := bufferoffset from + len\<rparr>, s2)"
      "view s2 = store_block (eb_blockid (lb_b lb)) 0 (take len (drop (bufferoffset from) (contents (buffers from)))) (view s1)"
    using write_block_stores [OF dn pos(1) lens(1,3,2) _ _ a(4), of 0 lb s1] by auto
  have "view s2 = view s @ [(eb_blockid (lb_b lb), take len (drop (bufferoffset from) (contents (buffers from))))]"
    using w(2) a(2,3) by (simp add: store_fresh)
  moreover have "add_blocks (Suc n) nn rpc (nn_checksum nn) src fileid bs res lst from s =
      add_blocks n nn rpc (nn_checksum nn) src fileid bs (int len) (Some (lb_b nb)) (from\<lparr>bufferoffset := bufferoffset from + len\<rparr>) s2"
    using pos a(1) w(1) by (subst add_blocks.simps) (simp add: l hadoop_fuse_clone_block_def del: add_blocks.simps)
  ultimately show ?thesis using a(3) by blast
qed

lemma add_blocks_appends:
  assumes nn: "name_node rpc nn src view waits N" and dn: "data_node rpc nn view" and bs: "0 < bs" "bs < 2 ^ 31"
  shows "pos_ok from \<Longrightarrow> bufferoffset from \<le> pos_len from \<Longrightarrow> pos_len from < 2 ^ 64 \<Longrightarrow> 0 \<le> res \<Longrightarrow>
    pos_len from - bufferoffset from \<le> n * bs \<Longrightarrow> distinct (map fst (view s)) \<Longrightarrow>
    \<exists>res' lst' s' ws. add_blocks (Suc n) nn rpc (nn_checksum nn) src fileid bs res lst from s =
        Ret ((res', lst'), from\<lparr>bufferoffset := pos_len from\<rparr>, s') \<and> 0 \<le> res' \<and> view s' = view s @ ws \<and>
      file_bytes ws = drop (bufferoffset from) (contents (buffers from)) \<and> full_blocks bs ws \<and> (\<forall>ic \<in> set ws. snd ic \<noteq> []) \<and>
      distinct (map fst (view s'))"
proof (induction n arbitrary: "from" res lst s)
  case 0
  then have "bufferoffset from = pos_len from" "drop (bufferoffset from) (contents (buffers from)) = []" by (auto simp: pos_ok_def)
  then show ?case using 0 by (auto simp: file_bytes_def full_blocks_def)
next
  case (Suc n)
  show ?case
  proof (cases "bufferoffset from < pos_len from")
    case False
    then have "bufferoffset from = pos_len from" "drop (bufferoffset from) (contents (buffers from)) = []"
      using Suc.prems by (auto simp: pos_ok_def)
    then show ?thesis using Suc.prems by (subst add_blocks.simps) (auto simp: file_bytes_def full_blocks_def)
  next
    case True
    define len where "len = min bs (pos_len from - bufferoffset from)"
    let ?d = "take len (drop (bufferoffset from) (contents (buffers from)))"
    let ?from = "from\<lparr>bufferoffset := bufferoffset from + len\<rparr>"
    obtain i nb s2 where s2: "add_blocks (Suc (Suc n)) nn rpc (nn_checksum nn) src fileid bs res lst from s =
          add_blocks (Suc n) nn rpc (nn_checksum nn) src fileid bs (int len) nb ?from s2"
        "view s2 = view s @ [(i, ?d)]" "i \<notin> fst ` set (view s)"
      using add_block_step [OF nn dn bs Suc.prems(1) True Suc.prems(3,4) len_def] by blast
    have from1: "pos_ok ?from" "bufferoffset ?from \<le> pos_len ?from" "pos_len ?from < 2 ^ 64" "pos_len ?from - bufferoffset ?from \<le> n * bs"
      using Suc.prems True by (auto simp: pos_ok_def len_def)
    obtain res' lst' s' ws where r: "add_blocks (Suc (Suc n)) nn rpc (nn_checksum nn) src fileid bs res lst from s =
          Ret ((res', lst'), from\<lparr>bufferoffset := pos_len from\<rparr>, s')" "0 \<le> res'" "view s' = view s2 @ ws"
        "file_bytes ws = drop (bufferoffset from + len) (contents (buffers from))" "full_blocks bs ws" "\<forall>ic \<in> set ws. snd ic \<noteq> []"
        "distinct (map fst (view s'))"
      using Suc.IH [OF from1(1-3) _ from1(4), of "int len" s2 nb] s2 Suc.prems(6) by auto
    have ld: "length ?d = len" "?d \<noteq> []" using Suc.prems(1) True bs by (auto simp: pos_ok_def len_def)
    have "ws = []" if "len \<noteq> bs"
    proof -
      have "file_bytes ws = []" using r(4) Suc.prems(1) that by (auto simp: pos_ok_def len_def)
      then show ?thesis using r(6) by (cases ws) (auto simp: file_bytes_def)
    qed
    then have "full_blocks bs ((i, ?d) # ws)" using r(5) ld by (auto simp: full_blocks_Cons len_def)
    moreover have "file_bytes ((i, ?d) # ws) = drop (bufferoffset from) (contents (buffers from))"
      using r(4) by (simp add: file_bytes_def) (metis add.commute append_take_drop_id drop_drop)
    ultimately show ?thesis
      using r s2(2) ld by (intro exI [of _ res'] exI [of _ lst'] exI [of _ s'] exI [of _ "(i, ?d) # ws"]) simp
  qed
qed


section \<open>The last block\<close>

lemma store_last: "i \<notin> fst ` set v \<Longrightarrow> store_block i (length c) d (v @ [(i, c)]) = v @ [(i, c @ d)]"
  by (induction v) (auto simp: store_block_def splice_block_def)

lemma locates_length: "locates off v lbs \<Longrightarrow> length lbs = length v"
  by (induction v arbitrary: off lbs) auto

lemma locates_last: "locates off (v @ [ic]) lbs \<Longrightarrow> lbs \<noteq> [] \<and> describes (last lbs) (off + length (file_bytes v)) ic"
proof (induction v arbitrary: off lbs)
  case Nil
  then show ?case by (auto simp: file_bytes_def)
next
  case (Cons jd v)
  then obtain lb lbs' where "lbs = lb # lbs'" "locates (off + length (snd jd)) (v @ [ic]) lbs'" by auto
  then show ?case using Cons.IH [of "off + length (snd jd)" lbs'] by (auto simp: file_bytes_def add.assoc)
qed

lemma write_last_block_appends:
  assumes nn: "name_node rpc nn src view waits N" and dn: "data_node rpc nn view"
    and v: "view s = v @ [(i, c)]" "i \<notin> fst ` set v" "length c < 2 ^ 31" "nn_bytesperchecksum nn dvd length c" and lb: "describes lb off (i, c)"
    and pos: "pos_ok from" "bufferoffset from + len \<le> pos_len from" "0 < pos_len from" "len < 2 ^ 31"
  shows "\<exists>lst' s'. write_last_block nn rpc (nn_checksum nn) len (length c) lb lst from s =
      Ret ((0, lst'), from\<lparr>bufferoffset := bufferoffset from + len\<rparr>, s') \<and>
    view s' = v @ [(i, c @ take len (drop (bufferoffset from) (contents (buffers from))))]"
proof -
  obtain block s1 where s1: "call_nn rpc (Nn_updateBlockForPipeline (nn_clientname nn) (lb_b lb)) s = Ret ((0, Some (Re_block block)), s1)" "view s1 = view s"
    using nn unfolding name_node_def by meson
  have locs: "lb_locs lb \<noteq> []" "eb_blockid (lb_b lb) = i" using lb by (simp_all add: describes_def)
  obtain nb s2 where s2: "hadoop_fuse_write_block nn rpc from len (length c) (nn_checksum nn) lb block s1 =
        Ret ((int len, nb), from\<lparr>bufferoffset := bufferoffset from + len\<rparr>, s2)"
      "view s2 = store_block i (length c) (take len (drop (bufferoffset from) (contents (buffers from)))) (view s1)"
    using write_block_stores [OF dn pos v(3,4) locs(1), of block s1] locs(2) by auto
  obtain s3 where s3: "call_nn rpc (Nn_updatePipeline (nn_clientname nn) (lb_b lb) (lb_b nb) (lb_locs lb) (lb_storageids lb)) s2 = Ret ((0, Some Re_void), s3)"
      "view s3 = view s2"
    using nn unfolding name_node_def by meson
  have "write_last_block nn rpc (nn_checksum nn) len (length c) lb lst from s =
      Ret ((0, Some (lb_b nb)), from\<lparr>bufferoffset := bufferoffset from + len\<rparr>, s3)"
    using s1(1) s2(1) s3(1) by (simp add: write_last_block_def hadoop_fuse_clone_block_def)
  then show ?thesis using s1(2) s2(2) s3(2) v(1,2) by (auto simp: store_last)
qed

lemma complete_returns:
  assumes "name_node rpc nn src view waits N"
  shows "waits s < n \<Longrightarrow> \<exists>s'. hadoop_fuse_complete n nn rpc src fileid lst s = Ret (0, s') \<and> view s' = view s"
proof (induction n arbitrary: s)
  case (Suc n)
  obtain c s1 where c: "call_nn rpc (Nn_complete src (nn_clientname nn) (0 < fileid) fileid lst) s = Ret ((0, Some (Re_result c)), s1)" "view s1 = view s"
      "\<not> c \<longrightarrow> waits s1 < waits s"
    using assms unfolding name_node_def by meson
  show ?case
  proof (cases c)
    case False
    then have "waits s1 < n" using c(3) Suc.prems by simp
    then show ?thesis using Suc.IH [of s1] c False by auto
  qed (use c in auto)
qed simp

text \<open>What the last block takes: all of it, or as much as fits.\<close>

lemma write_in_last_appends:
  assumes nn: "name_node rpc nn src view waits N" and dn: "data_node rpc nn view" and bs: "0 < bs" "bs < 2 ^ 31"
    and v: "file_ok bs (view s)" "view s \<noteq> [] \<Longrightarrow> nn_bytesperchecksum nn dvd length (snd (last (view s)))"
    and lbs: "locates 0 (view s) lbs" and size: "length (file_bytes (view s)) + bs < 2 ^ 64"
    and pos: "pos_ok from" "bufferoffset from = 0" "0 < pos_len from" "pos_len from < 2 ^ 64"
  shows "\<exists>res lst' m s'. write_in_last nn rpc (nn_checksum nn) bs (length (file_bytes (view s))) (if lbs = [] then None else Some (last lbs)) lst from s =
      Ret ((res, lst'), from\<lparr>bufferoffset := m\<rparr>, s') \<and> 0 \<le> res \<and> m \<le> pos_len from \<and>
    file_bytes (view s') = file_bytes (view s) @ take m (contents (buffers from)) \<and> file_ok bs (view s') \<and>
    (m < pos_len from \<longrightarrow> view s' = [] \<or> length (snd (last (view s'))) = bs)"
proof (cases "view s" rule: rev_exhaust)
  case Nil
  then show ?thesis
    using lbs pos v by (intro exI [of _ 0] exI [of _ lst] exI [of _ 0] exI [of _ s]) (simp add: write_in_last_def)
next
  case (snoc u ic)
  obtain i c where ic: "ic = (i, c)" by fastforce
  have lb: "lbs \<noteq> []" "describes (last lbs) (length (file_bytes u)) (i, c)" using locates_last [of 0 u ic lbs] lbs snoc ic by auto
  have c: "length c \<le> bs" "i \<notin> fst ` set u" "nn_bytesperchecksum nn dvd length c" using v snoc ic by (auto simp: full_blocks_def file_ok_def)
  have total: "length (file_bytes (view s)) = length (file_bytes u) + length c" using snoc ic by (simp add: file_bytes_def)
  have off: "add64 (lb_offset (last lbs)) bs = length (file_bytes u) + bs" "sub64 (length (file_bytes (view s))) (lb_offset (last lbs)) = length c"
    using lb(2) size total c(1) by (simp_all add: describes_def add64_small sub64_le)
  show ?thesis
  proof (cases "length c < bs")
    case False
    then show ?thesis
      using lb(1) off total pos v snoc ic c(1) by (intro exI [of _ 0] exI [of _ lst] exI [of _ 0] exI [of _ s]) (simp add: write_in_last_def)
  next
    case True
    define len where "len = min (bs - length c) (pos_len from)"
    have l: "hadoop_fuse_bytestowrite from (length c) bs = len"
      using True pos bs by (simp add: hadoop_fuse_bytestowrite_def len_def sub64_le)
    have lens: "bufferoffset from + len \<le> pos_len from" "len < 2 ^ 31" using pos bs by (auto simp: len_def)
    obtain lst' s' where w: "write_last_block nn rpc (nn_checksum nn) len (length c) (last lbs) lst from s = Ret ((0, lst'), from\<lparr>bufferoffset := len\<rparr>, s')"
        "view s' = u @ [(i, c @ take len (contents (buffers from)))]"
      using write_last_block_appends [OF nn dn _ c(2) _ c(3) lb(2) pos(1) lens(1) pos(3) lens(2), of s lst] snoc ic pos(2) True bs(2) by auto
    have "length (take len (contents (buffers from))) = len" using pos(1) by (simp add: pos_ok_def len_def)
    then have f: "file_ok bs (view s')" "len < pos_len from \<longrightarrow> length (snd (last (view s'))) = bs"
      using v(1) snoc w(2) c(1,2) ic by (auto simp: full_blocks_def file_ok_def len_def)
    have "write_in_last nn rpc (nn_checksum nn) bs (length (file_bytes (view s))) (if lbs = [] then None else Some (last lbs)) lst from s =
        Ret ((0, lst'), from\<lparr>bufferoffset := len\<rparr>, s')"
      using w(1) lb(1) off True l by (simp add: write_in_last_def Let_def total)
    moreover have "file_bytes (view s') = file_bytes (view s) @ take len (contents (buffers from))"
      using w(2) snoc ic by (simp add: file_bytes_def)
    ultimately show ?thesis
      using f lens(1) by (intro exI [of _ 0] exI [of _ lst'] exI [of _ len] exI [of _ s']) simp
  qed
qed


lemma do_write_appends:
  assumes nn: "name_node rpc nn src view waits N" and dn: "data_node rpc nn view" and bs: "0 < bs" "bs < 2 ^ 31" "hf_blocksize fh = bs"
    and v: "file_ok bs (view s)" "view s \<noteq> [] \<Longrightarrow> nn_bytesperchecksum nn dvd length (snd (last (view s)))"
    and lbs: "locates 0 (view s) lbs" and size: "length (file_bytes (view s)) + bs < 2 ^ 64"
    and pos: "pos_ok from" "bufferoffset from = 0" "0 < pos_len from" "pos_len from < 2 ^ 64" and n: "pos_len from \<le> n * bs"
  shows "\<exists>res lst' from' s'. hadoop_fuse_do_write (Suc n) nn rpc src from (length (file_bytes (view s))) (Hf_Handle fh)
        (if lbs = [] then None else Some (last lbs)) lst s = Ret ((res, lst'), from', s') \<and> 0 \<le> res \<and>
      file_bytes (view s') = file_bytes (view s) @ contents (buffers from) \<and> file_ok bs (view s')"
proof -
  let ?lastloc = "if lbs = [] then None else Some (last lbs)"
  obtain res lst1 m s1 where w: "write_in_last nn rpc (nn_checksum nn) bs (length (file_bytes (view s))) ?lastloc lst from s =
        Ret ((res, lst1), from\<lparr>bufferoffset := m\<rparr>, s1)" "0 \<le> res" "m \<le> pos_len from"
      "file_bytes (view s1) = file_bytes (view s) @ take m (contents (buffers from))" "file_ok bs (view s1)"
      "m < pos_len from \<longrightarrow> view s1 = [] \<or> length (snd (last (view s1))) = bs"
    using write_in_last_appends [OF nn dn bs(1,2) v lbs size pos, of lst] by blast
  let ?from = "from\<lparr>bufferoffset := m\<rparr>"
  have from1: "pos_ok ?from" "bufferoffset ?from \<le> pos_len ?from" "pos_len ?from < 2 ^ 64" "pos_len ?from - bufferoffset ?from \<le> n * bs"
    using pos w(3) n by (auto simp: pos_ok_def)
  obtain res' lst' s' ws where a: "add_blocks (Suc n) nn rpc (nn_checksum nn) src (hf_fileid fh) bs res lst1 ?from s1 =
        Ret ((res', lst'), ?from\<lparr>bufferoffset := pos_len ?from\<rparr>, s')" "0 \<le> res'" "view s' = view s1 @ ws"
      "file_bytes ws = drop m (contents (buffers from))" "full_blocks bs ws" "\<forall>ic \<in> set ws. snd ic \<noteq> []" "distinct (map fst (view s'))"
    using add_blocks_appends [OF nn dn bs(1,2) from1(1-3) w(2) from1(4), of s1 "hf_fileid fh" lst1] w(5) by (auto simp: file_ok_def)
  have "m < pos_len from" if "ws \<noteq> []"
  proof -
    have "file_bytes ws \<noteq> []" using a(6) that by (cases ws) (auto simp: file_bytes_def)
    then show ?thesis using a(4) pos(1) by (auto simp: pos_ok_def)
  qed
  then have "file_ok bs (view s')"
    using full_blocks_append [OF _ a(5), of "view s1"] w(5,6) a(3,6,7) by (auto simp: file_ok_def)
  moreover have "lbs \<noteq> [] \<Longrightarrow> \<not> length (file_bytes (view s)) < lb_offset (last lbs) \<and> eb_has_numbytes (lb_b (last lbs))"
  proof (cases "view s" rule: rev_exhaust)
    case (snoc u ic)
    then show ?thesis using locates_last [of 0 u ic lbs] lbs by (auto simp: describes_def file_bytes_def)
  qed (use lbs in simp)
  then have "hadoop_fuse_do_write (Suc n) nn rpc src from (length (file_bytes (view s))) (Hf_Handle fh) ?lastloc lst s =
      Ret ((res', lst'), ?from\<lparr>bufferoffset := pos_len ?from\<rparr>, s')"
    using w(1,2) a(1) bs(1,3) pos(2)
    by (cases "lbs = []") (simp_all add: hadoop_fuse_do_write_def nn_checksum_def [symmetric] Let_def del: add_blocks.simps)
  moreover have "file_bytes (view s') = file_bytes (view s) @ contents (buffers from)"
    using a(3,4) w(4) by (simp add: file_bytes_def)
  ultimately show ?thesis using a(2) by blast
qed

lemma locates_range:
  "locates off v lbs \<Longrightarrow> \<forall>ic \<in> set v. snd ic \<noteq> [] \<Longrightarrow> lb \<in> set lbs \<Longrightarrow>
    off < lb_offset lb + eb_numbytes (lb_b lb) \<and> lb_offset lb < off + length (file_bytes v)"
proof (induction v arbitrary: off lbs)
  case (Cons ic v)
  then obtain lb' lbs' where l: "lbs = lb' # lbs'" "describes lb' off ic" "locates (off + length (snd ic)) v lbs'" by auto
  show ?case
  proof (cases "lb = lb'")
    case True
    then show ?thesis using l(2) Cons.prems(2) by (cases "snd ic") (auto simp: describes_def file_bytes_def)
  next
    case False
    then show ?thesis using Cons.IH [OF l(3)] Cons.prems l(1) by (auto simp: file_bytes_def)
  qed
qed simp

lemma all_locations:
  assumes "name_node rpc nn src view waits N" and "\<forall>ic \<in> set (view s). snd ic \<noteq> []" "length (file_bytes (view s)) \<le> ALL_BYTES"
  shows "\<exists>lbs s'. call_nn rpc (Nn_getBlockLocations src 0 ALL_BYTES) s = Ret ((0, Some (Re_locations (Some lbs))), s') \<and> view s' = view s \<and>
    lbs_filelength lbs = length (file_bytes (view s)) \<and> locates 0 (view s) (lbs_blocks lbs)"
proof -
  obtain lbs all s' where l: "call_nn rpc (Nn_getBlockLocations src 0 ALL_BYTES) s = Ret ((0, Some (Re_locations (Some lbs))), s')" "view s' = view s"
      "lbs_filelength lbs = length (file_bytes (view s))" "locates 0 (view s) all"
      "lbs_blocks lbs = filter (\<lambda>lb. lb_offset lb < 0 + ALL_BYTES \<and> 0 < lb_offset lb + eb_numbytes (lb_b lb)) all"
    using assms(1) unfolding name_node_def by meson
  have "lb_offset lb < 0 + ALL_BYTES \<and> 0 < lb_offset lb + eb_numbytes (lb_b lb)" if "lb \<in> set all" for lb
    using locates_range [OF l(4) assms(2) that] assms(3) by auto
  then have "lbs_blocks lbs = all" unfolding l(5) by (intro filter_True ballI)
  then show ?thesis using l(1-4) by blast
qed

lemma lock_returns:
  assumes "name_node rpc nn src view waits N"
  shows "\<exists>lst' s'. hadoop_fuse_lock nn rpc src lst s = Ret ((0, lst'), s') \<and> view s' = view s"
proof -
  obtain lb s' where "call_nn rpc (Nn_append src (nn_clientname nn)) s = Ret ((0, Some (Re_append lb)), s')" "view s' = view s"
    using assms unfolding name_node_def by meson
  then show ?thesis by (simp add: hadoop_fuse_lock_def)
qed

lemma write_appends:
  assumes nn: "name_node rpc nn src view waits N" and dn: "data_node rpc nn view" and bs: "0 < hf_blocksize fh" "hf_blocksize fh < 2 ^ 31"
    and v: "file_ok (hf_blocksize fh) (view s)" "view s = [] \<or> nn_bytesperchecksum nn dvd length (snd (last (view s)))"
    and size: "length (file_bytes (view s)) + hf_blocksize fh < 2 ^ 63" and d: "d \<noteq> []" "length d < 2 ^ 31" and n: "length d \<le> n * hf_blocksize fh" "N \<le> n"
  shows "\<exists>s'. hadoop_fuse_write (Suc k) (Suc n) nn rpc memory src (Data d) (int (length (file_bytes (view s)))) (Hf_Handle fh) s =
      Ret ((int (length d), Hf_Handle fh), s') \<and>
    file_bytes (view s') = file_bytes (view s) @ d \<and> file_ok (hf_blocksize fh) (view s')"
proof -
  let ?off = "length (file_bytes (view s))"
  have "\<forall>ic \<in> set (view s). snd ic \<noteq> []" "?off \<le> ALL_BYTES" using v(1) size bs(1) by (auto simp: file_ok_def ALL_BYTES_def)
  then obtain lbs s1 where s1: "call_nn rpc (Nn_getBlockLocations src 0 ALL_BYTES) s = Ret ((0, Some (Re_locations (Some lbs))), s1)" "view s1 = view s"
      "lbs_filelength lbs = ?off" "locates 0 (view s) (lbs_blocks lbs)"
    using all_locations [OF nn] by blast
  have uncut: "\<not> (lbs_blocks lbs \<noteq> [] \<and> ?off < lb_offset (last (lbs_blocks lbs)))"
  proof (cases "view s" rule: rev_exhaust)
    case (snoc u ic)
    then show ?thesis using locates_last [of 0 u ic "lbs_blocks lbs"] s1(4) by (auto simp: describes_def file_bytes_def)
  qed (use s1(4) in simp)
  obtain lst s2 where s2: "hadoop_fuse_lock nn rpc src None s1 = Ret ((0, lst), s2)" "view s2 = view s1"
    using lock_returns [OF nn] by blast
  define from0 where "from0 = \<lparr>buffers = [Zeros 0, Zeros 0, Data d, Zeros 0], bufferoffset = 0, pos_len = length d\<rparr>"
  have from0: "pos_ok from0" "bufferoffset from0 = 0" "0 < pos_len from0" "pos_len from0 < 2 ^ 64" "contents (buffers from0) = d" "pos_len from0 \<le> n * hf_blocksize fh"
    using d n(1) by (simp_all add: from0_def pos_ok_def)
  obtain res lst' from' s3 where w: "hadoop_fuse_do_write (Suc n) nn rpc src from0 ?off (Hf_Handle fh)
        (if lbs_blocks lbs = [] then None else Some (last (lbs_blocks lbs))) lst s2 = Ret ((res, lst'), from', s3)" "0 \<le> res"
      "file_bytes (view s3) = file_bytes (view s) @ d" "file_ok (hf_blocksize fh) (view s3)"
    using do_write_appends [OF nn dn bs refl, of s2 "lbs_blocks lbs" from0 n lst] v size s1(2,4) s2(2) from0 by auto
  have "waits s3 \<le> N" using nn unfolding name_node_def by meson
  then obtain s4 where c: "hadoop_fuse_complete (Suc n) nn rpc src (hf_fileid fh) lst' s3 = Ret (0, s4)" "view s4 = view s3"
    using complete_returns [OF nn, of s3 "Suc n" "hf_fileid fh" lst'] n(2) by auto
  have off: "of_off_t (int ?off) = ?off" using size by (intro of_off_t_small) simp
  have dl: "add64 0 (length d) = length d" "to_c_int (int (length d)) = int (length d)"
    using d(2) by (simp_all add: add64_small to_c_int_id)
  have "hadoop_fuse_write (Suc k) (Suc n) nn rpc memory src (Data d) (int ?off) (Hf_Handle fh) s = Ret ((int (length d), Hf_Handle fh), s4)"
    unfolding hadoop_fuse_write.simps write_with_def write_buffers_def first_plan_def Let_def
    using s1(1,3) off uncut s2(1) w(1,2) c(1) dl
    by (cases "lbs_blocks lbs = []") (simp_all add: from0_def last_conv_nth del: hadoop_fuse_complete.simps)
  then show ?thesis using w(3,4) c(2) by auto
qed

section \<open>Reading a block\<close>

text \<open>A read in a file of one block, at any offset in it, reads the start of the block.\<close>

lemma read_one_block:
  assumes nn: "name_node rpc nn src view waits N" and dn: "data_source rpc view"
    and v: "view s = [(i, c)]" "off < length c" "sz \<le> length c" "0 < sz" "length c < 2 ^ 31" "length buf = sz"
  shows "\<exists>s'. hadoop_fuse_read nn rpc src buf sz (int off) s = Ret (int sz, take sz c, s')"
proof -
  have off: "of_off_t (int off) = off" using v(2,5) by (intro of_off_t_small) simp
  obtain lbs all s1 where l: "call_nn rpc (Nn_getBlockLocations src off sz) s = Ret ((0, Some (Re_locations (Some lbs))), s1)" "view s1 = view s"
      "\<not> lbs_underconstruction lbs" "locates 0 (view s) all"
      "lbs_blocks lbs = filter (\<lambda>lb. lb_offset lb < off + sz \<and> off < lb_offset lb + eb_numbytes (lb_b lb)) all"
    using nn unfolding name_node_def by meson
  then obtain lb where lb: "all = [lb]" "describes lb 0 (i, c)" using v(1) by auto
  then have blocks: "lbs_blocks lbs = [lb]" using l(5) v by (simp add: describes_def)
  obtain loc locs where locs: "lb_locs lb = loc # locs" using lb(2) by (cases "lb_locs lb") (auto simp: describes_def)
  define oper where "oper = read_request nn sz (int off) lb"
  have oper: "or_offset oper = 0" "or_len oper = sz" "or_block oper = lb_b lb"
    using lb(2) v by (simp_all add: oper_def read_request_def describes_def Let_def sub64_le)
  have len: "or_offset oper + or_len oper \<le> length c" "or_len oper = length buf" "map_of (view s1) (eb_blockid (or_block oper)) = Some c"
    using oper v l(2) lb(2) by (simp_all add: describes_def)
  then obtain s2 s3 r start s4 where r: "connect_dn rpc (ipaddr loc) (xferport loc mod 2 ^ 16) s1 = (0, s2)" "call_read rpc oper s2 = Ret ((0, Some r), s3)"
      "op_chunkoffset r = Some start" "start \<le> or_offset oper"
      "receive_packets rpc (or_offset oper - start) (or_len oper) buf s3 = Some (Ret (0, take (or_len oper) (drop (or_offset oper) c), s4))"
    using dn unfolding data_source_def by meson
  have "sub64 0 start = 0" "\<not> lb_corrupt lb" using r(4) oper(1) lb(2) by (simp_all add: sub64_le describes_def)
  then have "read_blocks nn rpc sz (int off) [lb] 0 buf s1 = Ret (int sz, take sz c, disconnect_dn rpc s4)"
    using r oper v(3,5) locs by (simp add: oper_def [symmetric] deref_def to_c_int_id)
  then show ?thesis
    using l(1,3) blocks off by (simp add: hadoop_fuse_read_def)
qed

section \<open>Properties\<close>




text \<open>Servers in memory: the blocks, the block of the current operation and the offset asked for.\<close>

type_synonym memory_state = "hdfs_blocks \<times> nat \<times> nat"

fun locate :: "nat \<Rightarrow> hdfs_blocks \<Rightarrow> located_block list" where
  "locate off [] = []"
| "locate off ((i, c) # v) =
     \<lparr>lb_b = \<lparr>eb_poolid = ''pool'', eb_blockid = i, eb_generationstamp = 1, eb_has_numbytes = True, eb_numbytes = length c\<rparr>, lb_offset = off,
       lb_locs = [\<lparr>ipaddr = ''10.0.0.1'', xferport = 50010\<rparr>], lb_corrupt = False, lb_blocktoken = [], lb_storageids = []\<rparr> # locate (off + length c) v"

definition fresh_id :: "hdfs_blocks \<Rightarrow> nat" where
  "fresh_id v = Suc (sum_list (map fst v))"

definition memory_nn :: "nn_request \<Rightarrow> memory_state \<Rightarrow> ((int \<times> nn_response option) \<times> memory_state) cres" where
  "memory_nn request s =
     (case s of (v, t, p) \<Rightarrow>
      case request of
        Nn_getBlockLocations _ off sz \<Rightarrow>
          Ret ((0, Some (Re_locations (Some \<lparr>lbs_filelength = length (file_bytes v),
            lbs_blocks = filter (\<lambda>lb. lb_offset lb < off + sz \<and> off < lb_offset lb + eb_numbytes (lb_b lb)) (locate 0 v), lbs_underconstruction = False\<rparr>))), s)
      | Nn_append _ _ \<Rightarrow> Ret ((0, Some (Re_append None)), s)
      | Nn_updateBlockForPipeline _ b \<Rightarrow> Ret ((0, Some (Re_block (hd (locate 0 [(eb_blockid b, [])])))), s)
      | Nn_addBlock _ _ _ _ _ \<Rightarrow> Ret ((0, Some (Re_block (hd (locate 0 [(fresh_id v, [])])))), v @ [(fresh_id v, [])], t, p)
      | Nn_complete _ _ _ _ _ \<Rightarrow> Ret ((0, Some (Re_result True)), s)
      | _ \<Rightarrow> Ret ((0, Some Re_void), s))"

definition memory_rpc :: "memory_state hadooprpc" where
  "memory_rpc = \<lparr>call_nn = memory_nn, connect_dn = (\<lambda>_ _ s. (0, s)),
     call_write = (\<lambda>oper (v, t, p). Ret (0, v, eb_blockid (ow_block oper), p)),
     call_read = (\<lambda>oper (v, t, p). Ret ((0, Some \<lparr>op_status = ST_SUCCESS, op_chunkoffset = Some (or_offset oper)\<rparr>), v, eb_blockid (or_block oper), or_offset oper)),
     send_packets = (\<lambda>from len off _ _ (v, t, p).
       Ret (0, from\<lparr>bufferoffset := bufferoffset from + len\<rparr>, store_block t off (take len (drop (bufferoffset from) (contents (buffers from)))) v, t, p)),
     receive_packets = (\<lambda>skip len buf (v, t, p). map_option (\<lambda>c. Ret (0, take len (drop (p + skip) c), v, t, p)) (map_of v t)),
     disconnect_dn = (\<lambda>s. s)\<rparr>"

lemma fresh_id_new: "fresh_id v \<notin> fst ` set v"
proof
  assume "fresh_id v \<in> fst ` set v"
  then have "fresh_id v \<le> sum_list (map fst v)" by (intro member_le_sum_list) auto
  then show False by (simp add: fresh_id_def)
qed

lemma locates_locate: "locates off v (locate off v)"
  by (induction off v rule: locate.induct) (auto simp: describes_def)

lemma memory_name_node: "name_node memory_rpc nn src fst (\<lambda>_. 0) 0"
proof -
  have "locates 0 v (locate 0 v)" "fresh_id v \<notin> fst ` set v" for v by (rule locates_locate, rule fresh_id_new)
  then show ?thesis
    unfolding name_node_def
    by (intro conjI allI) (force simp: memory_rpc_def memory_nn_def split_beta)+
qed

lemma memory_data_node: "data_node memory_rpc nn fst"
  by (auto simp: data_node_def memory_rpc_def)

lemma memory_data_source: "data_source memory_rpc fst"
  by (auto simp: data_source_def memory_rpc_def)

definition example_nn :: namenode_state where
  "example_nn = \<lparr>nn_clientname = ''client'', nn_packetsize = 64, nn_blocksize = 4, nn_replication = 1, nn_bytesperchecksum = 2, nn_checksumtype = CHECKSUM_NULL\<rparr>"

definition example_fh :: hdfs_handle where
  "example_fh = \<lparr>hf_fileid = 9, hf_blocksize = 4, hf_path = ''/f''\<rparr>"




section \<open>Calls without a handle\<close>

text \<open>The address of a variable and null are not handles; no function makes one out of them, and writing needs one.\<close>

definition no_handle :: "hfi \<Rightarrow> bool" where
  "no_handle fh \<longleftrightarrow> (\<forall>h. fh \<noteq> Hf_Handle h)"

lemma no_handle_cases: "no_handle fh \<longleftrightarrow> fh = Hf_Null \<or> (\<exists>w. fh = Hf_Word w)"
  by (cases fh) (auto simp: no_handle_def)

lemma do_write_no_handle: "no_handle fh \<Longrightarrow> hadoop_fuse_do_write n nn rpc src from off fh lb lst s \<noteq> Ret r"
  by (auto simp: no_handle_cases hadoop_fuse_do_write_def)

lemma set_fileid_no_handle: "set_fileid i fh = Ret fh' \<Longrightarrow> no_handle fh \<Longrightarrow> no_handle fh' \<and> (fh = Hf_Null \<longrightarrow> False)"
  by (cases fh) (auto simp: no_handle_def)

lemma overwrite_no_handle:
  "overwrite_file nn rpc path fh s = Ret ((res, fh'), s') \<Longrightarrow> no_handle fh \<Longrightarrow> no_handle fh' \<and> (fh = Hf_Null \<longrightarrow> fh' = Hf_Null)"
  by (auto simp: overwrite_file_def cbind_Ret_iff cmap_Ret_iff split: if_splits option.splits dest: set_fileid_no_handle)

lemma drop_rest_no_handle:
  "drop_rest nn rpc path blocks lastkept fh s = Ret ((res, fh', lst), s') \<Longrightarrow> no_handle fh \<Longrightarrow> no_handle fh' \<and> (fh = Hf_Null \<longrightarrow> fh' = Hf_Null)"
  by (auto simp: drop_rest_def cmap_Ret_iff split: option.splits dest: overwrite_no_handle)

lemma shorten_no_handle:
  "shorten_file n nn rpc memory path newlength blocks fh s = Ret ((res, fh'), s') \<Longrightarrow> no_handle fh \<Longrightarrow> no_handle fh' \<and> (fh = Hf_Null \<longrightarrow> res < 0)"
  by (auto simp: shorten_file_def cbind_Ret_iff cmap_Ret_iff split: if_splits prod.splits dest: drop_rest_no_handle)

lemma write_buffers_no_handle: "write_buffers n nn rpc src data lbs p fh s = Ret (res, s') \<Longrightarrow> no_handle fh \<Longrightarrow> res < 0"
  by (auto simp: write_buffers_def cbind_Ret_iff do_write_no_handle split: if_splits)

text \<open>What is shown of truncating and writing: without a handle the result has none, and the write fails.\<close>

lemma ftruncate_no_handle:
  assumes w: "\<And>data off fh s res fh' s'. write data off fh s = Ret ((res, fh'), s') \<Longrightarrow> no_handle fh \<Longrightarrow> no_handle fh'"
    and "ftruncate_with write n nn rpc memory path offset fh s = Ret ((res, fh'), s')" and "no_handle fh"
  shows "no_handle fh'"
  using assms(2,3)
  by (auto simp: ftruncate_with_def cbind_Ret_iff cmap_Ret_iff Let_def split: if_splits option.splits dest: shorten_no_handle w)

lemma cut_no_handle:
  assumes t: "\<And>off fh s res fh' s'. ftruncate off fh s = Ret ((res, fh'), s') \<Longrightarrow> no_handle fh \<Longrightarrow> no_handle fh'"
    and "cut_file ftruncate nn rpc memory src len lbs p fh s = Ret ((res, p', fh'), s')" and "no_handle fh"
  shows "no_handle fh'"
  using assms(2,3) by (auto simp: cut_file_def cbind_Ret_iff cmap_Ret_iff split: if_splits option.splits prod.splits dest: t)

lemma write_with_no_handle:
  assumes t: "\<And>off fh s res fh' s'. ftruncate off fh s = Ret ((res, fh'), s') \<Longrightarrow> no_handle fh \<Longrightarrow> no_handle fh'"
    and "write_with ftruncate n nn rpc memory src data offset fh s = Ret ((res, fh'), s')" and "no_handle fh"
  shows "res < 0 \<and> no_handle fh'"
proof -
  obtain r1 resp s1 where c: "call_nn rpc (Nn_getBlockLocations src 0 ALL_BYTES) s = Ret ((r1, resp), s1)"
    using assms(2) by (auto simp: write_with_def cbind_Ret_iff)
  show ?thesis
  proof (cases "r1 < 0 \<or> get_locations resp = Ret None")
    case True
    then show ?thesis using assms(2,3) c by (auto simp: write_with_def ENOENT_def split: if_splits)
  next
    case False
    then obtain lbs where lbs: "get_locations resp = Ret (Some lbs)"
      using assms(2) c by (cases "get_locations resp") (auto simp: write_with_def)
    define p where "p = first_plan lbs (of_off_t offset)"
    define m where "m = (if lbs_blocks lbs \<noteq> [] \<and> wp_offset p < lb_offset (last (lbs_blocks lbs))
      then cut_file ftruncate nn rpc memory src (buffer_len data) lbs p fh s1 else Ret ((0, p, fh), s1))"
    have eq: "cbind m (\<lambda>((res, p1, fh1), s2). if res < 0 then Ret ((res, fh1), s2) else
        cmap (\<lambda>(res, s3). ((if res < 0 then res else to_c_int (int (buffer_len data)), fh1), s3)) (write_buffers n nn rpc src data lbs p1 fh1 s2)) =
        Ret ((res, fh'), s')"
      using assms(2) False by (simp only: write_with_def c lbs cbind.simps prod.case option.case Let_def de_Morgan_disj if_False p_def m_def)
    then obtain r2 p1 fh1 s2 where m: "m = Ret ((r2, p1, fh1), s2)" by (auto simp: cbind_Ret_iff)
    have "no_handle fh1" using m assms(3) cut_no_handle [OF t] unfolding m_def by (auto split: if_splits)
    then show ?thesis
      using eq m by (auto simp: cmap_Ret_iff split: if_splits dest: write_buffers_no_handle)
  qed
qed

lemma write_no_handle:
  "hadoop_fuse_write k n nn rpc memory src data offset fh s = Ret ((res, fh'), s') \<Longrightarrow> no_handle fh \<Longrightarrow> res < 0 \<and> no_handle fh'"
proof (induction k arbitrary: data offset fh s res fh' s')
  case (Suc k)
  let ?t = "ftruncate_with (hadoop_fuse_write k n nn rpc memory src) n nn rpc memory src"
  have t: "no_handle fh'" if "?t off fh s = Ret ((res, fh'), s')" "no_handle fh" for off fh s res fh' s'
    using ftruncate_no_handle [OF _ that] Suc.IH by blast
  show ?case
    by (rule write_with_no_handle [of ?t n nn rpc memory src data offset fh s res fh' s']) (use Suc.prems t in simp_all)
qed simp

lemma truncate_no_handle:
  assumes "hadoop_fuse_truncate k n nn rpc memory path len s = Ret (0, s')"
  shows "\<exists>res lbs. call_nn rpc (Nn_getBlockLocations path 0 ALL_BYTES) s = Ret ((res, Some (Re_locations (Some lbs))), s') \<and> lbs_filelength lbs = of_off_t len"
proof -
  obtain fh' where t: "ftruncate_with (hadoop_fuse_write k n nn rpc memory path) n nn rpc memory path len Hf_Null s = Ret ((0, fh'), s')"
    using assms by (auto simp: hadoop_fuse_truncate_def hadoop_fuse_ftruncate_def cmap_Ret_iff)
  obtain r resp s1 where c: "call_nn rpc (Nn_getBlockLocations path 0 ALL_BYTES) s = Ret ((r, resp), s1)" "\<not> r < 0"
    using t by (auto simp: ftruncate_with_def cbind_Ret_iff split: if_splits)
  obtain lbs where resp: "resp = Some (Re_locations (Some lbs))"
    using t c by (cases resp rule: get_locations.cases) (auto simp: ftruncate_with_def ENOENT_def split: if_splits option.splits)
  have null: "no_handle Hf_Null" by (simp add: no_handle_def)
  have "lbs_filelength lbs = of_off_t len \<and> s' = s1"
    using t c resp write_no_handle [OF _ null] shorten_no_handle [OF _ null]
    by (fastforce simp: ftruncate_with_def cmap_Ret_iff Let_def split: if_splits)
  then show ?thesis using c(1) resp by blast
qed


text \<open>In the servers in memory a write fails when the file is not there, and truncating to the same length succeeds.\<close>

definition missing_rpc :: "memory_state hadooprpc" where
  "missing_rpc = memory_rpc\<lparr>call_nn := (\<lambda>request s. Ret ((0, Some (Re_locations None)), s))\<rparr>"



section \<open>Writes before and after the end of the file\<close>

text \<open>A write into the first of several blocks truncates the file to a length that was never set, unless an earlier step fails.\<close>

lemma write_in_first_block:
  assumes "lbs_blocks lbs = block # blocks" "wp_offset p \<le> add64 (lb_offset block) (eb_numbytes (lb_b block))"
    and "cut_file ftruncate nn rpc memory src len lbs p fh s = Ret ((res, p', fh'), s')"
  shows "res < 0"
proof -
  obtain r1 p1 s1 where t: "save_trailing nn rpc memory src len lbs p s = Ret ((r1, p1), s1)"
    using assms(3) by (auto simp: cut_file_def cbind_Ret_iff)
  have off: "wp_offset p1 = wp_offset p" using t by (auto simp: save_trailing_def Let_def cmap_Ret_iff split: if_splits)
  have d: "dropped_block (wp_offset p1) 0 None (lbs_blocks lbs) = (None, Some (0, block))" using assms(1,2) off by (simp add: Let_def)
  show ?thesis
  proof (cases "r1 < 0")
    case False
    then obtain r2 p2 s2 where "save_start nn rpc memory src lbs (Some (0, block)) p1 s1 = Ret ((r2, p2), s2)"
      using assms(3) t d by (auto simp: cut_file_def cbind_Ret_iff)
    then show ?thesis using assms(3) t d False by (auto simp: cut_file_def split: if_splits)
  qed (use assms(3) t in \<open>simp add: cut_file_def\<close>)
qed

text \<open>A write behind the end of the file pads with a number of zeros that has wrapped around.\<close>

lemma padding_wraps:
  assumes "lbs_filelength lbs < off" "off < 2 ^ 64"
  shows "wp_pad (first_plan lbs off) = Zeros (2 ^ 64 - (off - lbs_filelength lbs))"
proof -
  have "(int (lbs_filelength lbs) - int off) mod 2 ^ 64 = int (lbs_filelength lbs) - int off + 2 ^ 64"
    using assms by (subst mod_add_self2 [symmetric], intro mod_pos_pos_trivial) auto
  also have "\<dots> = int (2 ^ 64 - (off - lbs_filelength lbs))" using assms by (simp add: of_nat_diff)
  finally have "sub64 (lbs_filelength lbs) off = 2 ^ 64 - (off - lbs_filelength lbs)"
    unfolding sub64_def by (simp only: nat_int)
  then show ?thesis using assms by (simp add: first_plan_def Let_def)
qed

text \<open>Opening a file exclusively fails: the file is created first, and then it exists.\<close>

lemma exclusive_open_fails:
  assumes "\<And>s1. hadoop_fuse_mknod n nn rpc path mode s = Ret (0, s1) \<Longrightarrow>
      \<exists>fs i s2. call_nn rpc (Nn_getFileInfo path) s1 = Ret ((0, Some (Re_status (Some fs))), s2) \<and> fst_fileid fs = Some i"
    and "flags AND HO_CREAT \<noteq> 0" "flags AND HO_EXCL = HO_EXCL"
    and "usfs_open_hdfs k n nn rpc memory path flags mode addr ret_fh (h, s) = Ret ((rc, fi), hs')"
  shows "rc \<noteq> 0"
proof -
  obtain r1 s1 where m: "hadoop_fuse_mknod n nn rpc path mode s = Ret (r1, s1)"
    using assms(2,4) by (auto simp: usfs_open_hdfs_def cbind_Ret_iff)
  show ?thesis
  proof (cases "r1 = 0")
    case True
    then obtain fs i s2 where f: "call_nn rpc (Nn_getFileInfo path) s1 = Ret ((0, Some (Re_status (Some fs))), s2)" "fst_fileid fs = Some i"
      using assms(1) m by blast
    then show ?thesis
      using assms(2-4) m True
      by (cases "fst_permission fs") (auto simp: usfs_open_hdfs_def hadoop_fuse_open_def find_or_create_def deref_def EEXIST_def)
  qed (use assms(2,4) m in \<open>auto simp: usfs_open_hdfs_def\<close>)
qed

end
