(* ===== verification/Hadoop_Transfer.thy ===== *)
theory Hadoop_Transfer
  imports Hadoop_Packets
begin

text \<open>
  The properties of block transfers: what \<^verbatim>\<open>hadoop_rpc_send_packets\<close> sends, that \<^verbatim>\<open>hadoop_rpc_receive_packets\<close>
  gets it back, when receiving ends, and the inputs on which the code leaves its buffers.
\<close>

section \<open>How long a transfer takes\<close>

lemma skip_loop_progress:
  "skip_loop w s a len to pos x = Ret (res, s', a', to', x') \<Longrightarrow> 0 < len \<Longrightarrow> 0 \<le> res \<Longrightarrow> s' = s - a \<and> a' = a - s"
proof (induction s arbitrary: a to x rule: less_induct)
  case (less s)
  show ?case
  proof (cases "0 < s \<and> 0 < a")
    case False
    then have "skip_loop w s a len to pos x = Ret (0, s, a, to, x)"
      by (subst skip_loop.simps) auto
    then show ?thesis using less.prems(1) False by auto
  next
    case True
    define k where "k = min (min a s) len"
    have k: "0 < k" "k \<le> s" "k \<le> a" using True less.prems by (auto simp: k_def)
    have "skip_loop w s a len to pos x = cbind (recv_into w k to pos x) (\<lambda>(res, to1, x1).
        if res < 0 then Ret (res, s, a, to1, x1) else skip_loop w (s - k) (a - k) len to1 pos x1)"
      using True less.prems(2) by (subst skip_loop.simps) (simp only: k_def Let_def simp_thms if_True)
    from this [unfolded less.prems(1), symmetric] obtain to1 x1 where
        "skip_loop w (s - k) (a - k) len to1 pos x1 = Ret (res, s', a', to', x')"
      using less.prems(3) by (auto simp: cbind_Ret_iff split: if_splits)
    from less.IH [OF _ this] k less.prems show ?thesis by auto
  qed
qed

lemma recv_all_Inl: "recv_all w n x = Ret (Inl res, x') \<Longrightarrow> res < 0"
  by (auto simp: recv_all_def split: prod.splits if_splits)

lemma recv_then_Ret:
  assumes "cbind (recv_all w n x) (\<lambda>(r, x1). case r of Inl res \<Rightarrow> Ret (Inl res, x1) | Inr b \<Rightarrow> k b x1) = Ret (r, x')"
  obtains (failed) res where "r = Inl res" "res < 0" | (received) b x1 where "k b x1 = Ret (r, x')"
proof -
  obtain q x1 where "recv_all w n x = Ret (q, x1)" using assms by (auto simp: cbind_Ret_iff)
  then show thesis using assms that recv_all_Inl [of w n x _ x1] by (cases q) auto
qed

lemma receive_header_Ret:
  assumes "receive_header w uh x = Ret (r, x')"
  shows "case r of Inl res \<Rightarrow> res < 0 | Inr h \<Rightarrow> \<exists>b. uh b = Some h"
  using assms unfolding receive_header_def
  by (elim recv_then_Ret) (auto simp: cmap_Ret_iff deref_def split: option.splits)

text \<open>Headers of packets that carry data, the last packet of a block apart.\<close>

definition carry_data :: "(bytes \<Rightarrow> packet_header option) \<Rightarrow> bool" where
  "carry_data uh \<longleftrightarrow> (\<forall>b h. uh b = Some h \<longrightarrow> lastpacketinblock h \<or> (0 < datalen h \<and> datalen h < 2 ^ 31))"

lemma receive_packet_progress:
  assumes uh: "carry_data uh"
    and len: "0 < t_len t" and r: "receive_packet w uh t x = Ret (res, t', x')" "0 \<le> res"
  shows "\<not> t_more t' \<or> t_skip t' + t_len t' < t_skip t + t_len t"
proof -
  obtain v x1 where v: "receive_header w uh x = Ret (v, x1)"
    using r(1) by (auto simp: receive_packet_def cbind_Ret_iff)
  obtain h where h: "v = Inr h"
    using receive_header_Ret [OF v] r v by (cases v) (auto simp: receive_packet_def)
  define a where "a = nat (datalen h mod 2 ^ 64)"
  obtain res1 s a' to x2 where skip: "skip_loop w (t_skip t) a (t_len t) (t_to t) (t_pos t) x1 = Ret (res1, s, a', to, x2)" "0 \<le> res1"
    using r v h by (auto simp: receive_packet_def cbind_Ret_iff Let_def a_def split: if_splits)
  note sa = skip_loop_progress [OF skip(1) len skip(2)]
  have t': "t_more t' = (\<not> lastpacketinblock h)" "t_skip t' = s" "t_len t' = t_len t - min a' (t_len t)"
    using r v h skip by (auto simp: receive_packet_def Let_def a_def cmap_Ret_iff split: if_splits)
  have "0 < a" if "\<not> lastpacketinblock h"
  proof -
    have "0 < datalen h" "datalen h < 2 ^ 31" using uh receive_header_Ret [OF v] h that by (auto simp: carry_data_def)
    moreover from this have "datalen h mod 2 ^ 64 = datalen h" by (intro mod_pos_pos_trivial) auto
    ultimately show ?thesis by (simp add: a_def)
  qed
  then show ?thesis using sa t' len by auto
qed

lemma receive_loop_ends:
  assumes "carry_data uh"
  shows "receive_loop w uh t x \<noteq> None"
proof (induction "t_skip t + t_len t" arbitrary: t x rule: less_induct)
  case less
  show ?case
  proof (cases "t_more t \<and> 0 < t_len t")
    case True
    have "receive_loop w uh t1 x1 \<noteq> None" if "receive_packet w uh t x = Ret (res, t1, x1)" "0 \<le> res" for res t1 x1
      using receive_packet_progress [OF assms _ that] True less.hyps [of t1 x1] receive_loop_stop [of t1 w uh x1] by auto
    with True show ?thesis
      by (subst receive_loop.simps) (auto split: cres.split)
  qed (simp add: receive_loop_stop)
qed


text \<open>A data node that sends empty packets for ever.\<close>

definition only_empty_packets :: "'w wire \<Rightarrow> (bytes \<Rightarrow> packet_header option) \<Rightarrow> bool" where
  "only_empty_packets w uh \<longleftrightarrow> (\<forall>x. \<exists>x'. receive_header w uh x = Ret (Inr \<lparr>datalen = 0, lastpacketinblock = False\<rparr>, x'))"

lemma empty_packet_step:
  assumes "only_empty_packets w uh"
  obtains x1 where "receive_packet w uh t x = Ret (0, t\<lparr>t_more := True\<rparr>, x1)"
proof -
  obtain x1 where "receive_header w uh x = Ret (Inr \<lparr>datalen = 0, lastpacketinblock = False\<rparr>, x1)"
    using assms by (auto simp: only_empty_packets_def)
  moreover have "skip_loop w s 0 n to pos x1 = Ret (0, s, 0, to, x1)" for s n to pos by (subst skip_loop.simps) simp
  ultimately show thesis using that by (simp add: receive_packet_def)
qed

lemma receive_loop_Some:
  assumes "receive_loop w uh t x = Some y"
  shows "only_empty_packets w uh \<longrightarrow> \<not> (t_more t \<and> 0 < t_len t)"
proof -
  define P where "P w uh t x y \<longleftrightarrow> (only_empty_packets w uh \<longrightarrow> \<not> (t_more t \<and> 0 < t_len t))"
    for w :: "'a wire" and uh and t :: transfer and x :: 'a and y :: "(int \<times> transfer \<times> 'a) cres"
  have "P w uh t x y"
  proof (rule receive_loop.raw_induct [of P "(((w, uh), t), x)" y, unfolded prod.case])
    fix f w uh t x y
    assume ih: "\<And>w uh t x y. f w uh t x = Some y \<Longrightarrow> P w uh t x y"
      and body: "(if t_more t \<and> 0 < t_len t
        then case receive_packet w uh t x of Ret r \<Rightarrow> if fst r < 0 then Some (Ret r) else f w uh (fst (snd r)) (snd (snd r))
             | Undef u \<Rightarrow> Some (Undef u) | Exited \<Rightarrow> Some Exited
        else Some (Ret (0, t, x))) = Some y"
    show "P w uh t x y"
      unfolding P_def
    proof
      assume e: "only_empty_packets w uh"
      from empty_packet_step [OF this, of t x] obtain x1 where "receive_packet w uh t x = Ret (0, t\<lparr>t_more := True\<rparr>, x1)" .
      with body ih [of w uh "t\<lparr>t_more := True\<rparr>" x1 y] e show "\<not> (t_more t \<and> 0 < t_len t)" by (auto simp: P_def split: if_splits)
    qed
  qed (rule assms)
  then show ?thesis by (simp add: P_def)
qed


section \<open>Properties\<close>


text \<open>An acknowledging data node: its state is what it was sent and how many acknowledgements it gave; an acknowledgement is four bytes.\<close>

definition ack_wire :: "(bytes list \<times> nat) wire" where
  "ack_wire = \<lparr>w_send = (\<lambda>m (s, k). (int (length m), s @ [m], k)),
     w_recv = (\<lambda>n (s, k). if n = 5 then ((5, 4 # htonl (of_nat k)), s, k) else ((0, []), s, Suc k)), w_close = (\<lambda>x. x)\<rparr>"

definition ack_of :: "bytes \<Rightarrow> pipeline_ack option" where
  "ack_of b = Some \<lparr>ack_seqno = int (unat (ntohl b)), ack_status = [ST_SUCCESS]\<rparr>"

lemma decode_small: "decode_unsigned_varint (4 # b) = Ret (4, 1)"
  by (simp add: decode_unsigned_varint_def decode_loop.simps)

lemma ack_wire_proto: "receive_proto ack_wire ack_of (s, k) = Ret (Inr (ack_of (htonl (of_nat k))), s, Suc k)"
  by (simp add: receive_proto_def recv_all_def ack_wire_def decode_small copy_with_offset_def)

lemma acking_ack_wire: "acking ack_wire ack_of fst snd"
  by (auto simp: acking_def ack_wire_proto ack_of_def ntohl_htonl check_ack_def unat_of_nat) (simp_all add: ack_wire_def)

definition example_pos :: buffer_pos where
  "example_pos = \<lparr>buffers = [Data [1, 2, 3], Zeros 2, Data [4, 5, 6, 7]], bufferoffset = 1, pos_len = 9\<rparr>"

definition example_header :: "int \<Rightarrow> nat \<Rightarrow> bool \<Rightarrow> nat \<Rightarrow> bytes" where
  "example_header seqno off lst n = (if lst then 1 else 0) # htonl (of_nat n)"

lemma example_pos_facts:
  "take 7 (drop (bufferoffset example_pos) (contents (buffers example_pos))) = [2, 3, 0, 0, 4, 5, 6]"
  "pos_len example_pos = length (contents (buffers example_pos))" "bufferoffset example_pos + 7 = 8" "8 \<le> length (contents (buffers example_pos))"
  by (simp_all add: example_pos_def numeral_eq_Suc)


text \<open>
  C10. What is sent without checksums is what is received: a reader that skips \<open>s\<close> bytes and asks for \<open>n\<close> gets those bytes of the
  data out of the stream of packets, whatever the packet size, the buffers on the sending side and the contents of its own
  buffer. Packing and unpacking of packet headers are inverse.
\<close>

theorem send_receive_roundtrip:
  assumes "acking w ua sent acks" "acks x = 0" "sent x = []"
    and "ck_type ck = CHECKSUM_NULL" "0 < bytesperchecksum ck" "psize + bytesperchecksum ck \<le> 2 ^ 32"
    and "0 < psize" "psize < 2 ^ 31" "bytesperchecksum ck dvd psize" "bytesperchecksum ck dvd off"
    and "len < 2 ^ 32" "pos_len from = length (contents (buffers from))" "bufferoffset from + len \<le> pos_len from"
    and "byte_stream v pending" "header_codec ph uh" "s + n \<le> len" "length to = n"
  shows "\<exists>from' x'. hadoop_rpc_send_packets w ph ua crc from len off psize ck x = Ret (0, from', x') \<and>
    (\<forall>y. pending y = concat (sent x') \<longrightarrow>
      (\<exists>y'. hadoop_rpc_receive_packets v uh ack_msg s n to y =
        Some (Ret (0, take n (drop s (drop (bufferoffset from) (contents (buffers from)))), y'))))"
proof -
  let ?d = "take len (drop (bufferoffset from) (contents (buffers from)))"
  obtain x' where x': "hadoop_rpc_send_packets w ph ua crc from len off psize ck x = Ret (0, from\<lparr>bufferoffset := bufferoffset from + len\<rparr>, x')"
      "sent x' = packet_stream ph crc ck psize 0 off ?d"
    using send_packets_sends [OF assms(1,2) _ assms(5-7) assms(9-11) _ assms(13), of ph crc] assms(3,4,12) by (auto simp: pos_ok_def)
  have "length ?d = len" "take n (drop s ?d) = take n (drop s (drop (bufferoffset from) (contents (buffers from))))"
    using assms(12,13,16) by (auto simp: drop_take min_def)
  then have "\<exists>y'. hadoop_rpc_receive_packets v uh ack_msg s n to y =
      Some (Ret (0, take n (drop s (drop (bufferoffset from) (contents (buffers from)))), y'))" if "pending y = concat (sent x')" for y
    using stream_receive_packets [OF assms(14,15,4,7,8), of y crc 0 off ?d s n to ack_msg] that x'(2) assms(16,17) by simp
  with x'(1) show ?thesis by blast
qed

text \<open>A connection that delivers the bytes of its state, and the inverse of the packed header.\<close>

definition pipe_wire :: "bytes wire" where
  "pipe_wire = \<lparr>w_send = (\<lambda>m y. (int (length m), y)), w_recv = (\<lambda>n y. ((int (min n (length y)), take n y), drop n y)), w_close = (\<lambda>y. y)\<rparr>"

definition example_unpack :: "bytes \<Rightarrow> packet_header option" where
  "example_unpack b = Some \<lparr>datalen = int (unat (ntohl (drop 1 b))), lastpacketinblock = (hd b = 1)\<rparr>"

lemma byte_stream_pipe: "byte_stream pipe_wire (\<lambda>y. y)"
  by (simp add: byte_stream_def pipe_wire_def)

lemma header_codec_example: "header_codec example_header example_unpack"
  by (auto simp: header_codec_def example_header_def example_unpack_def ntohl_htonl unat_of_nat)

theorem send_receive_roundtrip_witness:
  "\<exists>from' x'. hadoop_rpc_send_packets ack_wire example_header ack_of (\<lambda>b. 0) example_pos 7 512 4 \<lparr>ck_type = CHECKSUM_NULL, bytesperchecksum = 2\<rparr> ([], 0) =
      Ret (0, from', x') \<and>
    (\<exists>y'. hadoop_rpc_receive_packets pipe_wire example_unpack [8, 0] 1 3 [9, 9, 9] (concat (fst x')) = Some (Ret (0, [3, 0, 0], y')))"
proof -
  have "take 3 (drop 1 (drop (bufferoffset example_pos) (contents (buffers example_pos)))) = [3, 0, 0]"
    by (simp add: example_pos_def numeral_eq_Suc)
  then show ?thesis
    using send_receive_roundtrip [OF acking_ack_wire _ _ _ _ _ _ _ _ _ _ _ _ byte_stream_pipe header_codec_example,
        of "([], 0)" "\<lparr>ck_type = CHECKSUM_NULL, bytesperchecksum = 2\<rparr>" 4 512 7 example_pos 1 3 "[9, 9, 9]" "\<lambda>b. 0" "[8, 0]"]
    unfolding example_pos_facts by (simp add: example_pos_facts)
qed


definition zero_wire :: "unit wire" where
  "zero_wire = \<lparr>w_send = (\<lambda>m y. (0, y)), w_recv = (\<lambda>n y. ((int n, replicate n 0), y)), w_close = (\<lambda>y. y)\<rparr>"


text \<open>
  A write that starts inside a checksum chunk and ends before the chunk does fails its own assertion when no further data follows in the
  buffers: the length of the first packet is the rest of the chunk, not the smaller length that was asked for.
\<close>

theorem send_packets_partial_chunk:
  assumes "bufferoffset from + len = pos_len from" and "0 < len" "len < 2 ^ 64" "0 < psize"
    and "off mod bytesperchecksum ck \<noteq> 0" "len < bytesperchecksum ck - off mod bytesperchecksum ck"
  shows "hadoop_rpc_send_packets w ph ua crc from len off psize ck x = Undef Assertion_Failed"
proof -
  have "nat (int len mod 2 ^ 64) = len" using assms(3) by (subst mod_pos_pos_trivial) auto
  then have "next_packetlen (bytesperchecksum ck) len 0 off psize = bytesperchecksum ck - off mod bytesperchecksum ck"
    unfolding next_packetlen_def Let_def using assms(2,4,5) by (simp del: of_nat_mod)
  moreover have "send_packet w ph ua crc ck 0 from (bytesperchecksum ck - off mod bytesperchecksum ck) off x = Undef Assertion_Failed"
  proof -
    have "\<not> bufferoffset from + (bytesperchecksum ck - off mod bytesperchecksum ck) \<le> pos_len from" using assms(1,6) by linarith
    then show ?thesis by (simp only: send_packet_def not_False_eq_True if_True)
  qed
  moreover have "bytesperchecksum ck \<noteq> 0" using assms(6) by auto
  ultimately show ?thesis
    by (simp add: hadoop_rpc_send_packets_def send_packets_loop.simps [of w ph ua crc ck "bufferoffset from"])
qed

theorem send_packets_partial_chunk_witness:
  "hadoop_rpc_send_packets ack_wire example_header ack_of (\<lambda>b. 0) \<lparr>buffers = [Data [1, 2, 3]], bufferoffset = 0, pos_len = 3\<rparr> 3 100 65536
     \<lparr>ck_type = CHECKSUM_CRC32C, bytesperchecksum = 512\<rparr> ([], 0) = Undef Assertion_Failed"
  by (rule send_packets_partial_chunk) simp_all

text \<open>
  A message of fewer than four bytes overruns the buffer it is received into: the function has then already received more bytes than
  the message has, and copies them.
\<close>

theorem receive_proto_short_message:
  assumes "w_recv w 5 x = ((5, l # rest), x1)" and "length rest = 4" and "unat l < 4"
  shows "receive_proto w unpack x = Undef Out_Of_Bounds"
proof -
  have "l = 0 \<or> l = 1 \<or> l = 2 \<or> l = 3"
    using assms(3) unfolding word_unat_eq_iff by simp linarith
  then have "decode_unsigned_varint (l # rest) = Ret (ucast l, 1)"
    by (auto simp: decode_unsigned_varint_def decode_loop.simps)
  moreover have "unat (ucast l :: u64) = unat l" using assms(3) by (simp add: unsigned_ucast_eq take_bit_nat_eq_self)
  ultimately show ?thesis
    using assms by (simp add: receive_proto_def recv_all_def copy_with_offset_def)
qed

theorem receive_proto_short_message_witness:
  "receive_proto zero_wire (\<lambda>b. Some b) () = Undef Out_Of_Bounds"
  by (rule receive_proto_short_message [of zero_wire "()" 0 "[0, 0, 0, 0]" "()"]) (simp_all add: zero_wire_def numeral_eq_Suc)

end
