(* ===== verification/Hdfs_Transport.thy ===== *)
theory Hdfs_Transport
  imports Hdfs_Files Hadoop_Transfer
begin

text \<open>
  The functions of \<^verbatim>\<open>hadooprpc.c\<close> keep the contract that the HDFS library relies on when it writes: given a data node that reads the
  packets, connecting, sending the operation and the packets, and closing the connection store the data in the block.
\<close>

section \<open>What a connection does not change\<close>

definition keeps :: "'w wire \<Rightarrow> ('w \<Rightarrow> 'v) \<Rightarrow> bool" where
  "keeps w f \<longleftrightarrow> (\<forall>m x. f (snd (w_send w m x)) = f x) \<and> (\<forall>n x. f (snd (w_recv w n x)) = f x)"

lemma keeps_send: "keeps w f \<Longrightarrow> w_send w m x = (r, x') \<Longrightarrow> f x' = f x"
  unfolding keeps_def by (metis snd_conv)

lemma keeps_recv: "keeps w f \<Longrightarrow> w_recv w n x = (r, x') \<Longrightarrow> f x' = f x"
  unfolding keeps_def by (metis snd_conv)

lemma keeps_send_all: "keeps w f \<Longrightarrow> send_all w ms x = (r, x') \<Longrightarrow> f x' = f x"
proof (induction ms arbitrary: x)
  case (Cons m ms)
  obtain r1 x1 where x1: "w_send w m x = (r1, x1)" by fastforce
  then have "f x1 = f x" using Cons.prems(1) keeps_send by metis
  then show ?case using Cons x1 by (auto split: if_splits)
qed simp

lemma keeps_recv_all: "keeps w f \<Longrightarrow> recv_all w n x = Ret (r, x') \<Longrightarrow> f x' = f x"
  by (auto simp: recv_all_def split: prod.splits if_splits dest: keeps_recv)

lemma keeps_receive_proto:
  assumes k: "keeps w f" and r: "receive_proto w unpack x = Ret (r, x')"
  shows "f x' = f x"
proof -
  obtain r1 x1 where x1: "recv_all w 5 x = Ret (r1, x1)" using r by (auto simp: receive_proto_def cbind_Ret_iff)
  then have f1: "f x1 = f x" using keeps_recv_all [OF k] by blast
  show ?thesis
  proof (cases r1)
    case (Inr lv)
    then obtain len ll buf off r2 x2 where m: "decode_unsigned_varint lv = Ret (len, ll)"
        "copy_with_offset (replicate (unat len) 0) (take (5 - ll) (drop ll lv)) 0 = Ret (buf, off)" "recv_all w (unat len - (5 - ll)) x1 = Ret (r2, x2)"
      using r x1 by (auto simp: receive_proto_def cbind_Ret_iff Let_def)
    have "f x2 = f x1" using keeps_recv_all [OF k m(3)] .
    then show ?thesis
      using r x1 Inr m f1 by (cases r2) (auto simp: receive_proto_def cmap_Ret_iff)
  qed (use r x1 f1 in \<open>simp add: receive_proto_def\<close>)
qed

lemma keeps_receive_ack:
  assumes k: "keeps w f" and r: "receive_ack w ua seqno x = Ret (r, x')"
  shows "f x' = f x"
proof -
  obtain r1 x1 where x1: "receive_proto w ua x = Ret (r1, x1)" using r by (auto simp: receive_ack_def cbind_Ret_iff)
  then show ?thesis using r keeps_receive_proto [OF k x1] by (cases r1) (auto simp: receive_ack_def cmap_Ret_iff)
qed

lemma keeps_send_data: "keeps w f \<Longrightarrow> send_data w crc n cl bpc from len x = Ret (r, x') \<Longrightarrow> f x' = f x"
  by (auto simp: send_data_def Let_def simp del: send_all.simps split: if_splits dest: keeps_send_all)

lemma keeps_send_packet:
  assumes "keeps w f" and "send_packet w ph ua crc ck seqno from len off x = Ret (r, from', x')"
  shows "f x' = f x"
proof (cases "bufferoffset from + len \<le> pos_len from \<and> ck_type ck \<noteq> CHECKSUM_CRC32")
  case False
  then show ?thesis using assms(2) by (auto simp: send_packet_def split: if_splits)
next
  case True
  define cl :: nat where "cl = (if ck_type ck = CHECKSUM_CRC32C then 4 else 0)"
  obtain n where n: "roundup len (bytesperchecksum ck) = Ret n"
    using assms True by (cases "roundup len (bytesperchecksum ck)") (simp_all add: send_packet_def)
  obtain r1 x1 where x1: "send_all w (packet_head ph n cl seqno off len) x = (r1, x1)" by fastforce
  then have f1: "f x1 = f x" using keeps_send_all [OF assms(1)] by blast
  show ?thesis
  proof (cases "r1 < 0")
    case False
    then obtain r2 x2 where x2: "send_data w crc n cl (bytesperchecksum ck) from len x1 = Ret (r2, x2)"
      using assms(2) n x1 True by (cases "send_data w crc n cl (bytesperchecksum ck) from len x1") (auto simp: send_packet_def cl_def simp del: send_all.simps)
    have "f x2 = f x1" using keeps_send_data [OF assms(1) x2] .
    then show ?thesis
      using assms(2) n x1 x2 True False f1
      by (cases "r2 < 0") (auto simp: send_packet_def cl_def cmap_Ret_iff simp del: send_all.simps dest!: keeps_receive_ack [OF assms(1)])
  qed (use assms(2) n x1 True f1 in \<open>auto simp: send_packet_def cl_def simp del: send_all.simps\<close>)
qed

lemma keeps_send_packets_loop:
  "send_packets_loop w ph ua crc ck initial len off psize seqno from x = Ret (r, from', x') \<Longrightarrow> keeps w f \<Longrightarrow> f x' = f x"
proof (induction w ph ua crc ck initial len off psize seqno "from" x rule: send_packets_loop.induct)
  case (1 w ph ua crc ck initial len off psize seqno "from" x)
  define plen where "plen = next_packetlen (bytesperchecksum ck) len (bufferoffset from - initial) off psize"
  obtain r1 from1 x1 where x1: "send_packet w ph ua crc ck seqno from plen (off + (bufferoffset from - initial)) x = Ret (r1, from1, x1)"
    using 1(2) by (subst (asm) send_packets_loop.simps) (auto simp: plen_def cbind_Ret_iff Let_def)
  have "f x1 = f x" using keeps_send_packet [OF 1(3) x1] .
  then show ?case
    using 1(1) [OF refl plen_def x1 refl refl] 1(2,3) x1 send_packets_loop.simps [of w ph ua crc ck initial len off psize seqno "from" x]
    by (auto simp: plen_def Let_def split: if_splits)
qed


lemma keeps_send_packets:
  "keeps w f \<Longrightarrow> hadoop_rpc_send_packets w ph ua crc from len off psize ck x = Ret (r, from', x') \<Longrightarrow> f x' = f x"
  by (auto simp: hadoop_rpc_send_packets_def split: if_splits dest: keeps_send_packets_loop)

section \<open>A data node at the other end\<close>

text \<open>
  The data node and its file, in terms of what passes over the connection: it takes connections; the answer to the operation that opens a
  block for writing is a success, and the two messages sent so far tell it the block; it acknowledges packets; and when the connection closes it has
  stored the data that the packets carried, at the offset they named. \<open>sent\<close> gives the messages since the connection was made.
\<close>

definition dn_server :: "'w hdfs_env \<Rightarrow> namenode_state \<Rightarrow> ('w \<Rightarrow> hdfs_blocks) \<Rightarrow> (bytes list \<Rightarrow> nat) \<Rightarrow> ('w \<Rightarrow> bool) \<Rightarrow> ('w \<Rightarrow> bytes list) \<Rightarrow> ('w \<Rightarrow> nat) \<Rightarrow> bool" where
  "dn_server e nn view opened ready sent acks \<longleftrightarrow>
     acking (he_dn e) (he_unpack_ack e) sent acks \<and> keeps (he_dn e) view \<and>
     (\<forall>host port x. \<exists>r x1 r2 x2. he_connect e host port x = (r, x1) \<and> 0 \<le> r \<and> he_linger e x1 = (r2, x2) \<and> 0 \<le> r2 \<and> ready x2 \<and> view x2 = view x) \<and>
     (\<forall>oper x. ready x \<longrightarrow> (\<exists>m x1. hadoop_rpc_call_datanode (he_dn e) (he_unpack_op e) op_status 80 (he_pack_write e oper) x = Ret ((0, Some m), x1) \<and>
        acks x1 = 0 \<and> length (sent x1) = 2 \<and> opened (sent x1) = eb_blockid (ow_block oper) \<and> view x1 = view x)) \<and>
     (\<forall>x pre off d. length pre = 2 \<and> sent x = pre @ packet_stream (he_pack_packet e) (he_crc e) (nn_checksum nn) (nn_packetsize nn) 0 off d \<and>
        off < 2 ^ 31 \<longrightarrow> view (w_close (he_dn e) x) = store_block (opened pre) off d (view x))"



text \<open>
  A data node in memory, with the messages it got and the number of its next acknowledgement, \<open>2 ^ 32\<close> before the operation is
  answered. The operation's message ends with as many ones as the number of the block.
\<close>

type_synonym dn_world = "hdfs_blocks \<times> bytes list \<times> nat"

definition opened_of :: "bytes list \<Rightarrow> nat" where
  "opened_of l = length (takeWhile (\<lambda>b. b = 1) (rev (l ! 1)))"

fun stream_data :: "bytes list \<Rightarrow> bytes" where
  "stream_data (_ # _ # h # rest) = (if hd h = 1 then [] else case rest of [] \<Rightarrow> [] | d # rest' \<Rightarrow> d @ stream_data rest')"
| "stream_data _ = []"

definition stream_offset :: "bytes list \<Rightarrow> nat" where
  "stream_offset l = unat (ntohl (take 4 (tl (l ! 2))))"

definition dn_header :: "int \<Rightarrow> nat \<Rightarrow> bool \<Rightarrow> nat \<Rightarrow> bytes" where
  "dn_header seqno off lst n = (if lst then 1 else 0) # htonl (of_nat off)"

definition dn_wire :: "dn_world wire" where
  "dn_wire = \<lparr>w_send = (\<lambda>m (v, l, k). (int (length m), v, l @ [m], k)),
     w_recv = (\<lambda>n (v, l, k). if n = 5 then ((5, 4 # htonl (of_nat k)), v, l, k) else ((0, []), v, l, if k = 2 ^ 32 then 0 else Suc k)),
     w_close = (\<lambda>(v, l, k). (store_block (opened_of l) (stream_offset (drop 2 l)) (stream_data (drop 2 l)) v, l, k))\<rparr>"

definition dn_env :: "dn_world hdfs_env" where
  "dn_env = \<lparr>he_nn = dn_wire, he_dn = dn_wire, he_connect = (\<lambda>_ _ (v, l, k). (0, v, [], 2 ^ 32)), he_linger = (\<lambda>x. (0, x)), he_context = [],
     he_pack_header = (\<lambda>_. []), he_pack_method = (\<lambda>_. []), he_unpack_status = (\<lambda>_. None), he_pack_nn = (\<lambda>_. []), he_unpack_nn = (\<lambda>_ _. None),
     he_pack_write = (\<lambda>oper. 0 # replicate (eb_blockid (ow_block oper)) 1), he_pack_read = (\<lambda>_. []),
     he_unpack_op = (\<lambda>_. Some \<lparr>op_status = ST_SUCCESS, op_chunkoffset = None\<rparr>), he_pack_packet = dn_header, he_unpack_packet = (\<lambda>_. None),
     he_unpack_ack = ack_of, he_read_status = [], he_crc = (\<lambda>_. 0)\<rparr>"

lemma dn_wire_proto: "receive_proto dn_wire unpack (v, l, k) = Ret (Inr (unpack (htonl (of_nat k))), v, l, if k = 2 ^ 32 then 0 else Suc k)"
  by (simp add: receive_proto_def recv_all_def dn_wire_def decode_small copy_with_offset_def)

lemma stream_of_packets:
  assumes "ck_type ck = CHECKSUM_NULL" and "0 < psize" "off < 2 ^ 31"
  shows "stream_data (packet_stream dn_header crc ck psize seqno off d) = d"
    and "stream_offset (packet_stream dn_header crc ck psize seqno off d) = off"
proof -
  show "stream_data (packet_stream dn_header crc ck psize seqno off d) = d" for seqno off
  proof (induction "length d" arbitrary: d seqno off rule: less_induct)
    case less
    show ?case
    proof (cases "d = []")
      case True
      then show ?thesis using assms by (simp add: packet_stream.simps frame_def packet_head_def Let_def dn_header_def)
    next
      case False
      then have "length (drop psize d) < length d" using assms(2) by simp
      then show ?thesis
        using less.hyps [of "drop psize d"] False assms
        by (subst packet_stream.simps) (simp add: frame_def packet_head_def Let_def dn_header_def)
    qed
  qed
  have "unat (of_nat off :: u32) = off" using assms(3) by (simp add: unat_of_nat)
  then show "stream_offset (packet_stream dn_header crc ck psize seqno off d) = off"
    using assms by (subst packet_stream.simps) (simp add: stream_offset_def frame_def packet_head_def Let_def dn_header_def ntohl_htonl)
qed

lemma dn_env_server:
  assumes "nn_checksumtype nn = CHECKSUM_NULL" "0 < nn_packetsize nn"
  shows "dn_server dn_env nn fst opened_of (\<lambda>(v, l, k). l = [] \<and> k = 2 ^ 32) (\<lambda>(v, l, k). l) (\<lambda>(v, l, k). k)"
proof -
  have ack: "acking dn_wire ack_of (\<lambda>(v, l, k). l) (\<lambda>(v, l, k). k)"
    by (auto simp: acking_def dn_wire_proto ack_of_def ntohl_htonl check_ack_def unat_of_nat) (simp_all add: dn_wire_def)
  have keep: "keeps dn_wire fst" by (auto simp: keeps_def dn_wire_def)
  have send: "w_send dn_wire m (v, l, k) = (int (length m), v, l @ [m], k)" for m v l k by (simp add: dn_wire_def)
  have call: "hadoop_rpc_call_datanode dn_wire (\<lambda>_. Some \<lparr>op_status = ST_SUCCESS, op_chunkoffset = None\<rparr>) op_status 80 msg (v, [], 4294967296) =
      Ret ((0, Some \<lparr>op_status = ST_SUCCESS, op_chunkoffset = None\<rparr>), v, [[0, 28, 80], varint (unat (ucast (of_nat (length msg) :: u32) :: u64)) @ msg], 0)" for msg v
    by (simp add: hadoop_rpc_call_datanode_def PACK_varint hadoop_rpc_send_def deref_def dn_wire_proto send)
  have opened: "opened_of [m, b @ 0 # replicate i 1] = i" for m b i by (simp add: opened_of_def takeWhile_append)
  have close: "fst (w_close dn_wire x) = store_block (opened_of pre) off d (fst x)"
    if "length pre = 2" "fst (snd x) = pre @ packet_stream dn_header crc (nn_checksum nn) (nn_packetsize nn) 0 off d" "off < 2 ^ 31" for x pre off d crc
  proof -
    have "ck_type (nn_checksum nn) = CHECKSUM_NULL" using assms(1) by (simp add: nn_checksum_def)
    from stream_of_packets [OF this assms(2) that(3)] that(1,2) show ?thesis
      by (cases x) (auto simp: dn_wire_def opened_of_def nth_append)
  qed
  show ?thesis
    unfolding dn_server_def
    using ack keep close by (auto simp: dn_env_def call opened split_beta)
qed


end
