(* ===== verification/Sshfs_Cache.thy ===== *)
theory Sshfs_Cache
  imports External "HOL-Library.AList"
begin

text \<open>
  The attribute cache of the ssh file system (\<^verbatim>\<open>usfs_wrap/sshfs/cache.c\<close>): a table from paths to nodes with three parts (attributes,
  directory entries, link target), each with the time until which it is valid; the operations that fill, look up, invalidate
  and clean it; and the operations that stand between the caller and the ssh file system. The hash table is an
  association list, \<^verbatim>\<open>time\<close> is a function of the environment, and the operations of the file system below are parameters.
  Every function that takes the lock is one step.
\<close>

section \<open>State\<close>

text \<open>\<^verbatim>\<open>struct sshfs_operations\<close>, over the state its functions change; \<open>None\<close> is \<^verbatim>\<open>NULL\<close>.\<close>

record 's sshfs_operations =
  so_read :: "(nat \<Rightarrow> int \<Rightarrow> u64 \<Rightarrow> 's \<Rightarrow> ((int \<times> string) \<times> 's) cres) option"
  so_write :: "(string \<Rightarrow> int \<Rightarrow> u64 \<Rightarrow> 's \<Rightarrow> (int \<times> 's) cres) option"
  so_fsync :: "(int \<Rightarrow> u64 \<Rightarrow> 's \<Rightarrow> (int \<times> 's) cres) option"
  so_release :: "(string \<Rightarrow> u64 \<Rightarrow> 's \<Rightarrow> (int \<times> 's) cres) option"
  so_truncate :: "(string \<Rightarrow> int \<Rightarrow> u64 \<Rightarrow> 's \<Rightarrow> (int \<times> 's) cres) option"
  so_getattr :: "(string \<Rightarrow> u64 \<Rightarrow> 's \<Rightarrow> ((int \<times> stat) \<times> 's) cres) option"
  so_unlink :: "(string \<Rightarrow> 's \<Rightarrow> (int \<times> 's) cres) option"

record cache_node =
  n_stat :: stat
  stat_valid :: int
  n_dir :: "string list option"
  dir_valid :: int
  n_link :: "string option"
  link_valid :: int
  n_valid :: int

record 'w cache =
  stat_timeout_secs :: nat
  dir_timeout_secs :: nat
  link_timeout_secs :: nat
  max_size :: nat
  clean_interval_secs :: nat
  min_clean_interval_secs :: nat
  next_oper :: "'w env sshfs_operations"
  table :: "(string \<times> cache_node) list"
  last_cleaned :: int
  write_ctr :: u64
  cenv :: "'w env"

definition zero_node :: cache_node where
  "zero_node = \<lparr>n_stat = \<lparr>st_size = 0, st_mode = 0\<rparr>, stat_valid = 0, n_dir = None, dir_valid = 0, n_link = None,
     link_valid = 0, n_valid = 0\<rparr>"

section \<open>The table\<close>

definition cache_clean_entry :: "int \<Rightarrow> cache_node \<Rightarrow> bool" where
  "cache_clean_entry now node = (now > n_valid node)"

definition cache_clean :: "('w env \<Rightarrow> int) \<Rightarrow> 'w cache \<Rightarrow> 'w cache" where
  "cache_clean time c =
     (let now = time (cenv c) in
      if now > last_cleaned c + int (min_clean_interval_secs c) \<and>
         (length (table c) > max_size c \<or> now > last_cleaned c + int (clean_interval_secs c))
      then c\<lparr>table := filter (\<lambda>(key, node). \<not> cache_clean_entry now node) (table c), last_cleaned := now\<rparr>
      else c)"

definition cache_lookup :: "string \<Rightarrow> 'w cache \<Rightarrow> cache_node option" where
  "cache_lookup path c = map_of (table c) path"

definition cache_purge :: "string \<Rightarrow> 'w cache \<Rightarrow> 'w cache" where
  "cache_purge path c = c\<lparr>table := AList.delete path (table c)\<rparr>"

text \<open>The part of a path before its last slash, \<open>None\<close> when it has none: the use of \<^verbatim>\<open>strrchr\<close> and \<^verbatim>\<open>g_strndup\<close>.\<close>

definition before_last_slash :: "string \<Rightarrow> string option" where
  "before_last_slash path =
     (if CHR ''/'' \<in> set path then Some (rev (tl (dropWhile (\<lambda>c. c \<noteq> CHR ''/'') (rev path)))) else None)"

definition cache_purge_parent :: "string \<Rightarrow> 'w cache \<Rightarrow> 'w cache" where
  "cache_purge_parent path c =
     (case before_last_slash path of
       None \<Rightarrow> c
     | Some s \<Rightarrow> if s = [] then cache_purge ''/'' c else cache_purge s c)"

definition cache_invalidate :: "string \<Rightarrow> 'w cache \<Rightarrow> 'w cache" where
  "cache_invalidate path c = cache_purge path c"

definition cache_invalidate_write :: "string \<Rightarrow> 'w cache \<Rightarrow> 'w cache" where
  "cache_invalidate_write path c =
     (let c1 = cache_purge path c in c1\<lparr>write_ctr := write_ctr c1 + 1\<rparr>)"

definition cache_invalidate_dir :: "string \<Rightarrow> 'w cache \<Rightarrow> 'w cache" where
  "cache_invalidate_dir path c = cache_purge_parent path (cache_purge path c)"

definition cache_del_children :: "string \<Rightarrow> string \<Rightarrow> bool" where
  "cache_del_children key path = prefix path key"

definition cache_do_rename :: "string \<Rightarrow> string \<Rightarrow> 'w cache \<Rightarrow> 'w cache" where
  "cache_do_rename src dst c =
     (let c1 = c\<lparr>table := filter (\<lambda>(key, node). \<not> cache_del_children key src) (table c)\<rparr> in
      cache_purge_parent dst (cache_purge_parent src (cache_purge dst (cache_purge src c1))))"

definition cache_get :: "string \<Rightarrow> 'w cache \<Rightarrow> cache_node \<times> 'w cache" where
  "cache_get path c =
     (case cache_lookup path c of
       Some node \<Rightarrow> (node, c)
     | None \<Rightarrow> (zero_node, c\<lparr>table := AList.update path zero_node (table c)\<rparr>))"

text \<open>A store through the node pointer that \<^verbatim>\<open>cache_get\<close> returned.\<close>

definition put_node :: "string \<Rightarrow> cache_node \<Rightarrow> 'w cache \<Rightarrow> 'w cache" where
  "put_node path node c = c\<lparr>table := AList.update path node (table c)\<rparr>"

definition cache_add_attr :: "('w env \<Rightarrow> int) \<Rightarrow> string \<Rightarrow> stat \<Rightarrow> u64 \<Rightarrow> 'w cache \<Rightarrow> 'w cache" where
  "cache_add_attr time path stbuf wrctr c =
     (if wrctr = write_ctr c then
        let (node, c1) = cache_get path c;
            until = time (cenv c1) + int (stat_timeout_secs c1);
            node1 = node\<lparr>n_stat := stbuf, stat_valid := until,
              n_valid := (if until > n_valid node then until else n_valid node)\<rparr>
        in cache_clean time (put_node path node1 c1)
      else c)"

definition cache_add_dir :: "('w env \<Rightarrow> int) \<Rightarrow> string \<Rightarrow> string list \<Rightarrow> 'w cache \<Rightarrow> 'w cache" where
  "cache_add_dir time path dir c =
     (let (node, c1) = cache_get path c;
          until = time (cenv c1) + int (dir_timeout_secs c1);
          node1 = node\<lparr>n_dir := Some dir, dir_valid := until,
            n_valid := (if until > n_valid node then until else n_valid node)\<rparr>
      in cache_clean time (put_node path node1 c1))"

fun my_strnlen :: "string \<Rightarrow> nat \<Rightarrow> nat cres" where
  "my_strnlen s 0 = Ret 0"
| "my_strnlen [] (Suc n) = Undef Out_Of_Bounds"
| "my_strnlen (ch # s) (Suc n) = (if ch = NUL then Ret 0 else cmap Suc (my_strnlen s n))"

text \<open>One less on a \<^verbatim>\<open>size_t\<close>.\<close>

definition minus_one :: "nat \<Rightarrow> nat" where
  "minus_one sz = (if sz = 0 then 2 ^ 64 - 1 else sz - 1)"

definition cache_add_link :: "('w env \<Rightarrow> int) \<Rightarrow> string \<Rightarrow> string \<Rightarrow> nat \<Rightarrow> 'w cache \<Rightarrow> 'w cache cres" where
  "cache_add_link time path target bufsiz c =
     cmap (\<lambda>len.
       let (node, c1) = cache_get path c;
           until = time (cenv c1) + int (link_timeout_secs c1);
           node1 = node\<lparr>n_link := Some (take len target), link_valid := until,
             n_valid := (if until > n_valid node then until else n_valid node)\<rparr>
       in cache_clean time (put_node path node1 c1))
     (my_strnlen target (minus_one bufsiz))"

definition cache_get_attr :: "('w env \<Rightarrow> int) \<Rightarrow> string \<Rightarrow> 'w cache \<Rightarrow> stat option" where
  "cache_get_attr time path c =
     (case cache_lookup path c of
       None \<Rightarrow> None
     | Some node \<Rightarrow> if stat_valid node - time (cenv c) \<ge> 0 then Some (n_stat node) else None)"

definition cache_get_write_ctr :: "'w cache \<Rightarrow> u64" where
  "cache_get_write_ctr c = write_ctr c"

section \<open>Operations\<close>

text \<open>A call of an operation of the file system below.\<close>

definition call_next :: "('w env sshfs_operations \<Rightarrow> 'f option) \<Rightarrow> ('f \<Rightarrow> 'w env \<Rightarrow> ('r \<times> 'w env) cres) \<Rightarrow> 'w cache \<Rightarrow> ('r \<times> 'w cache) cres" where
  "call_next sel use c =
     cbind (fptr (sel (next_oper c))) (\<lambda>f. cmap (\<lambda>(r, e). (r, c\<lparr>cenv := e\<rparr>)) (use f (cenv c)))"

definition cache_getattr :: "('w env \<Rightarrow> int) \<Rightarrow> string \<Rightarrow> u64 \<Rightarrow> 'w cache \<Rightarrow> ((int \<times> stat) \<times> 'w cache) cres" where
  "cache_getattr time path fi c =
     (case cache_get_attr time path c of
       Some st \<Rightarrow> Ret ((0, st), c)
     | None \<Rightarrow>
         let wrctr = cache_get_write_ctr c in
         cmap (\<lambda>((err, st), c1). ((err, st), if err = 0 then cache_add_attr time path st wrctr c1 else c1))
           (call_next so_getattr (\<lambda>f. f path fi) c))"

text \<open>In \<^verbatim>\<open>cache_readlink\<close> the call of the file system below is commented out, so after a miss \<^verbatim>\<open>err\<close> is read uninitialised.\<close>

definition cache_readlink :: "('w env \<Rightarrow> int) \<Rightarrow> string \<Rightarrow> string \<Rightarrow> nat \<Rightarrow> 'w cache \<Rightarrow> ((int \<times> string) \<times> 'w cache) cres" where
  "cache_readlink time path buf bufsiz c =
     (case cache_lookup path c of
       Some node \<Rightarrow>
         if link_valid node - time (cenv c) \<ge> 0 then
           cbind (fptr (n_link node)) (\<lambda>target.
           cbind (strncpy buf 0 target (minus_one bufsiz)) (\<lambda>buf1.
           cmap (\<lambda>buf2. ((0, buf2), c)) (set_char buf1 (minus_one bufsiz) NUL)))
         else Undef Uninitialised
     | None \<Rightarrow> Undef Uninitialised)"

record cache_file_handle =
  is_open :: bool
  fs_fh :: u64

definition cache_opendir :: "bool \<Rightarrow> int \<times> cache_file_handle option" where
  "cache_opendir malloc_fails =
     (if malloc_fails then (- ENOMEM, None) else (0, Some \<lparr>is_open = False, fs_fh = 0\<rparr>))"

definition cache_releasedir :: "cache_file_handle option \<Rightarrow> int cres" where
  "cache_releasedir fh =
     cbind (fptr fh) (\<lambda>cfi. if is_open cfi then Undef Uninitialised else Ret 0)"

definition S_IFMT :: u32 where "S_IFMT = 0xF000"

type_synonym 'w filler = "string \<Rightarrow> stat option \<Rightarrow> 'w env \<Rightarrow> int \<times> 'w env"

text \<open>The fields \<^verbatim>\<open>path\<close>, \<^verbatim>\<open>filler\<close>, \<^verbatim>\<open>dir\<close> and \<^verbatim>\<open>wrctr\<close> of \<^verbatim>\<open>struct readdir_handle\<close>; its \<^verbatim>\<open>buf\<close> is part of the environment.\<close>

record 'w readdir_handle =
  rd_path :: string
  rd_filler :: "'w filler"
  rd_dir :: "string list"
  rd_wrctr :: u64

definition cache_dirfill :: "('w env \<Rightarrow> int) \<Rightarrow> 'w readdir_handle \<Rightarrow> string \<Rightarrow> stat option \<Rightarrow> 'w cache \<Rightarrow>
    (int \<times> 'w readdir_handle \<times> 'w cache) cres" where
  "cache_dirfill time ch name stbuf c =
     (case rd_filler ch name stbuf (cenv c) of (err, e) \<Rightarrow>
       let c1 = c\<lparr>cenv := e\<rparr> in
       if err \<noteq> 0 then Ret (err, ch, c1)
       else
         let ch1 = ch\<lparr>rd_dir := rd_dir ch @ [name]\<rparr> in
         cbind (fptr stbuf) (\<lambda>st.
         if st_mode st AND S_IFMT = 0 then Ret (0, ch1, c1)
         else if rd_path ch = [] then Undef Out_Of_Bounds
         else
           let basepath = (if tl (rd_path ch) = [] then [] else rd_path ch);
               fullpath = basepath @ ''/'' @ name
           in Ret (0, ch1, cache_add_attr time fullpath st (rd_wrctr ch) c1)))"

fun fill_all :: "'w filler \<Rightarrow> string list \<Rightarrow> 'w env \<Rightarrow> 'w env" where
  "fill_all filler [] e = e"
| "fill_all filler (d # ds) e = fill_all filler ds (snd (filler d None e))"

definition cache_readdir :: "('w env \<Rightarrow> int) \<Rightarrow> string \<Rightarrow> 'w filler \<Rightarrow> int \<Rightarrow> cache_file_handle option \<Rightarrow> 'w cache \<Rightarrow> (int \<times> 'w cache) cres" where
  "cache_readdir time path filler offset fh c =
     (if offset \<noteq> 0 then Undef Assertion_Failed
      else
        let cached = (case cache_lookup path c of
            None \<Rightarrow> None
          | Some node \<Rightarrow> if dir_valid node - time (cenv c) \<ge> 0 then n_dir node else None)
        in case cached of
          Some dir \<Rightarrow> Ret (0, c\<lparr>cenv := fill_all filler dir (cenv c)\<rparr>)
        | None \<Rightarrow> cbind (fptr fh) (\<lambda>cfi. Undef Uninitialised))"

text \<open>
  The operations whose call of the file system below is commented out (\<^verbatim>\<open>err = 0\<close>) only invalidate.
\<close>

definition cache_mknod :: "string \<Rightarrow> 'w cache \<Rightarrow> int \<times> 'w cache" where
  "cache_mknod path c = (0, cache_invalidate_dir path c)"

definition cache_mkdir :: "string \<Rightarrow> 'w cache \<Rightarrow> int \<times> 'w cache" where
  "cache_mkdir path c = (0, cache_invalidate_dir path c)"

definition cache_unlink :: "string \<Rightarrow> 'w cache \<Rightarrow> (int \<times> 'w cache) cres" where
  "cache_unlink path c =
     cmap (\<lambda>(err, c1). (err, if err = 0 then cache_invalidate_dir path c1 else c1)) (call_next so_unlink (\<lambda>f. f path) c)"

definition cache_rmdir :: "string \<Rightarrow> 'w cache \<Rightarrow> int \<times> 'w cache" where
  "cache_rmdir path c = (0, cache_invalidate_dir path c)"

definition cache_symlink :: "string \<Rightarrow> string \<Rightarrow> 'w cache \<Rightarrow> int \<times> 'w cache" where
  "cache_symlink src dst c = (0, cache_invalidate_dir dst c)"

definition cache_rename :: "string \<Rightarrow> string \<Rightarrow> 'w cache \<Rightarrow> int \<times> 'w cache" where
  "cache_rename src dst c = (0, cache_do_rename src dst c)"

definition cache_link :: "string \<Rightarrow> string \<Rightarrow> 'w cache \<Rightarrow> int \<times> 'w cache" where
  "cache_link src dst c = (0, cache_invalidate_dir dst (cache_invalidate src c))"

definition cache_chmod :: "string \<Rightarrow> 'w cache \<Rightarrow> int \<times> 'w cache" where
  "cache_chmod path c = (0, cache_invalidate path c)"

definition cache_chown :: "string \<Rightarrow> 'w cache \<Rightarrow> int \<times> 'w cache" where
  "cache_chown path c = (0, cache_invalidate path c)"

definition cache_utimens :: "string \<Rightarrow> 'w cache \<Rightarrow> int \<times> 'w cache" where
  "cache_utimens path c = (0, cache_invalidate path c)"

definition cache_write :: "string \<Rightarrow> int \<Rightarrow> u64 \<Rightarrow> 'w cache \<Rightarrow> (int \<times> 'w cache) cres" where
  "cache_write buf offset fi c =
     cmap (\<lambda>(res, c1). (res, if res \<ge> 0 then cache_invalidate_write '''' c1 else c1))
       (call_next so_write (\<lambda>f. f buf offset fi) c)"

definition cache_create :: "string \<Rightarrow> 'w cache \<Rightarrow> int \<times> 'w cache" where
  "cache_create path c = (0, cache_invalidate_dir path c)"

definition cache_truncate :: "string \<Rightarrow> int \<Rightarrow> u64 \<Rightarrow> 'w cache \<Rightarrow> (int \<times> 'w cache) cres" where
  "cache_truncate path len fi c =
     cmap (\<lambda>(err, c1). (err, if err = 0 then cache_invalidate path c1 else c1))
       (call_next so_truncate (\<lambda>f. f path len fi) c)"

section \<open>Wrapping\<close>

definition only_if :: "'f option \<Rightarrow> 'g \<Rightarrow> 'g option" where
  "only_if oper op = map_option (\<lambda>_. op) oper"

definition cache_fill :: "('w env \<Rightarrow> int) \<Rightarrow> 'w env sshfs_operations \<Rightarrow> 'w cache sshfs_operations" where
  "cache_fill time oper =
     (let lift = (\<lambda>m c. cmap (\<lambda>(r, e). (r, c\<lparr>cenv := e\<rparr>)) (m (cenv c))) in
      \<lparr>so_read = map_option (\<lambda>f n off fi c. cmap (\<lambda>(r, e). (r, c\<lparr>cenv := e\<rparr>)) (f n off fi (cenv c))) (so_read oper),
       so_write = only_if (so_write oper) cache_write,
       so_fsync = map_option (\<lambda>f d fi. lift (f d fi)) (so_fsync oper),
       so_release = map_option (\<lambda>f path fi. lift (f path fi)) (so_release oper),
       so_truncate = only_if (so_truncate oper) cache_truncate,
       so_getattr = only_if (so_getattr oper) (cache_getattr time),
       so_unlink = only_if (so_unlink oper) cache_unlink\<rparr>)"

definition cache_wrap :: "('w env \<Rightarrow> int) \<Rightarrow> 'w env sshfs_operations \<Rightarrow> 'w cache \<Rightarrow> 'w cache sshfs_operations \<times> 'w cache" where
  "cache_wrap time oper c = (cache_fill time oper, c\<lparr>next_oper := oper, table := []\<rparr>)"

text \<open>The defaults, and \<^verbatim>\<open>fuse_opt_parse\<close> as a parameter.\<close>

definition cache_parse_options :: "('w cache \<Rightarrow> int \<times> 'w cache) \<Rightarrow> 'w cache \<Rightarrow> int \<times> 'w cache" where
  "cache_parse_options fuse_opt_parse c =
     fuse_opt_parse (c\<lparr>stat_timeout_secs := 20, dir_timeout_secs := 20, link_timeout_secs := 20, max_size := 10000,
       clean_interval_secs := 60, min_clean_interval_secs := 5\<rparr>)"

section \<open>The invariant\<close>

definition node_ok :: "cache_node \<Rightarrow> bool" where
  "node_ok n \<longleftrightarrow> stat_valid n \<le> n_valid n \<and> dir_valid n \<le> n_valid n \<and> link_valid n \<le> n_valid n"

definition cache_inv :: "('w env \<Rightarrow> int) \<Rightarrow> 'w cache \<Rightarrow> bool" where
  "cache_inv time c \<longleftrightarrow> 0 < time (cenv c) \<and> distinct (map fst (table c)) \<and> (\<forall>(key, n) \<in> set (table c). node_ok n)"

text \<open>The attributes a lookup returns, with the time until which it does.\<close>

definition live :: "int \<Rightarrow> (string \<times> cache_node) list \<Rightarrow> string \<Rightarrow> (stat \<times> int) option" where
  "live now tab path =
     (case map_of tab path of
       None \<Rightarrow> None
     | Some n \<Rightarrow> if now \<le> stat_valid n then Some (n_stat n, stat_valid n) else None)"

lemma map_of_filter_distinct:
  "distinct (map fst tab) \<Longrightarrow>
    map_of (filter (\<lambda>(k, v). P k v) tab) q = (case map_of tab q of Some v \<Rightarrow> if P q v then Some v else None | None \<Rightarrow> None)"
proof (induction tab)
  case (Cons kv tab)
  obtain k v where kv: "kv = (k, v)" by (cases kv)
  have "map_of tab k = None"
    using Cons.prems by (simp add: kv map_of_eq_None_iff)
  then show ?case
    using Cons by (auto simp: kv)
qed simp

lemma live_clean:
  assumes "cache_inv time c"
  shows "live (time (cenv c)) (table (cache_clean time c)) = live (time (cenv c)) (table c)"
proof
  fix q
  have "now \<le> stat_valid n \<Longrightarrow> \<not> cache_clean_entry now n" if "map_of (table c) q = Some n" for n now
    using assms map_of_SomeD [OF that] by (auto simp: cache_inv_def node_ok_def cache_clean_entry_def)
  then show "live (time (cenv c)) (table (cache_clean time c)) q = live (time (cenv c)) (table c) q"
    using assms by (auto simp: live_def cache_clean_def Let_def cache_inv_def map_of_filter_distinct split: option.splits)
qed

lemma clean_fields [simp]:
  "cenv (cache_clean time c) = cenv c" "write_ctr (cache_clean time c) = write_ctr c"
  "stat_timeout_secs (cache_clean time c) = stat_timeout_secs c" "next_oper (cache_clean time c) = next_oper c"
  by (simp_all add: cache_clean_def Let_def)

lemma inv_clean: "cache_inv time c \<Longrightarrow> cache_inv time (cache_clean time c)"
  by (auto simp: cache_inv_def cache_clean_def Let_def distinct_map_filter)

lemma inv_filter:
  "cache_inv time c \<Longrightarrow> cache_inv time (c\<lparr>table := filter P (table c)\<rparr>)"
  by (auto simp: cache_inv_def distinct_map_filter)

lemma inv_delete: "cache_inv time c \<Longrightarrow> cache_inv time (c\<lparr>table := AList.delete path (table c)\<rparr>)"
  using inv_filter [of time c] by (simp add: AList.delete_eq)

lemma alist_update_subset: "set (AList.update k v al) \<subseteq> insert (k, v) (set al)"
  by (induction al) auto

lemma inv_put:
  assumes "cache_inv time c" and "node_ok n"
  shows "cache_inv time (put_node path n c)"
  using assms distinct_update [of "table c" path n] alist_update_subset [of path n "table c"]
  by (auto simp: cache_inv_def put_node_def)

section \<open>Refinement\<close>

text \<open>
  What the table promises for attributes: a map from paths to attributes with an expiry time, which ends at the timeout,
  at an invalidation of the path, of an entry of its directory or of a rename, and whose additions are dropped when
  a write was counted since the caller read the counter. Adding directories and links, and cleaning, are invisible.
\<close>

record attr_cache =
  timeout :: int
  now :: int
  ctr :: u64
  attrs :: "string \<Rightarrow> (stat \<times> int) option"

datatype cache_step =
    Add_Attr string stat u64 | Add_Dir string "string list" | Add_Link string string nat
  | Get_Attr string | Get_Write_Ctr | Invalidate string | Invalidate_Write string | Invalidate_Dir string
  | Do_Rename string string | Pass nat

datatype cache_result = R_unit | R_attr "stat option" | R_ctr u64

text \<open>The world is the clock; \<open>Pass\<close> lets time pass.\<close>

fun cache_run :: "cache_step \<Rightarrow> int cache \<Rightarrow> (cache_result \<times> int cache) cres" where
  "cache_run (Add_Attr p st w) c = Ret (R_unit, cache_add_attr world p st w c)"
| "cache_run (Add_Dir p d) c = Ret (R_unit, cache_add_dir world p d c)"
| "cache_run (Add_Link p t n) c = cmap (\<lambda>c1. (R_unit, c1)) (cache_add_link world p t n c)"
| "cache_run (Get_Attr p) c = Ret (R_attr (cache_get_attr world p c), c)"
| "cache_run Get_Write_Ctr c = Ret (R_ctr (cache_get_write_ctr c), c)"
| "cache_run (Invalidate p) c = Ret (R_unit, cache_invalidate p c)"
| "cache_run (Invalidate_Write p) c = Ret (R_unit, cache_invalidate_write p c)"
| "cache_run (Invalidate_Dir p) c = Ret (R_unit, cache_invalidate_dir p c)"
| "cache_run (Do_Rename a b) c = Ret (R_unit, cache_do_rename a b c)"
| "cache_run (Pass d) c = Ret (R_unit, c\<lparr>cenv := (cenv c)\<lparr>world := world (cenv c) + int d\<rparr>\<rparr>)"

fun cache_valid :: "cache_step \<Rightarrow> bool" where
  "cache_valid (Add_Link p t n) \<longleftrightarrow> 0 < n \<and> n - 1 \<le> length t"
| "cache_valid _ \<longleftrightarrow> True"

definition parents :: "string \<Rightarrow> string set" where
  "parents path = (case before_last_slash path of None \<Rightarrow> {} | Some s \<Rightarrow> {if s = [] then ''/'' else s})"

definition forget :: "string set \<Rightarrow> attr_cache \<Rightarrow> attr_cache" where
  "forget ps a = a\<lparr>attrs := (\<lambda>q. if q \<in> ps then None else attrs a q)\<rparr>"

fun cache_spec :: "cache_step \<Rightarrow> attr_cache \<Rightarrow> cache_result \<times> attr_cache" where
  "cache_spec (Add_Attr p st w) a =
     (R_unit, if w = ctr a then a\<lparr>attrs := (attrs a)(p \<mapsto> (st, now a + timeout a))\<rparr> else a)"
| "cache_spec (Add_Dir p d) a = (R_unit, a)"
| "cache_spec (Add_Link p t n) a = (R_unit, a)"
| "cache_spec (Get_Attr p) a = (R_attr (map_option fst (attrs a p)), a)"
| "cache_spec Get_Write_Ctr a = (R_ctr (ctr a), a)"
| "cache_spec (Invalidate p) a = (R_unit, forget {p} a)"
| "cache_spec (Invalidate_Write p) a = (R_unit, (forget {p} a)\<lparr>ctr := ctr a + 1\<rparr>)"
| "cache_spec (Invalidate_Dir p) a = (R_unit, forget (insert p (parents p)) a)"
| "cache_spec (Do_Rename src dst) a =
     (R_unit, forget ({q. prefix src q} \<union> {dst} \<union> parents src \<union> parents dst) a)"
| "cache_spec (Pass d) a =
     (R_unit, a\<lparr>now := now a + int d,
        attrs := (\<lambda>q. case attrs a q of Some (st, t) \<Rightarrow> if now a + int d \<le> t then Some (st, t) else None | None \<Rightarrow> None)\<rparr>)"

definition cache_abs :: "int cache \<Rightarrow> attr_cache" where
  "cache_abs c = \<lparr>timeout = int (stat_timeout_secs c), now = world (cenv c), ctr = write_ctr c,
     attrs = live (world (cenv c)) (table c)\<rparr>"

lemma live_delete: "live t (AList.delete p tab) = (\<lambda>q. if q = p then None else live t tab q)"
  by (auto simp: live_def delete_conv)

lemma live_filter_keys:
  "distinct (map fst tab) \<Longrightarrow> live t (filter (\<lambda>(k, n). P k) tab) = (\<lambda>q. if P q then live t tab q else None)"
  by (rule ext) (auto simp: live_def map_of_filter_distinct split: option.splits)

lemma purge_abs: "cache_inv world c \<Longrightarrow> cache_inv world (cache_purge p c) \<and> cache_abs (cache_purge p c) = forget {p} (cache_abs c)"
  by (auto simp: cache_purge_def inv_delete cache_abs_def forget_def live_delete)

lemma forget_forget: "forget A (forget B a) = forget (A \<union> B) a"
  by (cases a) (auto simp: forget_def fun_eq_iff)

lemma forget_none: "forget {} a = a"
  by (simp add: forget_def)

lemma purge_parent_abs:
  "cache_inv world c \<Longrightarrow>
    cache_inv world (cache_purge_parent p c) \<and> cache_abs (cache_purge_parent p c) = forget (parents p) (cache_abs c)"
  using purge_abs [of c] by (auto simp: cache_purge_parent_def parents_def forget_none split: option.split)

lemma cache_get_node:
  assumes "cache_inv time c" and "cache_get p c = (n, c1)"
  shows "cache_inv time c1 \<and> node_ok n \<and> cenv c1 = cenv c \<and> write_ctr c1 = write_ctr c \<and>
    stat_timeout_secs c1 = stat_timeout_secs c \<and>
    live (time (cenv c)) (table c1) = live (time (cenv c)) (table c) \<and>
    live (time (cenv c)) [(p, n)] p = live (time (cenv c)) (table c) p"
proof (cases "map_of (table c) p")
  case None
  have z: "node_ok zero_node" by (simp add: node_ok_def zero_node_def)
  have "\<not> time (cenv c) \<le> stat_valid zero_node"
    using assms(1) by (simp add: cache_inv_def zero_node_def)
  then show ?thesis
    using assms(2) None z inv_put [OF assms(1) z, of p]
    by (auto simp: cache_get_def cache_lookup_def put_node_def live_def update_conv fun_eq_iff)
next
  case (Some m)
  then have "node_ok m"
    using assms(1) map_of_SomeD [OF Some] by (auto simp: cache_inv_def)
  then show ?thesis
    using assms Some by (auto simp: cache_get_def cache_lookup_def live_def)
qed

lemma live_put: "live t (AList.update p n tab) = (live t tab)(p := live t [(p, n)] p)"
  by (auto simp: live_def update_conv fun_eq_iff)

text \<open>A store into a node, the part of the three additions they share.\<close>

lemma put_clean_abs:
  assumes "cache_inv world c" and "cache_get p c = (n, c1)" and "node_ok n1"
  shows "cache_inv world (cache_clean world (put_node p n1 c1))"
    and "cache_abs (cache_clean world (put_node p n1 c1)) =
      (cache_abs c)\<lparr>attrs := (attrs (cache_abs c))(p := live (world (cenv c)) [(p, n1)] p)\<rparr>"
proof -
  note g = cache_get_node [OF assms(1,2)]
  have i: "cache_inv world (put_node p n1 c1)"
    using g by (intro inv_put assms(3)) simp
  then show "cache_inv world (cache_clean world (put_node p n1 c1))"
    by (rule inv_clean)
  show "cache_abs (cache_clean world (put_node p n1 c1)) =
      (cache_abs c)\<lparr>attrs := (attrs (cache_abs c))(p := live (world (cenv c)) [(p, n1)] p)\<rparr>"
    using live_clean [OF i] g by (simp add: cache_abs_def put_node_def live_put)
qed

lemma my_strnlen_returns: "n \<le> length t \<Longrightarrow> \<exists>k. my_strnlen t n = Ret k"
  by (induction t n rule: my_strnlen.induct) auto

lemma cache_law:
  assumes "cache_inv world c" and "cache_valid x"
  shows "\<exists>c'. cache_run x c = Ret (fst (cache_spec x (cache_abs c)), c') \<and> cache_inv world c' \<and>
    cache_abs c' = snd (cache_spec x (cache_abs c))"
proof (cases x)
  case (Add_Attr p st w)
  obtain n c1 where g: "cache_get p c = (n, c1)" by fastforce
  let ?u = "world (cenv c) + int (stat_timeout_secs c)"
  let ?n = "n\<lparr>n_stat := st, stat_valid := ?u, n_valid := (if ?u > n_valid n then ?u else n_valid n)\<rparr>"
  note gn = cache_get_node [OF assms(1) g]
  define n1 where "n1 = ?n"
  have ok: "node_ok n1" and l: "live (world (cenv c)) [(p, n1)] p = Some (st, ?u)"
    using gn by (auto simp: n1_def node_ok_def live_def)
  have "cache_add_attr world p st w c = (if w = write_ctr c then cache_clean world (put_node p n1 c1) else c)"
    using gn by (simp add: cache_add_attr_def g Let_def n1_def)
  then show ?thesis
    using put_clean_abs [OF assms(1) g ok] assms(1) by (simp add: Add_Attr l) (simp add: cache_abs_def)
next
  case (Add_Dir p d)
  obtain n c1 where g: "cache_get p c = (n, c1)" by fastforce
  let ?u = "world (cenv c1) + int (dir_timeout_secs c1)"
  let ?n = "n\<lparr>n_dir := Some d, dir_valid := ?u, n_valid := (if ?u > n_valid n then ?u else n_valid n)\<rparr>"
  note gn = cache_get_node [OF assms(1) g]
  define n1 where "n1 = ?n"
  have ok: "node_ok n1" and l: "live (world (cenv c)) [(p, n1)] p = attrs (cache_abs c) p"
    using gn by (auto simp: n1_def node_ok_def live_def cache_abs_def)
  have "cache_run x c = Ret (R_unit, cache_clean world (put_node p n1 c1))"
    by (simp add: Add_Dir cache_add_dir_def Let_def g n1_def)
  then show ?thesis
    using put_clean_abs [OF assms(1) g ok] by (simp add: Add_Dir l)
next
  case (Add_Link p t k)
  obtain n c1 where g: "cache_get p c = (n, c1)" by fastforce
  obtain len where len: "my_strnlen t (minus_one k) = Ret len"
    using my_strnlen_returns [of "minus_one k" t] assms(2) Add_Link by (auto simp: minus_one_def)
  let ?u = "world (cenv c1) + int (link_timeout_secs c1)"
  let ?n = "n\<lparr>n_link := Some (take len t), link_valid := ?u, n_valid := (if ?u > n_valid n then ?u else n_valid n)\<rparr>"
  note gn = cache_get_node [OF assms(1) g]
  define n1 where "n1 = ?n"
  have ok: "node_ok n1" and l: "live (world (cenv c)) [(p, n1)] p = attrs (cache_abs c) p"
    using gn by (auto simp: n1_def node_ok_def live_def cache_abs_def)
  have "cache_run x c = Ret (R_unit, cache_clean world (put_node p n1 c1))"
    by (simp add: Add_Link cache_add_link_def Let_def len g n1_def)
  then show ?thesis
    using put_clean_abs [OF assms(1) g ok] by (simp add: Add_Link l)
next
  case (Get_Attr p)
  then show ?thesis
    using assms(1) by (auto simp: cache_get_attr_def cache_lookup_def cache_abs_def live_def split: option.splits)
next
  case (Invalidate_Write p)
  then show ?thesis
    using purge_abs [OF assms(1), of p]
    by (simp add: cache_invalidate_write_def Let_def cache_inv_def cache_abs_def forget_def cache_purge_def)
next
  case (Invalidate_Dir p)
  then show ?thesis
    using purge_abs [OF assms(1), of p] purge_parent_abs [of "cache_purge p c" p]
    by (simp add: cache_invalidate_dir_def forget_forget)
next
  case (Do_Rename src dst)
  let ?c = "c\<lparr>table := filter (\<lambda>(key, node). \<not> cache_del_children key src) (table c)\<rparr>"
  have i: "cache_inv world ?c" by (rule inv_filter [OF assms(1)])
  have a: "cache_abs ?c = forget {q. prefix src q} (cache_abs c)"
    using assms(1) by (auto simp: cache_abs_def forget_def live_filter_keys cache_inv_def cache_del_children_def fun_eq_iff)
  note p1 = purge_abs [OF i, of src]
  note p2 = purge_abs [OF conjunct1 [OF p1], of dst]
  note p3 = purge_parent_abs [OF conjunct1 [OF p2], of src]
  note p4 = purge_parent_abs [OF conjunct1 [OF p3], of dst]
  have "parents dst \<union> (parents src \<union> ({dst} \<union> ({src} \<union> {q. prefix src q}))) =
      {q. prefix src q} \<union> {dst} \<union> parents src \<union> parents dst"
    by auto
  then show ?thesis
    using p1 p2 p3 p4 a by (simp add: Do_Rename cache_do_rename_def Let_def forget_forget)
next
  case (Pass d)
  then show ?thesis
    using assms(1) by (auto simp: cache_inv_def cache_abs_def live_def fun_eq_iff split: option.splits)
qed (use assms(1) purge_abs [OF assms(1)] in \<open>auto simp: cache_invalidate_def cache_get_write_ctr_def cache_abs_def\<close>)

interpretation acr: data_refinement "cache_inv world" cache_abs cache_valid cache_run cache_spec
  by unfold_locales (rule cache_law)

section \<open>Properties\<close>

text \<open>
  C8. The attribute cache is a map with expiry times: any sequence of additions, lookups, invalidations, renames and passing of time
  returns what the map returns, in particular a lookup never returns attributes after their timeout, after an
  invalidation of the path or of an entry of the directory, or attributes added with an outdated write
  counter, and cleaning never removes attributes that are still valid.
\<close>

theorem attr_cache_refines_timed_map:
  assumes "cache_inv world c" and "list_all cache_valid xs"
  shows "\<exists>c'. run_steps cache_run xs c = Ret (fst (run_spec cache_spec xs (cache_abs c)), c') \<and> cache_inv world c' \<and>
    cache_abs c' = snd (run_spec cache_spec xs (cache_abs c))"
  using assms by (rule acr.run_law)

definition example_cache :: "'w env sshfs_operations \<Rightarrow> 'w env \<Rightarrow> 'w cache" where
  "example_cache oper e = \<lparr>stat_timeout_secs = 20, dir_timeout_secs = 20, link_timeout_secs = 20, max_size = 10000,
     clean_interval_secs = 60, min_clean_interval_secs = 5, next_oper = oper, table = [], last_cleaned = 0,
     write_ctr = 0, cenv = e\<rparr>"

definition no_operations :: "'s sshfs_operations" where
  "no_operations = \<lparr>so_read = None, so_write = None, so_fsync = None, so_release = None, so_truncate = None,
     so_getattr = None, so_unlink = None\<rparr>"

theorem attr_cache_refines_timed_map_witness:
  "let c = example_cache no_operations \<lparr>errno = 0, world = 100\<rparr>; st = \<lparr>st_size = 5, st_mode = 0\<rparr>
   in \<exists>c'. run_steps cache_run [Add_Attr ''/d/f'' st 0, Pass 20, Get_Attr ''/d/f'', Pass 1, Get_Attr ''/d/f''] c =
     Ret ([R_unit, R_unit, R_attr (Some st), R_unit, R_attr None], c')"
proof -
  let ?c = "example_cache no_operations \<lparr>errno = 0, world = 100\<rparr> :: int cache" and ?st = "\<lparr>st_size = 5, st_mode = 0\<rparr> :: stat"
  let ?xs = "[Add_Attr ''/d/f'' ?st 0, Pass 20, Get_Attr ''/d/f'', Pass 1, Get_Attr ''/d/f'']"
  have "cache_inv world ?c" by (simp add: cache_inv_def example_cache_def)
  moreover have "fst (run_spec cache_spec ?xs (cache_abs ?c)) = [R_unit, R_unit, R_attr (Some ?st), R_unit, R_attr None]"
    by (simp add: cache_abs_def example_cache_def)
  ultimately show ?thesis
    using attr_cache_refines_timed_map [of ?c ?xs] unfolding Let_def by auto
qed

lemma live_get_attr: "cache_get_attr time path c = map_option fst (live (time (cenv c)) (table c) path)"
  by (auto simp: cache_get_attr_def cache_lookup_def live_def split: option.splits)

text \<open>
  Writing through a handle does not invalidate the attributes of the file: \<^verbatim>\<open>cache_write\<close> purges the empty path instead of the
  path of the file, so after a successful write \<^verbatim>\<open>cache_getattr\<close> still returns, without asking the server, the size from before.
\<close>

theorem write_keeps_stale_attributes:
  assumes "cache_get_attr time path c = Some st" and "path \<noteq> []"
    and "call_next so_write (\<lambda>f. f buf offset fi) c = Ret (res, c1)" and "res \<ge> 0" and "time (cenv c1) \<le> time (cenv c)"
  shows "\<exists>c2. cache_write buf offset fi c = Ret (res, c2) \<and> cache_getattr time path fi' c2 = Ret ((0, st), c2)"
proof -
  have "table c1 = table c"
    using assms(3) by (auto simp: call_next_def cbind_Ret_iff cmap_Ret_iff)
  then have "cache_get_attr time path (cache_invalidate_write [] c1) = Some st"
    using assms(1,2,5)
    by (auto simp: cache_get_attr_def cache_lookup_def cache_invalidate_write_def Let_def cache_purge_def delete_conv
        split: option.splits if_splits)
  then show ?thesis
    using assms(3,4) by (simp add: cache_write_def cache_getattr_def)
qed

text \<open>A server that keeps the size of a file beside the time.\<close>

definition sized_server :: "(int \<times> int) env sshfs_operations" where
  "sized_server = no_operations
     \<lparr>so_write := Some (\<lambda>d off fi e. Ret (int (length d), e\<lparr>world := (fst (world e), snd (world e) + int (length d))\<rparr>)),
      so_getattr := Some (\<lambda>p fi e. Ret ((0, \<lparr>st_size = snd (world e), st_mode = 0\<rparr>), e))\<rparr>"

theorem write_keeps_stale_attributes_witness:
  "let time = (\<lambda>e. fst (world e));
       c = put_node ''/f'' (zero_node\<lparr>stat_valid := 120, n_valid := 120\<rparr>) (example_cache sized_server \<lparr>errno = 0, world = (100, 0)\<rparr>)
   in \<exists>c2. cache_write ''abc'' 0 7 c = Ret (3, c2) \<and> snd (world (cenv c2)) = 3 \<and>
        cache_getattr time ''/f'' 7 c2 = Ret ((0, \<lparr>st_size = 0, st_mode = 0\<rparr>), c2)"
proof -
  let ?c = "put_node ''/f'' (zero_node\<lparr>stat_valid := 120, n_valid := 120\<rparr>) (example_cache sized_server \<lparr>errno = 0, world = (100, 0)\<rparr>)"
  let ?c1 = "?c\<lparr>cenv := \<lparr>errno = 0, world = (100, 3)\<rparr>\<rparr>"
  have w: "call_next so_write (\<lambda>f. f ''abc'' 0 7) ?c = Ret (3, ?c1)"
    by (simp add: call_next_def put_node_def example_cache_def sized_server_def)
  have g: "cache_get_attr (\<lambda>e. fst (world e)) ''/f'' ?c = Some \<lparr>st_size = 0, st_mode = 0\<rparr>"
    by (simp add: cache_get_attr_def cache_lookup_def put_node_def example_cache_def zero_node_def)
  have "fst (world (cenv ?c1)) \<le> fst (world (cenv ?c))"
    by (simp add: put_node_def example_cache_def)
  with write_keeps_stale_attributes [OF g _ w, of 7] obtain c2 where
    c2: "cache_write ''abc'' 0 7 ?c = Ret (3, c2)" "cache_getattr (\<lambda>e. fst (world e)) ''/f'' 7 c2 = Ret ((0, \<lparr>st_size = 0, st_mode = 0\<rparr>), c2)"
    by auto
  have "snd (world (cenv c2)) = 3"
    using c2(1) w by (auto simp: cache_write_def cache_invalidate_write_def Let_def cache_purge_def)
  with c2 show ?thesis
    unfolding Let_def by blast
qed

lemma lookup_purge: "cache_lookup p (cache_purge q c) = (if p = q then None else cache_lookup p c)"
  by (simp add: cache_lookup_def cache_purge_def delete_conv)

lemma lookup_purge_parent: "cache_lookup p c = None \<Longrightarrow> cache_lookup p (cache_purge_parent q c) = None"
  by (auto simp: cache_purge_parent_def lookup_purge split: option.split)

text \<open>
  C39. Attributes come from the server exactly when the cache has none: a lookup that finds valid attributes returns them
  without a call, one that does not returns the server's answer and, if that is a success, a lookup at the same time
  returns it again without a call; and after a successful unlink or truncate the next lookup always asks the server.
\<close>

theorem getattr_asks_server_when_needed:
  assumes "cache_inv time c"
  shows "(\<forall>st. cache_get_attr time path c = Some st \<longrightarrow> cache_getattr time path fi c = Ret ((0, st), c)) \<and>
    (cache_get_attr time path c = None \<longrightarrow>
      (\<forall>err st c1. call_next so_getattr (\<lambda>f. f path fi) c = Ret ((err, st), c1) \<and> 0 < time (cenv c1) \<longrightarrow>
        (\<exists>c2. cache_getattr time path fi c = Ret ((err, st), c2) \<and>
           (err = 0 \<longrightarrow> cache_getattr time path fi c2 = Ret ((0, st), c2))))) \<and>
    (\<forall>c1. cache_unlink path c = Ret (0, c1) \<or> cache_truncate path len fi c = Ret (0, c1) \<longrightarrow> cache_get_attr time path c1 = None)"
proof (intro conjI allI impI)
  fix st assume "cache_get_attr time path c = Some st"
  then show "cache_getattr time path fi c = Ret ((0, st), c)" by (simp add: cache_getattr_def)
next
  fix err st c1
  assume miss: "cache_get_attr time path c = None"
    and call: "call_next so_getattr (\<lambda>f. f path fi) c = Ret ((err, st), c1) \<and> 0 < time (cenv c1)"
  obtain n c2 where g: "cache_get path c1 = (n, c2)" by fastforce
  have e: "write_ctr c1 = write_ctr c" "table c1 = table c"
    using call by (auto simp: call_next_def cbind_Ret_iff cmap_Ret_iff)
  have i: "cache_inv time c1" using assms call e by (simp add: cache_inv_def)
  note gn = cache_get_node [OF i g]
  let ?u = "time (cenv c1) + int (stat_timeout_secs c1)"
  define n1 where "n1 = n\<lparr>n_stat := st, stat_valid := ?u, n_valid := (if ?u > n_valid n then ?u else n_valid n)\<rparr>"
  have "node_ok n1" using gn by (auto simp: n1_def node_ok_def)
  then have i2: "cache_inv time (put_node path n1 c2)"
    using gn by (intro inv_put) simp_all
  have a: "cache_add_attr time path st (write_ctr c) c1 = cache_clean time (put_node path n1 c2)"
    using gn e by (simp add: cache_add_attr_def g Let_def n1_def)
  have "live (time (cenv c1)) (table (put_node path n1 c2)) path = Some (st, ?u)"
    by (simp add: put_node_def live_put) (simp add: live_def n1_def)
  then have "cache_get_attr time path (cache_clean time (put_node path n1 c2)) = Some st"
    using live_clean [OF i2] gn by (simp add: live_get_attr put_node_def)
  then show "\<exists>c2. cache_getattr time path fi c = Ret ((err, st), c2) \<and>
      (err = 0 \<longrightarrow> cache_getattr time path fi c2 = Ret ((0, st), c2))"
    using miss call a by (simp add: cache_getattr_def cache_get_write_ctr_def)
next
  fix c1 assume "cache_unlink path c = Ret (0, c1) \<or> cache_truncate path len fi c = Ret (0, c1)"
  then obtain c0 where "c1 = cache_invalidate_dir path c0 \<or> c1 = cache_invalidate path c0"
    by (auto simp: cache_unlink_def cache_truncate_def cmap_Ret_iff)
  then show "cache_get_attr time path c1 = None"
    by (auto simp: cache_get_attr_def cache_invalidate_dir_def cache_invalidate_def lookup_purge lookup_purge_parent)
qed

theorem getattr_asks_server_when_needed_witness:
  "let time = (\<lambda>e. fst (world e)); c = example_cache sized_server \<lparr>errno = 0, world = (100, 9)\<rparr>
   in \<exists>c2. cache_getattr time ''/f'' 7 c = Ret ((0, \<lparr>st_size = 9, st_mode = 0\<rparr>), c2) \<and>
        cache_getattr time ''/f'' 7 c2 = Ret ((0, \<lparr>st_size = 9, st_mode = 0\<rparr>), c2)"
proof -
  let ?time = "\<lambda>e. fst (world e)"
  let ?c = "example_cache sized_server \<lparr>errno = 0, world = (100, 9)\<rparr>"
  have i: "cache_inv ?time ?c" by (simp add: cache_inv_def example_cache_def)
  have m: "cache_get_attr ?time ''/f'' ?c = None"
    by (simp add: cache_get_attr_def cache_lookup_def example_cache_def)
  have n: "call_next so_getattr (\<lambda>f. f ''/f'' 7) ?c = Ret ((0, \<lparr>st_size = 9, st_mode = 0\<rparr>), ?c) \<and> 0 < ?time (cenv ?c)"
    by (simp add: call_next_def example_cache_def sized_server_def)
  show ?thesis
    unfolding Let_def
    using getattr_asks_server_when_needed [OF i, of "''/f''" 7 0] m n by blast
qed

end
