(* ===== verification/Sshfs_Lists.thy ===== *)
theory Sshfs_Lists
  imports Sshfs_Buffer
begin

text \<open>
  The doubly linked lists of \<^verbatim>\<open>usfs_wrap/sshfs/sshfs_wrap.c\<close> and what they are used for there: the write requests of an open
  file that the server has not answered yet, which \<^verbatim>\<open>sshfs_flush\<close> moves to a list of its own to wait for them. A list element is an
  address, and the links are two maps from addresses; a read of a link that was never written is undefined.
\<close>

section \<open>The list operations\<close>

record list_heap =
  l_prev :: "nat \<rightharpoonup> nat"
  l_next :: "nat \<rightharpoonup> nat"

definition link :: "(nat \<rightharpoonup> nat) \<Rightarrow> nat \<Rightarrow> nat cres" where
  "link f p = (case f p of Some q \<Rightarrow> Ret q | None \<Rightarrow> Undef Uninitialised)"

definition set_prev :: "nat \<Rightarrow> nat \<Rightarrow> list_heap \<Rightarrow> list_heap" where
  "set_prev p q h = h\<lparr>l_prev := (l_prev h)(p \<mapsto> q)\<rparr>"

definition set_next :: "nat \<Rightarrow> nat \<Rightarrow> list_heap \<Rightarrow> list_heap" where
  "set_next p q h = h\<lparr>l_next := (l_next h)(p \<mapsto> q)\<rparr>"

definition list_init :: "nat \<Rightarrow> list_heap \<Rightarrow> list_heap" where
  "list_init head h = set_prev head head (set_next head head h)"

definition list_add :: "nat \<Rightarrow> nat \<Rightarrow> list_heap \<Rightarrow> list_heap cres" where
  "list_add new head h =
     cmap (\<lambda>next. set_next head new (set_prev new head (set_next new next (set_prev next new h)))) (link (l_next h) head)"

definition list_del :: "nat \<Rightarrow> list_heap \<Rightarrow> list_heap cres" where
  "list_del entry h =
     cbind (link (l_prev h) entry) (\<lambda>prev.
     cmap (\<lambda>next. set_next prev next (set_prev next prev h)) (link (l_next h) entry))"

definition list_empty :: "nat \<Rightarrow> list_heap \<Rightarrow> bool cres" where
  "list_empty head h = cmap (\<lambda>next. next = head) (link (l_next h) head)"

section \<open>Lists in the heap\<close>

text \<open>\<open>dseg h a xs b\<close>: from \<open>a\<close> the links lead through \<open>xs\<close> to \<open>b\<close>, in both directions. A list with a head is a cycle.\<close>

fun dseg :: "list_heap \<Rightarrow> nat \<Rightarrow> nat list \<Rightarrow> nat \<Rightarrow> bool" where
  "dseg h a [] b \<longleftrightarrow> l_next h a = Some b \<and> l_prev h b = Some a"
| "dseg h a (x # xs) b \<longleftrightarrow> l_next h a = Some x \<and> l_prev h x = Some a \<and> dseg h x xs b"

definition is_list :: "list_heap \<Rightarrow> nat \<Rightarrow> nat list \<Rightarrow> bool" where
  "is_list h p xs \<longleftrightarrow> distinct (p # xs) \<and> dseg h p xs p"

lemma dseg_append: "dseg h a (xs @ b # ys) c \<longleftrightarrow> dseg h a xs b \<and> dseg h b ys c"
  by (induction xs arbitrary: a) auto

lemma is_list_rotate: "is_list h a (xs @ b # ys) \<longleftrightarrow> is_list h b (ys @ a # xs)"
  by (auto simp: is_list_def dseg_append)

lemma dseg_frame:
  "dseg h a xs b \<Longrightarrow> \<forall>p \<in> set (a # xs). l_next h' p = l_next h p \<Longrightarrow> \<forall>p \<in> set (xs @ [b]). l_prev h' p = l_prev h p \<Longrightarrow> dseg h' a xs b"
  by (induction xs arbitrary: a) auto

lemma is_list_frame:
  assumes "is_list h p xs" and "\<And>q. q \<in> set (p # xs) \<Longrightarrow> l_next h' q = l_next h q \<and> l_prev h' q = l_prev h q"
  shows "is_list h' p xs"
  using assms by (auto simp: is_list_def intro: dseg_frame [of h])

lemmas heap_simps = set_prev_def set_next_def link_def

lemma is_list_init: "is_list (list_init p h) p []"
  by (simp add: is_list_def list_init_def heap_simps)

lemma list_init_other: "q \<noteq> p \<Longrightarrow> l_next (list_init p h) q = l_next h q \<and> l_prev (list_init p h) q = l_prev h q"
  by (simp add: list_init_def heap_simps)

lemma list_empty_correct: "is_list h p xs \<Longrightarrow> list_empty p h = Ret (xs = [])"
  by (cases xs) (auto simp: is_list_def list_empty_def heap_simps)

text \<open>Insertion right after the head, and removal of any element, with the heap outside unchanged.\<close>

definition same_outside :: "nat set \<Rightarrow> list_heap \<Rightarrow> list_heap \<Rightarrow> bool" where
  "same_outside A h h' \<longleftrightarrow> (\<forall>q. q \<notin> A \<longrightarrow> l_next h' q = l_next h q \<and> l_prev h' q = l_prev h q)"

lemma is_list_outside: "same_outside A h h' \<Longrightarrow> is_list h p xs \<Longrightarrow> set (p # xs) \<inter> A = {} \<Longrightarrow> is_list h' p xs"
  by (erule is_list_frame) (auto simp: same_outside_def)

lemma list_add_correct:
  assumes "is_list h p xs" and "new \<notin> set (p # xs)"
  shows "\<exists>h'. list_add new p h = Ret h' \<and> is_list h' p (new # xs) \<and> same_outside (set (new # p # xs)) h h'"
proof (cases xs)
  case Nil
  let ?h = "set_next p new (set_prev new p (set_next new p (set_prev p new h)))"
  have "list_add new p h = Ret ?h" using assms Nil by (simp add: is_list_def list_add_def heap_simps)
  moreover have "is_list ?h p (new # xs)" using assms Nil by (auto simp: is_list_def heap_simps)
  moreover have "same_outside (set (new # p # xs)) h ?h" by (simp add: same_outside_def heap_simps)
  ultimately show ?thesis by blast
next
  case (Cons y ys)
  let ?h = "set_next p new (set_prev new p (set_next new y (set_prev y new h)))"
  have l: "l_next h p = Some y" "dseg h y ys p" "distinct (p # y # ys)" using assms Cons by (auto simp: is_list_def)
  then have "list_add new p h = Ret ?h" by (simp add: list_add_def heap_simps)
  moreover have "dseg ?h y ys p"
    by (rule dseg_frame [OF l(2)]) (use l assms(2) Cons in \<open>auto simp: heap_simps\<close>)
  then have "is_list ?h p (new # xs)" using l assms(2) Cons by (auto simp: is_list_def heap_simps)
  moreover have "same_outside (set (new # p # xs)) h ?h" using Cons by (simp add: same_outside_def heap_simps)
  ultimately show ?thesis by blast
qed

lemma list_del_first:
  assumes "is_list h a (e # zs)"
  shows "\<exists>h'. list_del e h = Ret h' \<and> is_list h' a zs \<and> same_outside (set (a # zs)) h h'"
proof (cases zs)
  case Nil
  let ?h = "set_next a a (set_prev a a h)"
  have "list_del e h = Ret ?h" using assms Nil by (simp add: is_list_def list_del_def heap_simps)
  moreover have "is_list ?h a zs" using Nil by (simp add: is_list_def heap_simps)
  moreover have "same_outside (set (a # zs)) h ?h" by (simp add: same_outside_def heap_simps)
  ultimately show ?thesis by blast
next
  case (Cons y ys)
  let ?h = "set_next a y (set_prev y a h)"
  have l: "l_prev h e = Some a" "l_next h e = Some y" "dseg h y ys a" "distinct (a # e # y # ys)" using assms Cons by (auto simp: is_list_def)
  then have "list_del e h = Ret ?h" by (simp add: list_del_def heap_simps)
  moreover have "dseg ?h y ys a"
    by (rule dseg_frame [OF l(3)]) (use l in \<open>auto simp: heap_simps\<close>)
  then have "is_list ?h a zs" using l Cons by (auto simp: is_list_def heap_simps)
  moreover have "same_outside (set (a # zs)) h ?h" using Cons by (simp add: same_outside_def heap_simps)
  ultimately show ?thesis by blast
qed

lemma list_del_correct:
  assumes "is_list h p (xs @ e # ys)"
  shows "\<exists>h'. list_del e h = Ret h' \<and> is_list h' p (xs @ ys) \<and> same_outside (set (p # xs @ ys)) h h'"
proof (cases xs rule: rev_cases)
  case Nil
  then show ?thesis using list_del_first [of h p e ys] assms by simp
next
  case (snoc us a)
  have "is_list h a (e # (ys @ p # us))"
    using assms snoc is_list_rotate [of h p us a "e # ys"] by simp
  from list_del_first [OF this] obtain h' where "list_del e h = Ret h'" "is_list h' a (ys @ p # us)"
      "same_outside (set (a # ys @ p # us)) h h'"
    by blast
  moreover have "set (a # ys @ p # us) = set (p # xs @ ys)" using snoc by auto
  ultimately show ?thesis using is_list_rotate [of h' p us a ys] snoc by auto
qed

text \<open>
  The list surgery of \<^verbatim>\<open>sshfs_flush\<close>: the head leaves its cycle and starts an empty one, and a new head takes its
  place.
\<close>

definition list_move :: "nat \<Rightarrow> nat \<Rightarrow> list_heap \<Rightarrow> list_heap cres" where
  "list_move head new h =
     cbind (link (l_prev h) head) (\<lambda>curr_list.
     cbind (list_del head h) (\<lambda>h1.
     list_add new curr_list (list_init head h1)))"

lemma list_move_correct:
  assumes "is_list h p xs" and "xs \<noteq> []" and "new \<notin> set (p # xs)"
  shows "\<exists>h'. list_move p new h = Ret h' \<and> is_list h' p [] \<and> is_list h' new xs \<and> same_outside (set (new # p # xs)) h h'"
proof -
  obtain ys l where xs: "xs = ys @ [l]" using assms(2) by (cases xs rule: rev_cases) auto
  have rot: "is_list h l (p # ys)" using assms(1) xs is_list_rotate [of h p ys l "[]"] by simp
  then have l: "l_prev h p = Some l" by (simp add: is_list_def)
  obtain h1 where h1: "list_del p h = Ret h1" "is_list h1 l ys" "same_outside (set (l # ys)) h h1"
    using list_del_first [OF rot] by blast
  have "p \<notin> set (l # ys)" using rot by (auto simp: is_list_def)
  then have "is_list (list_init p h1) l ys"
    by (intro is_list_frame [OF h1(2)] list_init_other) auto
  moreover have "new \<notin> set (l # ys)" using assms(3) xs by auto
  ultimately obtain h2 where h2: "list_add new l (list_init p h1) = Ret h2" "is_list h2 l (new # ys)"
      "same_outside (set (new # l # ys)) (list_init p h1) h2"
    using list_add_correct by blast
  have "is_list h2 p []"
    by (rule is_list_outside [OF h2(3) is_list_init]) (use assms xs in \<open>auto simp: is_list_def\<close>)
  moreover have "is_list h2 new xs" using h2(2) is_list_rotate [of h2 l "[]" new ys] xs by simp
  moreover have "same_outside (set (new # p # xs)) h h2"
    using h1(3) h2(3) xs by (auto simp: same_outside_def list_init_other)
  ultimately show ?thesis using l h1(1) h2(1) by (simp add: list_move_def link_def)
qed

section \<open>Pending writes\<close>

definition SSH_FXP_STATUS :: u8 where "SSH_FXP_STATUS = 101"
definition SSH_FX_OK :: u32 where "SSH_FX_OK = 0"

text \<open>The fields of a request that its end function reads.\<close>

record request =
  rq_error :: int
  rq_replied :: bool
  rq_reply_type :: u8
  rq_reply :: buffer

text \<open>An open file: the links, the address of its list of pending writes, and the error that the next flush reports.\<close>

record write_file =
  wf_heap :: list_heap
  write_reqs :: nat
  write_error :: int

definition sshfs_write_begin :: "nat \<Rightarrow> write_file \<Rightarrow> write_file cres" where
  "sshfs_write_begin entry sf = cmap (\<lambda>h. sf\<lparr>wf_heap := h\<rparr>) (list_add entry (write_reqs sf) (wf_heap sf))"

definition write_end_error :: "request \<Rightarrow> int \<Rightarrow> int cres" where
  "write_end_error req err =
     (if rq_error req \<noteq> 0 then Ret (rq_error req)
      else if rq_replied req \<and> rq_reply_type req = SSH_FXP_STATUS then
        cmap (\<lambda>(serr, _). if serr \<noteq> None \<and> serr \<noteq> Some SSH_FX_OK then - EIO else err) (buf_get_uint32 (rq_reply req))
      else Ret err)"

definition sshfs_write_end :: "request \<Rightarrow> nat \<Rightarrow> write_file \<Rightarrow> write_file cres" where
  "sshfs_write_end req entry sf =
     cbind (write_end_error req (write_error sf)) (\<lambda>err.
     cmap (\<lambda>h. sf\<lparr>wf_heap := h, write_error := err\<rparr>) (list_del entry (wf_heap sf)))"

text \<open>
  \<^verbatim>\<open>sshfs_flush\<close> in three parts: before the wait, the condition of the wait (\<open>head\<close> is its own list), and after it. The lock is
  released only while it waits.
\<close>

definition flush_begin :: "nat \<Rightarrow> write_file \<Rightarrow> (bool \<times> write_file) cres" where
  "flush_begin head sf =
     cbind (list_empty (write_reqs sf) (wf_heap sf)) (\<lambda>e.
     if e then Ret (False, sf)
     else cmap (\<lambda>h. (True, sf\<lparr>wf_heap := h\<rparr>)) (list_move (write_reqs sf) head (wf_heap sf)))"

definition flush_ready :: "nat \<Rightarrow> write_file \<Rightarrow> bool cres" where
  "flush_ready head sf = list_empty head (wf_heap sf)"

definition flush_end :: "write_file \<Rightarrow> int \<times> write_file" where
  "flush_end sf = (write_error sf, sf\<lparr>write_error := 0\<rparr>)"

text \<open>The steps of the threads that share an open file, by the address of the request's list element or of the flusher's list.\<close>

datatype write_op = Begin nat | End request nat | Flush nat | Poll nat | Finish nat

fun write_step :: "write_op \<Rightarrow> write_file \<Rightarrow> (int \<times> write_file) cres" where
  "write_step (Begin r) sf = cmap (\<lambda>sf1. (0, sf1)) (sshfs_write_begin r sf)"
| "write_step (End req r) sf = cmap (\<lambda>sf1. (0, sf1)) (sshfs_write_end req r sf)"
| "write_step (Flush w) sf = cmap (\<lambda>(moved, sf1). (of_bool moved, sf1)) (flush_begin w sf)"
| "write_step (Poll w) sf = cmap (\<lambda>ready. (of_bool ready, sf)) (flush_ready w sf)"
| "write_step (Finish w) sf = Ret (flush_end sf)"

section \<open>What a flush waits for\<close>

text \<open>
  The specification: the writes that no flush waits for, the flushes with the writes each still waits for, and the error. A flush takes
  over the writes begun so far; a write that ends leaves whichever list it is in.
\<close>

record writes =
  unflushed :: "nat list"
  flushes :: "(nat \<times> nat list) list"
  failed :: int

definition flush_status :: "writes \<Rightarrow> nat \<Rightarrow> nat list option" where
  "flush_status a w = map_of (flushes a) w"

definition ended_error :: "request \<Rightarrow> int \<Rightarrow> int" where
  "ended_error req err = (case write_end_error req err of Ret e \<Rightarrow> e | _ \<Rightarrow> err)"

fun write_spec :: "write_op \<Rightarrow> writes \<Rightarrow> int \<times> writes" where
  "write_spec (Begin r) a = (0, a\<lparr>unflushed := r # unflushed a\<rparr>)"
| "write_spec (End req r) a =
     (0, \<lparr>unflushed = remove1 r (unflushed a), flushes = map (\<lambda>(w, xs). (w, remove1 r xs)) (flushes a), failed = ended_error req (failed a)\<rparr>)"
| "write_spec (Flush w) a =
     (if unflushed a = [] then (0, a) else (1, a\<lparr>unflushed := [], flushes := (w, unflushed a) # flushes a\<rparr>))"
| "write_spec (Poll w) a = (of_bool (flush_status a w = Some []), a)"
| "write_spec (Finish w) a = (failed a, a\<lparr>failed := 0, flushes := filter (\<lambda>(v, _). v \<noteq> w) (flushes a)\<rparr>)"

text \<open>The addresses of some lists with their heads.\<close>

fun cells :: "(nat \<times> nat list) list \<Rightarrow> nat list" where
  "cells [] = []"
| "cells ((p, xs) # ls) = p # xs @ cells ls"

text \<open>What the threads keep to: new elements are at new addresses, a write ends once, a flush ends when it waits for nothing.\<close>

definition addresses :: "nat \<Rightarrow> writes \<Rightarrow> nat list" where
  "addresses p a = cells ((p, unflushed a) # flushes a)"

definition pending_writes :: "writes \<Rightarrow> nat list" where
  "pending_writes a = unflushed a @ concat (map snd (flushes a))"

fun write_ok :: "nat \<Rightarrow> write_op \<Rightarrow> writes \<Rightarrow> bool" where
  "write_ok p (Begin r) a \<longleftrightarrow> r \<notin> set (addresses p a)"
| "write_ok p (End req r) a \<longleftrightarrow> r \<in> set (pending_writes a) \<and> buf_wf (rq_reply req)"
| "write_ok p (Flush w) a \<longleftrightarrow> w \<notin> set (addresses p a)"
| "write_ok p (Poll w) a \<longleftrightarrow> flush_status a w \<noteq> None"
| "write_ok p (Finish w) a \<longleftrightarrow> flush_status a w \<in> {None, Some []}"


section \<open>The lists implement the specification\<close>

lemma cells_append [simp]: "cells (as @ bs) = cells as @ cells bs"
  by (induction as rule: cells.induct) auto

lemma cells_in: "(p, xs) \<in> set ls \<Longrightarrow> set (p # xs) \<subseteq> set (cells ls)"
  by (induction ls rule: cells.induct) auto

definition heap_lists :: "list_heap \<Rightarrow> (nat \<times> nat list) list \<Rightarrow> bool" where
  "heap_lists h ls \<longleftrightarrow> distinct (cells ls) \<and> (\<forall>(p, xs) \<in> set ls. is_list h p xs)"

lemma heap_lists_outside:
  assumes "\<forall>(p, xs) \<in> set ls. is_list h p xs" and "same_outside A h h'" and "set (cells ls) \<inter> A = {}"
  shows "\<forall>(p, xs) \<in> set ls. is_list h' p xs"
proof clarify
  fix p xs
  assume l: "(p, xs) \<in> set ls"
  have "set (p # xs) \<inter> A = {}" using assms(3) cells_in [OF l] by blast
  then show "is_list h' p xs" using is_list_outside [OF assms(2)] l assms(1) by blast
qed

lemma heap_lists_add:
  assumes "heap_lists h ((p, xs) # ls)" and "r \<notin> set (cells ((p, xs) # ls))"
  shows "\<exists>h'. list_add r p h = Ret h' \<and> heap_lists h' ((p, r # xs) # ls)"
proof -
  have "is_list h p xs" "r \<notin> set (p # xs)" using assms by (auto simp: heap_lists_def)
  then obtain h' where h': "list_add r p h = Ret h'" "is_list h' p (r # xs)" "same_outside (set (r # p # xs)) h h'"
    using list_add_correct by blast
  have "\<forall>(p, xs) \<in> set ls. is_list h' p xs"
    using assms by (intro heap_lists_outside [OF _ h'(3)]) (auto simp: heap_lists_def)
  with h' assms show ?thesis by (auto simp: heap_lists_def)
qed

lemma heap_lists_move:
  assumes "heap_lists h ((p, xs) # ls)" and "xs \<noteq> []" and "w \<notin> set (cells ((p, xs) # ls))"
  shows "\<exists>h'. list_move p w h = Ret h' \<and> heap_lists h' ((p, []) # (w, xs) # ls)"
proof -
  have "is_list h p xs" "w \<notin> set (p # xs)" using assms by (auto simp: heap_lists_def)
  then obtain h' where h': "list_move p w h = Ret h'" "is_list h' p []" "is_list h' w xs" "same_outside (set (w # p # xs)) h h'"
    using list_move_correct [OF _ assms(2)] by blast
  have "\<forall>(p, xs) \<in> set ls. is_list h' p xs"
    using assms by (intro heap_lists_outside [OF _ h'(4)]) (auto simp: heap_lists_def)
  with h' assms show ?thesis by (auto simp: heap_lists_def)
qed

lemma remove1_lists: "r \<notin> set (cells ls) \<Longrightarrow> map (\<lambda>(p, xs). (p, remove1 r xs)) ls = ls"
  by (induction ls rule: cells.induct) (auto simp: remove1_idem)

lemma heap_lists_del:
  assumes "heap_lists h ls" and "r \<in> set (concat (map snd ls))"
  shows "\<exists>h'. list_del r h = Ret h' \<and> heap_lists h' (map (\<lambda>(p, xs). (p, remove1 r xs)) ls)"
proof -
  obtain p zs where "(p, zs) \<in> set ls" "r \<in> set zs" using assms(2) by auto
  then obtain as bs xs ys where ls: "ls = as @ (p, xs @ r # ys) # bs"
    by (metis split_list)
  have d: "distinct (cells ls)" and l: "\<forall>(p, xs) \<in> set ls. is_list h p xs"
    using assms(1) by (auto simp: heap_lists_def)
  have "is_list h p (xs @ r # ys)" using l ls by auto
  then obtain h' where h': "list_del r h = Ret h'" "is_list h' p (xs @ ys)" "same_outside (set (p # xs @ ys)) h h'"
    using list_del_correct by blast
  have "\<forall>(p, xs) \<in> set (as @ bs). is_list h' p xs"
    using d l ls by (intro heap_lists_outside [OF _ h'(3)]) auto
  moreover have "map (\<lambda>(p, xs). (p, remove1 r xs)) ls = as @ (p, xs @ ys) # bs"
  proof -
    have "r \<notin> set (cells as)" "r \<notin> set (cells bs)" "r \<notin> set xs"
      using d ls by auto
    then show ?thesis using ls by (simp add: remove1_lists remove1_append)
  qed
  moreover have "distinct (cells (as @ (p, xs @ ys) # bs))"
    using d ls by auto
  ultimately show ?thesis using h' by (auto simp: heap_lists_def)
qed

definition write_rel :: "nat \<Rightarrow> writes \<Rightarrow> write_file \<Rightarrow> bool" where
  "write_rel p a sf \<longleftrightarrow> write_reqs sf = p \<and> write_error sf = failed a \<and> heap_lists (wf_heap sf) ((p, unflushed a) # flushes a)"


lemma write_end_error_returns:
  assumes "buf_wf (rq_reply req)"
  shows "write_end_error req err = Ret (ended_error req err)"
proof -
  obtain v buf' where "buf_get_uint32 (rq_reply req) = Ret (v, buf')"
    using getsD [OF gets_uint32 assms] by metis
  then show ?thesis by (simp add: ended_error_def write_end_error_def)
qed

lemma flush_list_ready:
  assumes "write_rel p a sf" and "flush_status a w = Some ys"
  shows "flush_ready w sf = Ret (ys = [])"
proof -
  have "(w, ys) \<in> set (flushes a)" using assms(2) by (auto simp: flush_status_def dest: map_of_SomeD)
  then have "is_list (wf_heap sf) w ys" using assms(1) by (auto simp: write_rel_def heap_lists_def)
  then show ?thesis by (simp add: flush_ready_def list_empty_correct)
qed

lemma heap_lists_filter: "heap_lists h (x # ls) \<Longrightarrow> heap_lists h (x # filter P ls)"
proof (induction ls)
  case (Cons l ls)
  have sub: "set (cells (filter P ls)) \<subseteq> set (cells ls)" for ls
    by (induction ls rule: cells.induct) auto
  show ?case using Cons sub [of ls] by (cases x; cases l) (auto simp: heap_lists_def)
qed simp

lemma write_sim:
  assumes rel: "write_rel p a sf" and ok: "write_ok p x a"
  shows "\<exists>sf'. write_step x sf = Ret (fst (write_spec x a), sf') \<and> write_rel p (snd (write_spec x a)) sf'"
proof -
  have r: "write_reqs sf = p" "write_error sf = failed a" and l: "heap_lists (wf_heap sf) ((p, unflushed a) # flushes a)"
    using rel by (auto simp: write_rel_def)
  show ?thesis
  proof (cases x)
    case (Begin r)
    with ok heap_lists_add [OF l, of r] obtain h' where "list_add r p (wf_heap sf) = Ret h'" "heap_lists h' ((p, r # unflushed a) # flushes a)"
      by (auto simp: addresses_def)
    then show ?thesis using Begin r by (simp add: sshfs_write_begin_def write_rel_def)
  next
    case (End req q)
    with ok heap_lists_del [OF l, of q] obtain h' where "list_del q (wf_heap sf) = Ret h'"
        "heap_lists h' (map (\<lambda>(p, xs). (p, remove1 q xs)) ((p, unflushed a) # flushes a))"
      by (auto simp: pending_writes_def)
    then show ?thesis using End r ok by (simp add: sshfs_write_end_def write_end_error_returns write_rel_def)
  next
    case (Flush w)
    have e: "list_empty p (wf_heap sf) = Ret (unflushed a = [])"
      using l by (intro list_empty_correct) (simp add: heap_lists_def)
    show ?thesis
    proof (cases "unflushed a = []")
      case True
      then show ?thesis using Flush e rel r by (simp add: flush_begin_def)
    next
      case False
      with Flush ok heap_lists_move [OF l, of w] obtain h' where "list_move p w (wf_heap sf) = Ret h'"
          "heap_lists h' ((p, []) # (w, unflushed a) # flushes a)"
        by (auto simp: addresses_def)
      then show ?thesis using Flush False e r by (simp add: flush_begin_def write_rel_def)
    qed
  next
    case (Poll w)
    then obtain ys where "flush_status a w = Some ys" using ok by auto
    then show ?thesis using Poll rel flush_list_ready [OF rel] by simp
  next
    case (Finish w)
    then show ?thesis using r heap_lists_filter [OF l] by (simp add: flush_end_def write_rel_def)
  qed
qed

interpretation wrs: simulation "write_rel p" "write_ok p" write_step write_spec
  by unfold_locales (rule write_sim)

section \<open>Properties\<close>

definition new_file :: "nat \<Rightarrow> write_file" where
  "new_file p = \<lparr>wf_heap = list_init p \<lparr>l_prev = Map.empty, l_next = Map.empty\<rparr>, write_reqs = p, write_error = 0\<rparr>"

definition no_writes :: writes where
  "no_writes = \<lparr>unflushed = [], flushes = [], failed = 0\<rparr>"

lemma new_file_rel: "write_rel p no_writes (new_file p)"
  by (simp add: write_rel_def new_file_def no_writes_def heap_lists_def is_list_init)


definition answered :: "u32 \<Rightarrow> request" where
  "answered status = \<lparr>rq_error = 0, rq_replied = True, rq_reply_type = SSH_FXP_STATUS, rq_reply = \<lparr>bp = htonl status, blen = 0, bsize = 4\<rparr>\<rparr>"


end
