(* ===== verification/Sshfs_Requests.thy ===== *)
theory Sshfs_Requests
  imports Sshfs_Lists
begin

text \<open>
  Sending and receiving SFTP messages over a connection that takes and gives as many bytes as it likes at a time
  (\<^verbatim>\<open>do_write\<close>, \<^verbatim>\<open>do_read\<close>, \<^verbatim>\<open>sftp_send_iov\<close>, \<^verbatim>\<open>sftp_read\<close>), the result of a request
  (\<^verbatim>\<open>sftp_error_to_errno\<close>, \<^verbatim>\<open>sftp_request_wait\<close>, \<^verbatim>\<open>sftp_request\<close>) and the choice of a connection
  (\<^verbatim>\<open>get_conn\<close>), of \<^verbatim>\<open>usfs_wrap/sshfs/sshfs_wrap.c\<close>. The system calls are parameters, and so is here
  the exchange of a request for its reply; \<^verbatim>\<open>Sshfs_Session\<close> has the requests that are under way.
\<close>

section \<open>The connection\<close>

record 'w conn_io =
  io_writev :: "bytes list \<Rightarrow> 'w \<Rightarrow> int \<times> 'w"
  io_read :: "nat \<Rightarrow> 'w \<Rightarrow> (int \<times> bytes) \<times> 'w"

text \<open>The inner loop of \<^verbatim>\<open>do_write\<close>: what is left of the vector after \<open>n\<close> bytes.\<close>

fun iov_advance :: "nat \<Rightarrow> bytes list \<Rightarrow> bytes list" where
  "iov_advance n [] = []"
| "iov_advance n (b # bs) = (if n < length b then drop n b # bs else iov_advance (n - length b) bs)"

definition iov_measure :: "bytes list \<Rightarrow> nat" where
  "iov_measure iov = length (concat iov) + length iov"

lemma iov_advance_measure: "0 < n \<Longrightarrow> iov \<noteq> [] \<Longrightarrow> iov_measure (iov_advance n iov) < iov_measure iov"
proof (induction iov arbitrary: n)
  case (Cons b bs)
  have le: "iov_measure (iov_advance m bs) \<le> iov_measure bs" for m
    by (induction m bs rule: iov_advance.induct) (auto simp: iov_measure_def)
  show ?case using le [of "n - length b"] Cons.prems by (auto simp: iov_measure_def)
qed simp

function do_write :: "'w conn_io \<Rightarrow> bytes list \<Rightarrow> 'w \<Rightarrow> int \<times> 'w" where
  "do_write io iov x =
     (if iov = [] then (0, x)
      else case io_writev io iov x of (res, x1) \<Rightarrow>
        if res \<le> 0 then (- 1, x1)
        else do_write io (iov_advance (nat res) iov) x1)"
  by pat_completeness auto
termination by (relation "measure (\<lambda>(_, iov, _). iov_measure iov)") (auto simp: iov_advance_measure)

declare do_write.simps [simp del]

text \<open>\<open>p\<close> is the position in the buffer and \<open>n\<close> the number of bytes still to read.\<close>

function do_read_loop :: "'w conn_io \<Rightarrow> bytes \<Rightarrow> nat \<Rightarrow> nat \<Rightarrow> 'w \<Rightarrow> (int \<times> bytes \<times> 'w) cres" where
  "do_read_loop io mem p n x =
     (if n = 0 then Ret (0, mem, x)
      else case io_read io n x of ((res, b), x1) \<Rightarrow>
        if res \<le> 0 then Ret (- 1, mem, x1)
        else cbind (copy_with_offset mem (take (nat res) b) p) (\<lambda>(mem1, _).
          do_read_loop io mem1 (p + nat res) (n - nat res) x1))"
  by pat_completeness auto
termination by (relation "measure (\<lambda>(_, _, _, n, _). n)") auto

declare do_read_loop.simps [simp del]

definition do_read :: "'w conn_io \<Rightarrow> buffer \<Rightarrow> 'w \<Rightarrow> (int \<times> buffer \<times> 'w) cres" where
  "do_read io buf x = cmap (\<lambda>(res, mem, x1). (res, buf\<lparr>bp := mem\<rparr>, x1)) (do_read_loop io (bp buf) 0 (bsize buf) x)"

text \<open>\<^verbatim>\<open>buf_to_iov\<close> and \<^verbatim>\<open>iov_length\<close>.\<close>

definition buf_to_iov :: "buffer \<Rightarrow> bytes" where
  "buf_to_iov buf = take (blen buf) (bp buf)"

definition iov_length :: "bytes list \<Rightarrow> nat" where
  "iov_length iov = sum_list (map length iov)"

definition SFTP_MAX_IOV :: nat where "SFTP_MAX_IOV = 3"

definition sftp_send_iov :: "'w conn_io \<Rightarrow> u8 \<Rightarrow> u32 \<Rightarrow> bytes list \<Rightarrow> 'w \<Rightarrow> (int \<times> 'w) cres" where
  "sftp_send_iov io typ ident iov x =
     (if length iov > SFTP_MAX_IOV - 1 then Undef Assertion_Failed
      else
        cbind (buf_add_uint32 (buf_init 9) (of_nat (iov_length iov + 5))) (\<lambda>buf1.
        cbind (buf_add_uint8 buf1 typ) (\<lambda>buf2.
        cmap (\<lambda>buf3. do_write io (buf_to_iov buf3 # iov) x) (buf_add_uint32 buf2 ident))))"

definition MAX_REPLY_LEN :: u32 where "MAX_REPLY_LEN = 131072"

text \<open>The result with the type and the rest of the message, where they were set. The 32-bit \<open>len - 1\<close> wraps for an empty message.\<close>

definition sftp_read :: "'w conn_io \<Rightarrow> 'w \<Rightarrow> ((int \<times> (u8 \<times> buffer) option) \<times> 'w) cres" where
  "sftp_read io x =
     cbind (do_read io (buf_init 5) x) (\<lambda>(res, buf2, x1).
     if res = - 1 then Ret ((- 1, None), x1)
     else
       cbind (buf_get_uint32 buf2) (\<lambda>(len, buf3).
       case len of
         None \<Rightarrow> Ret ((- 1, None), x1)
       | Some len \<Rightarrow>
           if len > MAX_REPLY_LEN then Ret ((- 1, None), x1)
           else
             cbind (buf_get_uint8 buf3) (\<lambda>(typ, buf4).
             case typ of
               None \<Rightarrow> Ret ((- 1, None), x1)
             | Some typ \<Rightarrow>
                 cmap (\<lambda>(res, buf, x2). ((res, Some (typ, buf)), x2)) (do_read io (buf_init (unat (len - 1))) x1))))"

section \<open>Requests\<close>

definition SSH_FXP_OPEN :: u8 where "SSH_FXP_OPEN = 3"
definition SSH_FXP_CLOSE :: u8 where "SSH_FXP_CLOSE = 4"
definition SSH_FXP_READ :: u8 where "SSH_FXP_READ = 5"
definition SSH_FXP_LSTAT :: u8 where "SSH_FXP_LSTAT = 7"
definition SSH_FXP_FSTAT :: u8 where "SSH_FXP_FSTAT = 8"
definition SSH_FXP_SETSTAT :: u8 where "SSH_FXP_SETSTAT = 9"
definition SSH_FXP_FSETSTAT :: u8 where "SSH_FXP_FSETSTAT = 10"
definition SSH_FXP_READDIR :: u8 where "SSH_FXP_READDIR = 12"
definition SSH_FXP_REMOVE :: u8 where "SSH_FXP_REMOVE = 13"
definition SSH_FXP_MKDIR :: u8 where "SSH_FXP_MKDIR = 14"
definition SSH_FXP_RMDIR :: u8 where "SSH_FXP_RMDIR = 15"
definition SSH_FXP_STAT :: u8 where "SSH_FXP_STAT = 17"
definition SSH_FXP_RENAME :: u8 where "SSH_FXP_RENAME = 18"
definition SSH_FXP_READLINK :: u8 where "SSH_FXP_READLINK = 19"
definition SSH_FXP_SYMLINK :: u8 where "SSH_FXP_SYMLINK = 20"
definition SSH_FXP_HANDLE :: u8 where "SSH_FXP_HANDLE = 102"
definition SSH_FXP_DATA :: u8 where "SSH_FXP_DATA = 103"
definition SSH_FXP_NAME :: u8 where "SSH_FXP_NAME = 104"
definition SSH_FXP_ATTRS :: u8 where "SSH_FXP_ATTRS = 105"
definition SSH_FXP_EXTENDED :: u8 where "SSH_FXP_EXTENDED = 200"
definition SSH_FXP_EXTENDED_REPLY :: u8 where "SSH_FXP_EXTENDED_REPLY = 201"

definition SSH_FX_EOF :: u32 where "SSH_FX_EOF = 1"
definition SSH_FX_NO_SUCH_FILE :: u32 where "SSH_FX_NO_SUCH_FILE = 2"
definition SSH_FX_PERMISSION_DENIED :: u32 where "SSH_FX_PERMISSION_DENIED = 3"
definition SSH_FX_FAILURE :: u32 where "SSH_FX_FAILURE = 4"
definition SSH_FX_BAD_MESSAGE :: u32 where "SSH_FX_BAD_MESSAGE = 5"
definition SSH_FX_NO_CONNECTION :: u32 where "SSH_FX_NO_CONNECTION = 6"
definition SSH_FX_CONNECTION_LOST :: u32 where "SSH_FX_CONNECTION_LOST = 7"
definition SSH_FX_OP_UNSUPPORTED :: u32 where "SSH_FX_OP_UNSUPPORTED = 8"
definition MY_EOF :: int where "MY_EOF = 1"

definition sftp_error_to_errno :: "u32 \<Rightarrow> int" where
  "sftp_error_to_errno err =
     (if err = SSH_FX_OK then 0
      else if err = SSH_FX_NO_SUCH_FILE then ENOENT
      else if err = SSH_FX_PERMISSION_DENIED then EACCES
      else if err = SSH_FX_FAILURE then EPERM
      else if err = SSH_FX_BAD_MESSAGE then EBADMSG
      else if err = SSH_FX_NO_CONNECTION then ENOTCONN
      else if err = SSH_FX_CONNECTION_LOST then ECONNABORTED
      else if err = SSH_FX_OP_UNSUPPORTED then EOPNOTSUPP
      else EIO)"

definition status_result :: "u8 \<Rightarrow> u8 \<Rightarrow> u32 \<Rightarrow> int" where
  "status_result typ expect_type serr =
     (if serr = SSH_FX_OK then if expect_type = SSH_FXP_STATUS then 0 else - EIO
      else if serr = SSH_FX_EOF then if typ = SSH_FXP_READ \<or> typ = SSH_FXP_READDIR then MY_EOF else - EIO
      else if serr = SSH_FX_FAILURE then if typ = SSH_FXP_RMDIR then - ENOTEMPTY else - EPERM
      else - sftp_error_to_errno serr)"

text \<open>
  \<^verbatim>\<open>sftp_request_wait\<close> with the error of the request when it is called and the request when the semaphore is posted. The buffer is
  the output buffer, where it is set.
\<close>

definition sftp_request_wait :: "int \<Rightarrow> request \<Rightarrow> u8 \<Rightarrow> u8 \<Rightarrow> (int \<times> buffer option) cres" where
  "sftp_request_wait err0 req typ expect_type =
     (if err0 \<noteq> 0 then Ret (err0, None)
      else if rq_error req \<noteq> 0 then Ret (rq_error req, None)
      else if rq_reply_type req \<noteq> expect_type \<and> rq_reply_type req \<noteq> SSH_FXP_STATUS then Ret (- EIO, None)
      else if rq_reply_type req = SSH_FXP_STATUS then
        cmap (\<lambda>(serr, _). (case serr of None \<Rightarrow> - EIO | Some serr \<Rightarrow> status_result typ expect_type serr, None))
          (buf_get_uint32 (rq_reply req))
      else
        let outbuf = buf_init (bsize (rq_reply req) - blen (rq_reply req)) in
        cmap (\<lambda>(mem, _). (0, Some (case mem of None \<Rightarrow> outbuf | Some mem \<Rightarrow> outbuf\<lparr>bp := mem\<rparr>)))
          (buf_get_mem (rq_reply req) (bsize outbuf)))"

text \<open>
  Sending a request and getting its reply: the result of \<^verbatim>\<open>sftp_request_send\<close>, which is also the error of the request when it is
  not zero, and the request with its reply.
\<close>

type_synonym 's exchange = "u8 \<Rightarrow> bytes list \<Rightarrow> 's \<Rightarrow> (int \<times> request) \<times> 's"

definition sftp_request_iov :: "'s exchange \<Rightarrow> u8 \<Rightarrow> bytes list \<Rightarrow> u8 \<Rightarrow> 's \<Rightarrow> ((int \<times> buffer option) \<times> 's) cres" where
  "sftp_request_iov ex typ iov expect_type s =
     (case ex typ iov s of ((err, req), s1) \<Rightarrow>
      if expect_type = 0 then Ret ((err, None), s1)
      else cmap (\<lambda>r. (r, s1)) (sftp_request_wait err req typ expect_type))"

definition sftp_request :: "'s exchange \<Rightarrow> u8 \<Rightarrow> buffer \<Rightarrow> u8 \<Rightarrow> 's \<Rightarrow> ((int \<times> buffer option) \<times> 's) cres" where
  "sftp_request ex typ buf expect_type s = sftp_request_iov ex typ [buf_to_iov buf] expect_type s"

section \<open>Choosing a connection\<close>

record sftp_conn =
  req_count :: int
  dir_count :: int
  file_count :: int
  rfd :: int

text \<open>The score of a connection: the counts are cast to 64 bits before they are shifted.\<close>

definition conn_score :: "sftp_conn \<Rightarrow> u64" where
  "conn_score c =
     push_bit 43 (of_int (req_count c)) + push_bit 22 (of_int (dir_count c)) + push_bit 1 (of_int (file_count c)) +
     (if rfd c \<ge> 0 then 0 else 1)"

fun best_conn :: "sftp_conn list \<Rightarrow> nat \<Rightarrow> nat \<Rightarrow> u64 \<Rightarrow> nat" where
  "best_conn [] i best_index best_score = best_index"
| "best_conn (c # cs) i best_index best_score =
     (if conn_score c < best_score then best_conn cs (Suc i) i (conn_score c) else best_conn cs (Suc i) best_index best_score)"

text \<open>\<open>sf_conn\<close> is the connection of an open file, and \<open>tab\<close> the table of connections by path.\<close>

definition get_conn :: "sftp_conn list \<Rightarrow> (string \<rightharpoonup> nat) \<Rightarrow> nat option \<Rightarrow> string option \<Rightarrow> nat" where
  "get_conn conns tab sf_conn path =
     (if length conns = 1 then 0
      else case sf_conn of
        Some c \<Rightarrow> c
      | None \<Rightarrow>
          (case Option.bind path tab of
             Some c \<Rightarrow> c
           | None \<Rightarrow> best_conn conns 0 0 (- 1)))"

section \<open>Framing\<close>

text \<open>
  The laws of a stream: \<^verbatim>\<open>writev\<close> takes some of the bytes offered, at least one, and \<^verbatim>\<open>read\<close> gives some of the bytes asked for, at
  least one while any are there.
\<close>

definition writes_some :: "'w conn_io \<Rightarrow> ('w \<Rightarrow> bytes) \<Rightarrow> bool" where
  "writes_some io out \<longleftrightarrow> (\<forall>iov x. concat iov \<noteq> [] \<longrightarrow>
     (\<exists>n x'. io_writev io iov x = (int n, x') \<and> 0 < n \<and> n \<le> length (concat iov) \<and> out x' = out x @ take n (concat iov)))"

definition reads_some :: "'w conn_io \<Rightarrow> ('w \<Rightarrow> bytes) \<Rightarrow> bool" where
  "reads_some io pend \<longleftrightarrow> (\<forall>n x. 0 < n \<and> pend x \<noteq> [] \<longrightarrow>
     (\<exists>k x'. io_read io n x = ((int k, take k (pend x)), x') \<and> 0 < k \<and> k \<le> n \<and> k \<le> length (pend x) \<and> pend x' = drop k (pend x)))"

lemma concat_iov_advance: "concat (iov_advance n iov) = drop n (concat iov)"
  by (induction n iov rule: iov_advance.induct) auto

lemma iov_advance_left: "iov_advance n iov \<noteq> [] \<Longrightarrow> concat (iov_advance n iov) \<noteq> []"
  by (induction n iov rule: iov_advance.induct) (auto split: if_splits)

lemma do_write_all:
  assumes io: "writes_some io out"
  shows "(iov \<noteq> [] \<longrightarrow> concat iov \<noteq> []) \<Longrightarrow> \<exists>x'. do_write io iov x = (0, x') \<and> out x' = out x @ concat iov"
proof (induction "iov_measure iov" arbitrary: iov x rule: less_induct)
  case less
  show ?case
  proof (cases "iov = []")
    case True
    then show ?thesis by (simp add: do_write.simps)
  next
    case False
    then obtain n x1 where n: "io_writev io iov x = (int n, x1)" "0 < n" "out x1 = out x @ take n (concat iov)"
      using io less.prems unfolding writes_some_def by meson
    obtain x' where "do_write io (iov_advance n iov) x1 = (0, x')" "out x' = out x1 @ concat (iov_advance n iov)"
      using less.hyps [OF iov_advance_measure [OF n(2) False], of x1] iov_advance_left [of n iov] by blast
    with n False show ?thesis
      by (subst do_write.simps) (simp add: concat_iov_advance)
  qed
qed

lemma do_read_loop_all:
  assumes io: "reads_some io pend"
  shows "pend x = b @ rest \<Longrightarrow> mem = pre @ old \<Longrightarrow> length b \<le> length old \<Longrightarrow>
    \<exists>x'. do_read_loop io mem (length pre) (length b) x = Ret (0, pre @ b @ drop (length b) old, x') \<and> pend x' = rest"
proof (induction "length b" arbitrary: b pre old mem x rule: less_induct)
  case less
  show ?case
  proof (cases "b = []")
    case True
    then show ?thesis using less.prems by (simp add: do_read_loop.simps)
  next
    case False
    then obtain k x1 where k: "io_read io (length b) x = ((int k, take k (pend x)), x1)" "0 < k" "k \<le> length b" "pend x1 = drop k (pend x)"
      using io less.prems unfolding reads_some_def by (metis append_is_Nil_conv length_greater_0_conv)
    have t: "take k (pend x) = take k b" "pend x1 = drop k b @ rest" using k(3,4) less.prems(1) by simp_all
    have c: "copy_with_offset mem (take k b) (length pre) = Ret ((pre @ take k b) @ drop k old, length pre + k)"
      using less.prems(2,3) k(3) by (simp add: copy_with_offset_def)
    have step: "do_read_loop io mem (length pre) (length b) x =
        do_read_loop io ((pre @ take k b) @ drop k old) (length (pre @ take k b)) (length (drop k b)) x1"
      using False k(1-3) t(1) c by (subst do_read_loop.simps) (simp add: min_absorb2)
    have "length (drop k b) < length b" using False k(2) by simp
    from less.hyps [OF this t(2) refl, of "drop k old" "pre @ take k b"] less.prems(3) obtain x' where
        "do_read_loop io ((pre @ take k b) @ drop k old) (length (pre @ take k b)) (length (drop k b)) x1 =
          Ret (0, (pre @ take k b) @ drop k b @ drop (length (drop k b)) (drop k old), x')" "pend x' = rest"
      by (metis diff_le_mono length_drop)
    with step k(3) show ?thesis by simp
  qed
qed

lemma do_read_all:
  assumes "reads_some io pend" and "pend x = b @ rest"
  shows "\<exists>x'. do_read io (buf_init (length b)) x = Ret (0, reader b 0, x') \<and> pend x' = rest"
  using do_read_loop_all [OF assms, of "replicate (length b) 0" "[]" "replicate (length b) 0"]
  by (auto simp: do_read_def buf_init_def reader_def)

definition message :: "u8 \<Rightarrow> bytes \<Rightarrow> bytes" where
  "message typ payload = htonl (of_nat (length payload + 1)) @ typ # payload"

lemma sftp_send_iov_message:
  assumes "writes_some io out" and "length iov \<le> 2"
  shows "\<exists>x'. sftp_send_iov io typ ident iov x = Ret (0, x') \<and> out x' = out x @ message typ (htonl ident @ concat iov)"
proof -
  let ?fs = "[F32 (of_nat (iov_length iov + 5)), F8 typ, F32 ident]"
  have "holds (buf_init 9) []" by (simp add: holds_def buf_init_def)
  then obtain buf where buf: "add_fields ?fs (buf_init 9) = Ret buf" "holds buf ([] @ concat (map field_bytes ?fs))"
    using appends_fields [of ?fs] unfolding appends_def by blast
  have len: "iov_length iov + 5 = length (htonl ident @ concat iov) + 1" by (simp add: iov_length_def length_concat)
  have bytes: "concat (buf_to_iov buf # iov) = message typ (htonl ident @ concat iov)"
    using buf(2) unfolding len holds_def buf_to_iov_def by (elim conjE) (simp add: message_def)
  have "concat (buf_to_iov buf # iov) \<noteq> []" unfolding bytes message_def by simp
  then obtain x' where "do_write io (buf_to_iov buf # iov) x = (0, x')" "out x' = out x @ message typ (htonl ident @ concat iov)"
    using do_write_all [OF assms(1), of "buf_to_iov buf # iov" x] bytes by auto
  moreover have "sftp_send_iov io typ ident iov x = Ret (do_write io (buf_to_iov buf # iov) x)"
    using buf(1) assms(2) by (auto simp: sftp_send_iov_def SFTP_MAX_IOV_def cbind_Ret_iff cmap_Ret_iff)
  ultimately show ?thesis by simp
qed

lemma sftp_read_message:
  assumes io: "reads_some io pend" and len: "length payload + 1 \<le> 131072" and p: "pend x = message typ payload @ rest"
  shows "\<exists>x'. sftp_read io x = Ret ((0, Some (typ, reader payload 0)), x') \<and> pend x' = rest"
proof -
  let ?len = "of_nat (length payload + 1) :: u32"
  let ?h = "htonl ?len @ [typ]"
  have small: "unat (of_nat k :: u32) = k" if "k \<le> 131072" for k using that by (simp add: unat_of_nat take_bit_nat_eq_self)
  have l1: "?len - 1 = of_nat (length payload)" by simp
  have u: "unat ?len = length payload + 1" "unat (?len - 1) = length payload" unfolding l1 using len by (simp_all only: small)
  have m: "\<not> ?len > MAX_REPLY_LEN" using len u(1) by (simp add: word_less_nat_alt MAX_REPLY_LEN_def)
  have "pend x = ?h @ (payload @ rest)" using p by (simp add: message_def)
  from do_read_all [OF io this] obtain x1 where x1: "do_read io (buf_init 5) x = Ret (0, reader ?h 0, x1)" "pend x1 = payload @ rest"
    by auto
  have g: "buf_get_uint32 (reader ?h 0) = Ret (Some ?len, reader ?h 4)" "buf_get_uint8 (reader ?h 4) = Ret (Some typ, reader ?h 5)"
    using reads_uint32 [of ?len, unfolded reads_def, rule_format, of "[]" "[typ]"] reads_uint8 [of "typ", unfolded reads_def, rule_format, of "htonl ?len" "[]"]
    by simp_all
  obtain x2 where "do_read io (buf_init (length payload)) x1 = Ret (0, reader payload 0, x2)" "pend x2 = rest"
    using do_read_all [OF io x1(2)] by blast
  then show ?thesis
    using x1(1) g m u(2) by (simp add: sftp_read_def del: of_nat_add of_nat_Suc)
qed


section \<open>Results\<close>

lemmas status_codes = SSH_FX_OK_def SSH_FX_EOF_def SSH_FX_NO_SUCH_FILE_def SSH_FX_PERMISSION_DENIED_def SSH_FX_FAILURE_def
  SSH_FX_BAD_MESSAGE_def SSH_FX_NO_CONNECTION_def SSH_FX_CONNECTION_LOST_def SSH_FX_OP_UNSUPPORTED_def

lemma sftp_error_to_errno_pos: "err \<noteq> SSH_FX_OK \<Longrightarrow> 0 < sftp_error_to_errno err"
  by (simp add: sftp_error_to_errno_def errno_defs)

lemma status_result_cases:
  "status_result typ expect_type serr < 0 \<or>
   (status_result typ expect_type serr = MY_EOF \<and> serr = SSH_FX_EOF \<and> (typ = SSH_FXP_READ \<or> typ = SSH_FXP_READDIR)) \<or>
   (status_result typ expect_type serr = 0 \<and> serr = SSH_FX_OK \<and> expect_type = SSH_FXP_STATUS)"
  using sftp_error_to_errno_pos [of serr] by (simp add: status_result_def) (simp add: errno_defs)

lemma wf_get_mem_all:
  assumes "buf_wf buf"
  shows "buf_get_mem buf (bsize buf - blen buf) = Ret (Some (take (bsize buf - blen buf) (drop (blen buf) (bp buf))), buf\<lparr>blen := bsize buf\<rparr>)"
  using assms by (simp add: buf_get_mem_def buf_check_get_def buf_wf_def)

lemma best_conn_least:
  "best < length pre \<Longrightarrow> (\<forall>i < length pre. conn_score (pre ! best) \<le> conn_score (pre ! i)) \<Longrightarrow>
    best_conn cs (length pre) best (conn_score (pre ! best)) < length (pre @ cs) \<and>
    (\<forall>i < length (pre @ cs). conn_score ((pre @ cs) ! best_conn cs (length pre) best (conn_score (pre ! best))) \<le> conn_score ((pre @ cs) ! i))"
proof (induction cs arbitrary: pre best)
  case (Cons c cs)
  show ?case
  proof (cases "conn_score c < conn_score (pre ! best)")
    case True
    then have "\<forall>i < length (pre @ [c]). conn_score ((pre @ [c]) ! length pre) \<le> conn_score ((pre @ [c]) ! i)"
      using Cons.prems(2) by (auto simp: nth_append less_Suc_eq)
    from Cons.IH [OF _ this] True show ?thesis by simp
  next
    case False
    have "\<forall>i < length (pre @ [c]). conn_score ((pre @ [c]) ! best) \<le> conn_score ((pre @ [c]) ! i)"
      using Cons.prems False by (auto simp: nth_append less_Suc_eq)
    from Cons.IH [OF _ this] Cons.prems(1) False show ?thesis by (simp add: nth_append)
  qed
qed simp

section \<open>Properties\<close>

text \<open>
  C16. A message of at most 128 KiB survives the connection however it is cut into pieces: when \<^verbatim>\<open>writev\<close> takes any part of what it
  is offered and \<^verbatim>\<open>read\<close> gives any part of what it is asked for, sending a request writes exactly its length, type, number and
  data, and reading the message on the other side gives the type and the rest, all of it and nothing more.
\<close>

theorem sftp_framing_roundtrip:
  assumes "writes_some io out" and "reads_some io' pend" and "length iov \<le> 2" and "length (concat iov) + 5 \<le> 131072"
  shows "\<exists>x'. sftp_send_iov io typ ident iov x = Ret (0, x') \<and>
    (\<forall>y rest. pend y = drop (length (out x)) (out x') @ rest \<longrightarrow>
      (\<exists>y'. sftp_read io' y = Ret ((0, Some (typ, \<lparr>bp = htonl ident @ concat iov, blen = 0, bsize = 4 + length (concat iov)\<rparr>)), y') \<and>
        pend y' = rest))"
proof -
  let ?p = "htonl ident @ concat iov"
  obtain x' where x': "sftp_send_iov io typ ident iov x = Ret (0, x')" "out x' = out x @ message typ ?p"
    using sftp_send_iov_message [OF assms(1,3)] by blast
  have len: "length ?p + 1 \<le> 131072" using assms(4) by simp
  have "\<exists>y'. sftp_read io' y = Ret ((0, Some (typ, reader ?p 0)), y') \<and> pend y' = rest" if "pend y = message typ ?p @ rest" for y rest
    using sftp_read_message [OF assms(2) len that] .
  then show ?thesis using x' by (simp add: reader_def)
qed

text \<open>A connection that writes two and reads three bytes at a time.\<close>

definition slow_io :: "bytes conn_io" where
  "slow_io = \<lparr>io_writev = (\<lambda>iov x. let n = min 2 (length (concat iov)) in (int n, x @ take n (concat iov))),
     io_read = (\<lambda>n x. let k = min 3 (min n (length x)) in ((int k, take k x), drop k x))\<rparr>"

lemma slow_io_laws: "writes_some slow_io (\<lambda>x. x)" "reads_some slow_io (\<lambda>x. x)"
proof -
  have "\<exists>m. (if 2 \<le> length c then 2 else length c) = m \<and> 0 < m" if "c \<noteq> []" for c :: bytes using that by auto
  then show "writes_some slow_io (\<lambda>x. x)"
    by (auto simp: writes_some_def slow_io_def Let_def)
  show "reads_some slow_io (\<lambda>x. x)"
    by (auto simp: reads_some_def slow_io_def Let_def)
qed

theorem sftp_framing_roundtrip_witness:
  "\<exists>x'. sftp_send_iov slow_io SSH_FXP_READ 77 [[1, 2, 3], [4, 5]] [] = Ret (0, x') \<and>
    (\<exists>y'. sftp_read slow_io (x' @ [9]) = Ret ((0, Some (SSH_FXP_READ, \<lparr>bp = htonl 77 @ [1, 2, 3, 4, 5], blen = 0, bsize = 9\<rparr>)), y'))"
  using sftp_framing_roundtrip [OF slow_io_laws, of "[[1, 2, 3], [4, 5]]" SSH_FXP_READ 77 "[]"] by auto

text \<open>
  C22. The contract of a request, on every reply: the wait returns a negative error, zero, or \<^verbatim>\<open>MY_EOF\<close>, the last only for reading
  files and directories; it returns a buffer exactly when it succeeds with an expected reply other than a status, and that
  buffer is well-formed and holds what was left of the reply.
\<close>

theorem sftp_request_wait_contract:
  assumes "buf_wf (rq_reply req)" and "err0 \<le> 0" and "rq_error req \<le> 0"
  shows "\<exists>err outbuf. sftp_request_wait err0 req typ expect_type = Ret (err, outbuf) \<and>
    (0 < err \<longrightarrow> err = MY_EOF \<and> (typ = SSH_FXP_READ \<or> typ = SSH_FXP_READDIR)) \<and>
    (outbuf \<noteq> None \<longleftrightarrow> err = 0 \<and> expect_type \<noteq> SSH_FXP_STATUS) \<and>
    (\<forall>b. outbuf = Some b \<longrightarrow> buf_wf b \<and> blen b = 0 \<and>
       bp b = take (bsize (rq_reply req) - blen (rq_reply req)) (drop (blen (rq_reply req)) (bp (rq_reply req))))"
proof -
  obtain serr buf' where serr: "buf_get_uint32 (rq_reply req) = Ret (serr, buf')"
    using getsD [OF gets_uint32 assms(1)] by metis
  consider (failed) "err0 \<noteq> 0 \<or> rq_error req \<noteq> 0"
    | (other) "err0 = 0" "rq_error req = 0" "rq_reply_type req \<noteq> expect_type" "rq_reply_type req \<noteq> SSH_FXP_STATUS"
    | (status) "err0 = 0" "rq_error req = 0" "rq_reply_type req = SSH_FXP_STATUS"
    | (reply) "err0 = 0" "rq_error req = 0" "rq_reply_type req = expect_type" "expect_type \<noteq> SSH_FXP_STATUS"
    by blast
  then show ?thesis
  proof cases
    case failed
    then show ?thesis using assms(2,3) by (auto simp: sftp_request_wait_def)
  next
    case other
    then show ?thesis by (simp add: sftp_request_wait_def EIO_def)
  next
    case status
    then show ?thesis
      using serr status_result_cases [of "typ" expect_type "the serr"]
      by (cases serr) (auto simp: sftp_request_wait_def EIO_def MY_EOF_def)
  next
    case reply
    then show ?thesis
      using assms(1) wf_get_mem_all [OF assms(1)] by (auto simp: sftp_request_wait_def Let_def buf_init_def buf_wf_def)
  qed
qed

theorem sftp_request_wait_contract_witness:
  "\<exists>err outbuf. sftp_request_wait 0 (answered SSH_FX_EOF) SSH_FXP_READDIR SSH_FXP_NAME = Ret (err, outbuf) \<and> (outbuf \<noteq> None \<longleftrightarrow> err = 0)"
proof -
  have "buf_wf (rq_reply (answered SSH_FX_EOF))" "rq_error (answered SSH_FX_EOF) \<le> 0" "SSH_FXP_NAME \<noteq> SSH_FXP_STATUS"
    by (simp_all add: answered_def buf_wf_def SSH_FXP_NAME_def SSH_FXP_STATUS_def)
  then show ?thesis using sftp_request_wait_contract [of "answered SSH_FX_EOF" 0 SSH_FXP_READDIR SSH_FXP_NAME] by auto
qed

text \<open>A request without an open file or a known path goes to a connection of the least score.\<close>

lemma get_conn_least:
  assumes "1 < length conns" and "Option.bind path tab = None" and "conn_score (conns ! 0) < - 1"
  shows "get_conn conns tab None path < length conns \<and>
    (\<forall>i < length conns. conn_score (conns ! get_conn conns tab None path) \<le> conn_score (conns ! i))"
proof -
  obtain c cs where c: "conns = c # cs" "cs \<noteq> []" using assms(1) by (cases conns) auto
  then show ?thesis
    using best_conn_least [of 0 "[c]" cs] assms by (simp add: get_conn_def)
qed

end
