(* ===== verification/Sshfs_Symlinks.thy ===== *)
theory Sshfs_Symlinks
  imports Paths
begin

text \<open>
  Absolute symbolic links below the base path become relative ones (\<^verbatim>\<open>count_components\<close>, \<^verbatim>\<open>strip_common\<close> and
  \<^verbatim>\<open>transform_symlink\<close> of \<^verbatim>\<open>usfs_wrap/sshfs/sshfs_wrap.c\<close>). A pointer into a string is the rest of the string.
\<close>

section \<open>The functions\<close>

definition skip_slashes :: "string \<Rightarrow> string" where
  "skip_slashes p = dropWhile (\<lambda>c. c = CHR ''/'') p"

lemma skip_slashes_length: "length (skip_slashes p) \<le> length p"
  by (simp add: skip_slashes_def length_dropWhile_le)

function count_loop :: "string \<Rightarrow> int" where
  "count_loop p = (if p = [] then 0 else 1 + count_loop (skip_slashes (dropWhile (\<lambda>c. c \<noteq> CHR ''/'') p)))"
  by pat_completeness auto
termination
proof (relation "measure length", goal_cases)
  case (2 p)
  then show ?case
    by (cases p) (auto simp: skip_slashes_def less_Suc_eq_le intro: order_trans [OF length_dropWhile_le] length_dropWhile_le)
qed simp

definition count_components :: "string \<Rightarrow> int" where
  "count_components p = count_loop (skip_slashes p)"

text \<open>The inner loop of \<^verbatim>\<open>strip_common\<close>, which stops at a slash, at the end or at a difference.\<close>

fun skip_same :: "string \<Rightarrow> string \<Rightarrow> string \<times> string" where
  "skip_same (a # s) (b # t) = (if a = b \<and> a \<noteq> CHR ''/'' then skip_same s t else (a # s, b # t))"
| "skip_same s t = (s, t)"

definition strip_more :: "string \<Rightarrow> string \<Rightarrow> bool" where
  "strip_more s t \<longleftrightarrow>
     (s \<noteq> [] \<and> t \<noteq> [] \<and> hd s = hd t) \<or> (s = [] \<and> t \<noteq> [] \<and> hd t = CHR ''/'') \<or> (s \<noteq> [] \<and> hd s = CHR ''/'' \<and> t = [])"

lemma skip_same_length:
  "length (fst (skip_same s t)) \<le> length s \<and> length (snd (skip_same s t)) \<le> length t \<and>
    (length (fst (skip_same s t)) = length s \<longrightarrow> skip_same s t = (s, t))"
  by (induction s t rule: skip_same.induct) auto

lemma strip_more_progress:
  assumes "strip_more (fst (skip_same (skip_slashes s) (skip_slashes t))) (snd (skip_same (skip_slashes s) (skip_slashes t)))"
  shows "length (fst (skip_same (skip_slashes s) (skip_slashes t))) + length (snd (skip_same (skip_slashes s) (skip_slashes t))) <
    length s + length t"
proof (rule ccontr)
  let ?s = "skip_slashes s" and ?t = "skip_slashes t"
  assume n: "\<not> ?thesis"
  have "length (fst (skip_same ?s ?t)) = length ?s"
    using n skip_same_length [of ?s ?t] skip_slashes_length [of s] skip_slashes_length [of t] by linarith
  then have same: "skip_same ?s ?t = (?s, ?t)" using skip_same_length [of ?s ?t] by blast
  have no: "?s = [] \<or> hd ?s \<noteq> CHR ''/''" "?t = [] \<or> hd ?t \<noteq> CHR ''/''"
    using hd_dropWhile [of "\<lambda>c. c = CHR ''/''"] by (auto simp: skip_slashes_def)
  then have "?s \<noteq> []" "?t \<noteq> []" "hd ?s = hd ?t" using assms same by (auto simp: strip_more_def)
  then obtain a u v where uv: "?s = a # u" "?t = a # v" by (cases ?s; cases ?t) auto
  then have "skip_same ?s ?t = skip_same u v" using no by auto
  then show False using same uv skip_same_length [of u v] by auto
qed

function strip_common :: "string \<Rightarrow> string \<Rightarrow> string \<times> string" where
  "strip_common s t =
     (let s0 = skip_slashes s; t0 = skip_slashes t; r = skip_same s0 t0 in
      if strip_more (fst r) (snd r) then strip_common (fst r) (snd r) else (s0, t0))"
  by pat_completeness auto
termination by (relation "measure (\<lambda>(s, t). length s + length t)") (auto simp: split_beta strip_more_progress)

declare count_loop.simps [simp del] strip_common.simps [simp del]

text \<open>The new link is written into memory of the size that \<^verbatim>\<open>malloc\<close> is called with.\<close>

definition transform_symlink :: "string \<Rightarrow> string \<Rightarrow> string \<Rightarrow> string cres" where
  "transform_symlink base_path path lnk =
     (if lnk = [] \<or> hd lnk \<noteq> CHR ''/'' \<or> base_path = [] \<or> hd base_path \<noteq> CHR ''/'' then Ret lnk
      else case strip_common lnk base_path of (l, b) \<Rightarrow>
        if b \<noteq> [] then Ret lnk
        else case strip_common l path of (l, p) \<Rightarrow>
          if count_components p = 0 then Ret lnk
          else
            let dotdots = nat (count_components p - 1);
                newlink = concat (replicate dotdots ''../'') @ (if l \<noteq> [] then l else if dotdots = 0 then ''.'' else [])
            in if length newlink + 1 \<le> dotdots * 3 + length l + 2 then Ret newlink else Undef Out_Of_Bounds)"

section \<open>Components\<close>

text \<open>A path without its first slash, and what is left of two paths after the components they share. A last component is shared only
  when one of the paths goes on.\<close>

fun rel_path :: "string list \<Rightarrow> string" where
  "rel_path [] = []"
| "rel_path (c # cs) = c @ join cs"

fun common :: "string list \<Rightarrow> string list \<Rightarrow> string list \<times> string list" where
  "common (s # ss) (t # ts) = (if s = t \<and> (ss \<noteq> [] \<or> ts \<noteq> []) then common ss ts else (s # ss, t # ts))"
| "common ss ts = (ss, ts)"

definition file_name :: "string \<Rightarrow> bool" where
  "file_name c \<longleftrightarrow> component c \<and> plain c"

lemma file_name_hd: "file_name c \<Longrightarrow> c \<noteq> [] \<and> hd c \<noteq> CHR ''/'' \<and> CHR ''/'' \<notin> set c"
  by (cases c) (auto simp: file_name_def component_def plain_def)

lemma skip_slashes_names:
  assumes "list_all file_name cs"
  shows "skip_slashes (join cs) = rel_path cs" and "skip_slashes (rel_path cs) = rel_path cs"
proof -
  have "skip_slashes (join cs) = rel_path cs \<and> skip_slashes (rel_path cs) = rel_path cs"
  proof (cases cs)
    case (Cons c cs')
    then obtain a c' where "c = a # c'" "a \<noteq> CHR ''/''" using assms file_name_hd [of c] by (cases c) auto
    then show ?thesis by (simp add: Cons skip_slashes_def)
  qed (simp add: skip_slashes_def)
  then show "skip_slashes (join cs) = rel_path cs" "skip_slashes (rel_path cs) = rel_path cs" by blast+
qed

lemma skip_same_equal: "CHR ''/'' \<notin> set c \<Longrightarrow> skip_same (c @ join ss) (c @ join ts) = (join ss, join ts)"
proof (induction c)
  case Nil
  then show ?case by (cases ss; cases ts) auto
qed auto

lemma skip_same_differ:
  "CHR ''/'' \<notin> set c \<Longrightarrow> CHR ''/'' \<notin> set d \<Longrightarrow> c \<noteq> d \<Longrightarrow>
    \<not> strip_more (fst (skip_same (c @ join ss) (d @ join ts))) (snd (skip_same (c @ join ss) (d @ join ts)))"
proof (induction c arbitrary: d)
  case Nil
  then obtain b d' where "d = b # d'" by (cases d) auto
  then show ?case using Nil by (cases ss) (auto simp: strip_more_def)
next
  case (Cons a c)
  then show ?case by (cases d; cases ts) (auto simp: strip_more_def)
qed


lemma strip_common_names:
  "list_all file_name ss \<Longrightarrow> list_all file_name ts \<Longrightarrow> skip_slashes s = rel_path ss \<Longrightarrow> skip_slashes t = rel_path ts \<Longrightarrow>
    strip_common s t = map_prod rel_path rel_path (common ss ts)"
proof (induction ss ts arbitrary: s t rule: common.induct [case_names names left right])
  case (names c ss d ts)
  have cd: "CHR ''/'' \<notin> set c" "CHR ''/'' \<notin> set d" using names(2,3) file_name_hd by auto
  note unf = strip_common.simps [of s t, unfolded names(4,5) Let_def rel_path.simps]
  show ?case
  proof (cases "c = d")
    case False
    then show ?thesis using unf skip_same_differ [OF cd False, of ss ts] by simp
  next
    case True
    have r: "skip_same (c @ join ss) (d @ join ts) = (join ss, join ts)" using skip_same_equal [OF cd(1)] True by simp
    show ?thesis
    proof (cases "ss = [] \<and> ts = []")
      case False
      then have "strip_more (join ss) (join ts)" by (cases ss; cases ts) (auto simp: strip_more_def)
      then have "strip_common s t = strip_common (join ss) (join ts)" using unf r by simp
      then show ?thesis using names(1) [of "join ss" "join ts"] names(2,3) True False by (simp add: skip_slashes_names)
    qed (use True unf r in \<open>simp add: strip_more_def\<close>)
  qed
next
  case (left ts)
  then have "rel_path ts = [] \<or> hd (rel_path ts) \<noteq> CHR ''/''"
    using file_name_hd by (cases ts) auto
  then show ?case using left by (subst strip_common.simps) (auto simp: strip_more_def Let_def)
next
  case (right ss)
  then have "rel_path ss = [] \<or> hd (rel_path ss) \<noteq> CHR ''/''"
    using file_name_hd by (cases ss) auto
  then show ?case using right by (subst strip_common.simps) (cases "rel_path ss"; auto simp: strip_more_def Let_def)
qed

lemma count_components_names: "list_all file_name cs \<Longrightarrow> count_components (rel_path cs) = int (length cs)"
proof (induction cs)
  case Nil
  then show ?case by (simp add: count_components_def skip_slashes_def count_loop.simps)
next
  case (Cons c cs)
  have c: "c \<noteq> []" "CHR ''/'' \<notin> set c" using Cons.prems file_name_hd by auto
  then have "dropWhile (\<lambda>x. x \<noteq> CHR ''/'') (c @ join cs) = join cs"
    by (cases cs) (auto simp: dropWhile_append)
  then have "count_loop (c @ join cs) = 1 + count_loop (rel_path cs)"
    using c Cons.prems by (subst count_loop.simps) (simp add: skip_slashes_names)
  then show ?case
    using Cons skip_slashes_names(2) [of "c # cs"] skip_slashes_names(2) [of cs] by (simp add: count_components_def)
qed

lemma common_base: "b \<noteq> [] \<Longrightarrow> r \<noteq> [] \<Longrightarrow> common (b @ r) b = (r, [])"
proof (induction b)
  case (Cons x b)
  then show ?case by (cases b) (auto simp: neq_Nil_conv)
qed simp

lemma common_prefix: "common r p = (r', p') \<Longrightarrow> \<exists>q. r = q @ r' \<and> p = q @ p' \<and> (p' = [] \<longrightarrow> p = [] \<or> r' \<noteq> [])"
proof (induction r p rule: common.induct)
  case (1 s ss t ts)
  show ?case
  proof (cases "s = t \<and> (ss \<noteq> [] \<or> ts \<noteq> [])")
    case True
    then obtain q where "ss = q @ r'" "ts = q @ p'" "p' = [] \<longrightarrow> ts = [] \<or> r' \<noteq> []" using 1 by auto
    with True show ?thesis by (intro exI [of _ "s # q"]) auto
  qed (use 1 in auto)
qed auto

lemma components_slash_free:
  "CHR ''/'' \<notin> set d \<Longrightarrow> components (d @ CHR ''/'' # s) = d # components s" "CHR ''/'' \<notin> set d \<Longrightarrow> components d = [d]"
  by (induction d) auto

lemma components_rel: "list_all file_name cs \<Longrightarrow> cs \<noteq> [] \<Longrightarrow> components (rel_path cs) = cs"
proof (induction cs)
  case (Cons c cs)
  have "CHR ''/'' \<notin> set c" using Cons.prems file_name_hd by auto
  then show ?case using Cons by (cases cs) (simp_all add: components_slash_free)
qed simp

lemma components_dotdots: "components (concat (replicate n ''../'') @ s) = replicate n ''..'' @ components s"
  by (induction n) auto

lemma walk_dotdots: "walk st (replicate n ''..'') = drop n st"
  by (induction n arbitrary: st) (auto simp: drop_Suc)


section \<open>Properties\<close>

text \<open>
  C24. A symbolic link that points to an absolute path below the base path is turned into a relative link that leads from the directory
  of the link, seen below the mount, to the same file: walking the components of the new link from that directory gives the target
  without the base path. The new link fits the memory allocated for it. The target does not lie below the link itself.
\<close>

theorem transform_symlink_target:
  assumes "list_all file_name b" "list_all file_name r" "list_all file_name p" and "b \<noteq> []" "r \<noteq> []" "p \<noteq> []" and "\<not> strict_prefix p r"
  shows "\<exists>newlink. transform_symlink (join b) (join p) (join (b @ r)) = Ret newlink \<and>
    walk (rev (butlast p)) (components newlink) = rev r"
proof -
  obtain r' p' where c: "common r p = (r', p')" by fastforce
  then obtain q where q: "r = q @ r'" "p = q @ p'" "p' = [] \<longrightarrow> p = [] \<or> r' \<noteq> []" using common_prefix by metis
  have p': "p' \<noteq> []" using q assms(6,7) by (auto simp: strict_prefix_def)
  have n: "list_all file_name r'" "list_all file_name p'" "list_all file_name q" using q(1,2) assms(2,3) by auto
  have s1: "strip_common (join (b @ r)) (join b) = (rel_path r, [])"
    using strip_common_names [of "b @ r" b "join (b @ r)" "join b"] assms(1,2) common_base [OF assms(4,5)]
    by (simp add: skip_slashes_names [of "b @ r", simplified] skip_slashes_names)
  have s2: "strip_common (rel_path r) (join p) = (rel_path r', rel_path p')"
    using strip_common_names [of r p "rel_path r" "join p"] assms(2,3) c by (simp add: skip_slashes_names)
  define k where "k = length p' - 1"
  have cnt: "count_components (rel_path p') = int (length p')" "int (length p') \<noteq> 0" "nat (int (length p') - 1) = k"
    using count_components_names [OF n(2)] p' by (auto simp: k_def)
  define e where "e = (if rel_path r' \<noteq> [] then rel_path r' else if k = 0 then ''.'' else [])"
  have e: "length e \<le> length (rel_path r') + 1" "rel_path r' \<noteq> [] \<or> k \<noteq> 0 \<or> rel_path r' = []" by (auto simp: e_def)
  have fits: "length (concat (replicate k ''../'')) = k * 3" by (induction k) auto
  obtain cb sb where "join b = CHR ''/'' # sb" using assms(4) by (cases b) auto
  then have "transform_symlink (join b) (join p) (join (b @ r)) = Ret (concat (replicate k ''../'') @ e)"
    using s1 s2 cnt fits e(1) by (simp add: transform_symlink_def Let_def e_def [symmetric])
  moreover have "walk (rev (butlast p)) (components (concat (replicate k ''../'') @ e)) = rev r"
  proof -
    have bl: "butlast p = q @ butlast p'" using q(2) p' by (simp add: butlast_append)
    have "drop k (rev (butlast p)) = rev q" using bl by (simp add: k_def)
    moreover have "walk (rev q) (components e) = rev r' @ rev q"
    proof (cases "r' = []")
      case True
      then show ?thesis by (simp add: e_def)
    next
      case False
      then have "e = rel_path r'" using n(1) file_name_hd by (cases r') (auto simp: e_def)
      then have "components e = r'" using components_rel n(1) False by simp
      then show ?thesis using walk_plain [of "rev r'" "rev q"] n(1) by (simp add: list_all_iff file_name_def)
    qed
    ultimately show ?thesis using q(1) by (simp add: components_dotdots walk_append walk_dotdots)
  qed
  ultimately show ?thesis by blast
qed

theorem transform_symlink_target_witness:
  "\<exists>newlink. transform_symlink ''/home/u'' ''/a/b/x'' ''/home/u/a/c'' = Ret newlink \<and>
    walk [''b'', ''a''] (components newlink) = [''c'', ''a'']"
proof -
  have "\<exists>newlink. transform_symlink (join [''home'', ''u'']) (join [''a'', ''b'', ''x'']) (join ([''home'', ''u''] @ [''a'', ''c''])) = Ret newlink \<and>
      walk (rev (butlast [''a'', ''b'', ''x''])) (components newlink) = rev [''a'', ''c'']"
    by (rule transform_symlink_target) (simp_all add: file_name_def component_def plain_def)
  then show ?thesis by simp
qed

end
