(* ===== verification/Sshfs_Ops.thy ===== *)
theory Sshfs_Ops
  imports Sshfs_Requests Sshfs_Symlinks
begin

text \<open>
  The operations of \<^verbatim>\<open>usfs_wrap/sshfs/sshfs_wrap.c\<close> that are one or a few requests: directories, links, renaming with its
  workaround, changing attributes, attributes of files and of the file system, and the \<^verbatim>\<open>usfs_\<close> functions that end in them.
  Reading and writing files, which work with several requests at once, are not here.
\<close>

section \<open>State\<close>

text \<open>The fields of \<^verbatim>\<open>struct sshfs\<close> that the operations use.\<close>

record sshfs_opts = sshfs_conf +
  base_path :: string
  server_version :: int
  transform_symlinks :: bool
  ext_posix_rename :: bool
  ext_statvfs :: bool
  ext_hardlink :: bool
  disable_hardlink :: bool
  rename_workaround :: bool
  renamexdev_workaround :: bool
  fstat_workaround :: bool
  max_conns :: int
  r_uid_map :: "(u32 \<rightharpoonup> u32) option"
  r_gid_map :: "(u32 \<rightharpoonup> u32) option"

text \<open>The server and what changes: the connections of open paths and the seed of the random names.\<close>

record 's sshfs_state =
  server :: 's
  conntab :: "string \<rightharpoonup> nat"
  randseed :: u32

text \<open>
  An open file, with the version of its connection now. The \<^verbatim>\<open>fi\<close> argument of an operation is null or a pointer, which
  \<^verbatim>\<open>get_sshfs_file\<close> casts; what it points to is an open file, or the 64-bit variable whose address the \<^verbatim>\<open>usfs_\<close> functions pass.
\<close>

record sshfs_file =
  sf_handle :: buffer
  sf_connver :: int
  sf_conn_connver :: int

datatype fi = Fi_Null | Fi_File sshfs_file | Fi_Word u64

definition sshfs_file_is_conn :: "sshfs_file \<Rightarrow> bool" where
  "sshfs_file_is_conn sf \<longleftrightarrow> sf_connver sf = sf_conn_connver sf"

text \<open>The open file a non-null \<open>fi\<close> names; its fields lie outside of a 64-bit variable.\<close>

fun get_sshfs_file :: "fi \<Rightarrow> sshfs_file option cres" where
  "get_sshfs_file Fi_Null = Ret None"
| "get_sshfs_file (Fi_File sf) = Ret (Some sf)"
| "get_sshfs_file (Fi_Word w) = Undef Out_Of_Bounds"

section \<open>Operations\<close>

definition add_path :: "'z sshfs_opts_scheme \<Rightarrow> string \<Rightarrow> buffer \<Rightarrow> buffer cres" where
  "add_path opts path buf = buf_add_path (base_path opts) buf path"

definition add_u32 :: "u32 \<Rightarrow> buffer \<Rightarrow> buffer cres" where
  "add_u32 v buf = buf_add_uint32 buf v"

definition add_str :: "string \<Rightarrow> buffer \<Rightarrow> buffer cres" where
  "add_str str buf = buf_add_string buf str"

fun add_all :: "(buffer \<Rightarrow> buffer cres) list \<Rightarrow> buffer \<Rightarrow> buffer cres" where
  "add_all [] buf = Ret buf"
| "add_all (f # fs) buf = cbind (f buf) (add_all fs)"

text \<open>A request with the buffer that a list of additions makes, and one whose reply is only a status.\<close>

definition request_of :: "'s exchange \<Rightarrow> u8 \<Rightarrow> (buffer \<Rightarrow> buffer cres) list \<Rightarrow> u8 \<Rightarrow> 's sshfs_state \<Rightarrow>
    ((int \<times> buffer option) \<times> 's sshfs_state) cres" where
  "request_of ex typ adds expect_type s =
     cbind (add_all adds (buf_init 0)) (\<lambda>buf.
     cmap (\<lambda>(r, x). (r, s\<lparr>server := x\<rparr>)) (sftp_request ex typ buf expect_type (server s)))"

definition status_of :: "'s exchange \<Rightarrow> u8 \<Rightarrow> (buffer \<Rightarrow> buffer cres) list \<Rightarrow> 's sshfs_state \<Rightarrow> (int \<times> 's sshfs_state) cres" where
  "status_of ex typ adds s = cmap (\<lambda>((err, _), s1). (err, s1)) (request_of ex typ adds SSH_FXP_STATUS s)"

definition sshfs_mkdir :: "sshfs_opts \<Rightarrow> 's exchange \<Rightarrow> string \<Rightarrow> u32 \<Rightarrow> 's sshfs_state \<Rightarrow> (int \<times> 's sshfs_state) cres" where
  "sshfs_mkdir opts ex path mode = status_of ex SSH_FXP_MKDIR [add_path opts path, add_u32 ATTR_PERMISSIONS, add_u32 mode]"

definition SSH_FXF_WRITE :: u32 where "SSH_FXF_WRITE = 0x2"
definition SSH_FXF_CREAT :: u32 where "SSH_FXF_CREAT = 0x8"
definition SSH_FXF_EXCL :: u32 where "SSH_FXF_EXCL = 0x20"

definition sshfs_mknod :: "sshfs_opts \<Rightarrow> 's exchange \<Rightarrow> string \<Rightarrow> u32 \<Rightarrow> 's sshfs_state \<Rightarrow> (int \<times> 's sshfs_state) cres" where
  "sshfs_mknod opts ex path mode s =
     (if mode AND 0xF000 \<noteq> 0x8000 then Ret (- EPERM, s)
      else
        cbind (request_of ex SSH_FXP_OPEN
          [add_path opts path, add_u32 (SSH_FXF_WRITE OR SSH_FXF_CREAT OR SSH_FXF_EXCL), add_u32 ATTR_PERMISSIONS, add_u32 mode] SSH_FXP_HANDLE s)
        (\<lambda>((err, hnd), s1).
        case hnd of
          Some hnd \<Rightarrow>
            if err = 0 then
              cmap (\<lambda>((err2, _), x). (err2, s1\<lparr>server := x\<rparr>)) (sftp_request ex SSH_FXP_CLOSE (buf_finish hnd) SSH_FXP_STATUS (server s1))
            else Ret (err, s1)
        | None \<Rightarrow> if err = 0 then Undef Uninitialised else Ret (err, s1)))"

definition sshfs_symlink :: "sshfs_opts \<Rightarrow> 's exchange \<Rightarrow> string \<Rightarrow> string \<Rightarrow> 's sshfs_state \<Rightarrow> (int \<times> 's sshfs_state) cres" where
  "sshfs_symlink opts ex from to s =
     (if server_version opts < 3 then Ret (- EPERM, s)
      else status_of ex SSH_FXP_SYMLINK [add_str from, add_path opts to] s)"

definition sshfs_unlink :: "sshfs_opts \<Rightarrow> 's exchange \<Rightarrow> string \<Rightarrow> 's sshfs_state \<Rightarrow> (int \<times> 's sshfs_state) cres" where
  "sshfs_unlink opts ex path = status_of ex SSH_FXP_REMOVE [add_path opts path]"

definition sshfs_rmdir :: "sshfs_opts \<Rightarrow> 's exchange \<Rightarrow> string \<Rightarrow> 's sshfs_state \<Rightarrow> (int \<times> 's sshfs_state) cres" where
  "sshfs_rmdir opts ex path = status_of ex SSH_FXP_RMDIR [add_path opts path]"

definition sshfs_do_rename :: "sshfs_opts \<Rightarrow> 's exchange \<Rightarrow> string \<Rightarrow> string \<Rightarrow> 's sshfs_state \<Rightarrow> (int \<times> 's sshfs_state) cres" where
  "sshfs_do_rename opts ex from to = status_of ex SSH_FXP_RENAME [add_path opts from, add_path opts to]"

definition sshfs_ext_posix_rename :: "sshfs_opts \<Rightarrow> 's exchange \<Rightarrow> string \<Rightarrow> string \<Rightarrow> 's sshfs_state \<Rightarrow> (int \<times> 's sshfs_state) cres" where
  "sshfs_ext_posix_rename opts ex from to =
     status_of ex SSH_FXP_EXTENDED [add_str ''posix-rename@openssh.com'', add_path opts from, add_path opts to]"

text \<open>\<open>rand_r\<close> is the function of the C library: a number and the new seed.\<close>

fun random_string :: "(u32 \<Rightarrow> nat \<times> u32) \<Rightarrow> nat \<Rightarrow> u32 \<Rightarrow> string \<times> u32" where
  "random_string rand_r 0 seed = ([], seed)"
| "random_string rand_r (Suc n) seed =
     (case rand_r seed of (v, seed1) \<Rightarrow>
      case random_string rand_r n seed1 of (str, seed2) \<Rightarrow> (char_of (48 + v mod 10) # str, seed2))"

definition RENAME_TEMP_CHARS :: nat where "RENAME_TEMP_CHARS = 8"

text \<open>The workaround for servers that do not rename over an existing file.\<close>

definition rename_around :: "sshfs_opts \<Rightarrow> 's exchange \<Rightarrow> (u32 \<Rightarrow> nat \<times> u32) \<Rightarrow> string \<Rightarrow> string \<Rightarrow> int \<Rightarrow> 's sshfs_state \<Rightarrow> (int \<times> 's sshfs_state) cres" where
  "rename_around opts ex rand_r from to err s =
     (if length to + RENAME_TEMP_CHARS < PATH_MAX then
        case random_string rand_r RENAME_TEMP_CHARS (randseed s) of (digits, seed) \<Rightarrow>
        let totmp = to @ digits in
        cbind (sshfs_do_rename opts ex to totmp (s\<lparr>randseed := seed\<rparr>)) (\<lambda>(tmperr, s1).
        if tmperr = 0 then
          cbind (sshfs_do_rename opts ex from to s1) (\<lambda>(err, s2).
          if err = 0 then sshfs_unlink opts ex totmp s2
          else cmap (\<lambda>(_, s3). (err, s3)) (sshfs_do_rename opts ex totmp to s2))
        else Ret (err, s1))
      else Ret (err, s))"

definition rename_conntab :: "sshfs_opts \<Rightarrow> string \<Rightarrow> string \<Rightarrow> int \<Rightarrow> 's sshfs_state \<Rightarrow> 's sshfs_state" where
  "rename_conntab opts from to err s =
     (if err = 0 \<and> max_conns opts > 1 then
        case conntab s from of
          Some ce \<Rightarrow> s\<lparr>conntab := (conntab s)(to \<mapsto> ce, from := None)\<rparr>
        | None \<Rightarrow> s
      else s)"

definition sshfs_rename :: "sshfs_opts \<Rightarrow> 's exchange \<Rightarrow> (u32 \<Rightarrow> nat \<times> u32) \<Rightarrow> string \<Rightarrow> string \<Rightarrow> nat \<Rightarrow> 's sshfs_state \<Rightarrow> (int \<times> 's sshfs_state) cres" where
  "sshfs_rename opts ex rand_r from to flags s =
     (if flags \<noteq> 0 then Ret (- EINVAL, s)
      else
        cbind (if ext_posix_rename opts then sshfs_ext_posix_rename opts ex from to s else sshfs_do_rename opts ex from to s) (\<lambda>(err, s1).
        cmap (\<lambda>(err, s2).
            let err = (if err = - EPERM \<and> renamexdev_workaround opts then - EXDEV else err) in (err, rename_conntab opts from to err s2))
          (if err = - EPERM \<and> rename_workaround opts then rename_around opts ex rand_r from to err s1 else Ret (err, s1))))"

definition sshfs_link :: "sshfs_opts \<Rightarrow> 's exchange \<Rightarrow> string \<Rightarrow> string \<Rightarrow> 's sshfs_state \<Rightarrow> (int \<times> 's sshfs_state) cres" where
  "sshfs_link opts ex from to s =
     (if ext_hardlink opts \<and> \<not> disable_hardlink opts
      then status_of ex SSH_FXP_EXTENDED [add_str ''hardlink@openssh.com'', add_path opts from, add_path opts to] s
      else Ret (- ENOSYS, s))"


text \<open>A change of attributes, of an open file or of a path.\<close>

definition setstat :: "sshfs_opts \<Rightarrow> 's exchange \<Rightarrow> string \<Rightarrow> sshfs_file option \<Rightarrow> (buffer \<Rightarrow> buffer cres) list \<Rightarrow> 's sshfs_state \<Rightarrow>
    (int \<times> 's sshfs_state) cres" where
  "setstat opts ex path sf adds s =
     (case sf of
        None \<Rightarrow> status_of ex SSH_FXP_SETSTAT (add_path opts path # adds) s
      | Some sf \<Rightarrow> status_of ex SSH_FXP_FSETSTAT ((\<lambda>buf. buf_add_buf buf (sf_handle sf)) # adds) s)"

text \<open>The common start: the open file, unless its connection was replaced.\<close>

definition with_file :: "fi \<Rightarrow> (sshfs_file option \<Rightarrow> 's sshfs_state \<Rightarrow> ((int \<times> 'r option) \<times> 's sshfs_state) cres) \<Rightarrow> 's sshfs_state \<Rightarrow>
    ((int \<times> 'r option) \<times> 's sshfs_state) cres" where
  "with_file fi f s =
     cbind (get_sshfs_file fi) (\<lambda>sf.
     case sf of
       Some sf \<Rightarrow> if sshfs_file_is_conn sf then f (Some sf) s else Ret ((- EIO, None), s)
     | None \<Rightarrow> f None s)"

definition no_value :: "(int \<times> 's sshfs_state) cres \<Rightarrow> ((int \<times> unit option) \<times> 's sshfs_state) cres" where
  "no_value m = cmap (\<lambda>(err, s). ((err, None), s)) m"

definition sshfs_chmod :: "sshfs_opts \<Rightarrow> 's exchange \<Rightarrow> string \<Rightarrow> u32 \<Rightarrow> fi \<Rightarrow> 's sshfs_state \<Rightarrow> ((int \<times> unit option) \<times> 's sshfs_state) cres" where
  "sshfs_chmod opts ex path mode fi =
     with_file fi (\<lambda>sf s. no_value (setstat opts ex path sf [add_u32 ATTR_PERMISSIONS, add_u32 mode] s))"

definition map_back :: "sshfs_opts \<Rightarrow> u32 \<Rightarrow> (u32 \<rightharpoonup> u32) option \<Rightarrow> u32 option" where
  "map_back opts ident tab =
     (case tab of
        Some t \<Rightarrow> if sf_idmap opts = IDMAP_FILE then translate_id (sf_nomap opts) ident t else Some ident
      | None \<Rightarrow> Some ident)"

definition sshfs_chown :: "sshfs_opts \<Rightarrow> 's exchange \<Rightarrow> string \<Rightarrow> u32 \<Rightarrow> u32 \<Rightarrow> fi \<Rightarrow> 's sshfs_state \<Rightarrow> ((int \<times> unit option) \<times> 's sshfs_state) cres" where
  "sshfs_chown opts ex path uid gid fi =
     with_file fi (\<lambda>sf s.
       let uid1 = (if remote_uid_detected opts \<and> uid = local_uid opts then remote_uid opts else uid);
           gid1 = (if remote_uid_detected opts \<and> gid = local_gid opts then remote_gid opts else gid)
       in case map_back opts uid1 (r_uid_map opts) of
            None \<Rightarrow> Ret ((- EPERM, None), s)
          | Some uid2 \<Rightarrow>
              (case map_back opts gid1 (r_gid_map opts) of
                 None \<Rightarrow> Ret ((- EPERM, None), s)
               | Some gid2 \<Rightarrow> no_value (setstat opts ex path sf [add_u32 ATTR_UIDGID, add_u32 uid2, add_u32 gid2] s)))"

text \<open>\<open>now\<close> is what \<^verbatim>\<open>gettimeofday\<close> gives, the times the seconds of the \<^verbatim>\<open>timespec\<close> array.\<close>

definition sshfs_utimens :: "sshfs_opts \<Rightarrow> 's exchange \<Rightarrow> int \<Rightarrow> string \<Rightarrow> int \<times> int \<Rightarrow> fi \<Rightarrow> 's sshfs_state \<Rightarrow> ((int \<times> unit option) \<times> 's sshfs_state) cres" where
  "sshfs_utimens opts ex now path tv fi =
     (let asec = (if fst tv = 0 then now else fst tv); msec = (if snd tv = 0 then now else snd tv) in
      with_file fi (\<lambda>sf s. no_value (setstat opts ex path sf [add_u32 ATTR_ACMODTIME, add_u32 (of_int asec), add_u32 (of_int msec)] s)))"

text \<open>Reading the attributes out of a reply.\<close>

definition attrs_of :: "sshfs_opts \<Rightarrow> ((int \<times> buffer option) \<times> 's sshfs_state) cres \<Rightarrow> ((int \<times> sftp_stat option) \<times> 's sshfs_state) cres" where
  "attrs_of opts m =
     cbind m (\<lambda>((err, outbuf), s).
     if err \<noteq> 0 then Ret ((err, None), s)
     else case outbuf of
       None \<Rightarrow> Undef Uninitialised
     | Some outbuf \<Rightarrow>
         cmap (\<lambda>(r, _). (case r of Inl err \<Rightarrow> (err, None) | Inr (st, _) \<Rightarrow> (0, Some st), s)) (buf_get_attrs (sshfs_conf.truncate opts) outbuf))"

definition sshfs_getattr :: "sshfs_opts \<Rightarrow> 's exchange \<Rightarrow> string option \<Rightarrow> fi \<Rightarrow> 's sshfs_state \<Rightarrow> ((int \<times> sftp_stat option) \<times> 's sshfs_state) cres" where
  "sshfs_getattr opts ex path fi =
     with_file (if fstat_workaround opts then Fi_Null else fi) (\<lambda>sf s.
       case sf of
         Some sf \<Rightarrow> attrs_of opts (request_of ex SSH_FXP_FSTAT [\<lambda>buf. buf_add_buf buf (sf_handle sf)] SSH_FXP_ATTRS s)
       | None \<Rightarrow>
           (case path of
              Some path \<Rightarrow>
                attrs_of opts (request_of ex (if follow_symlinks opts then SSH_FXP_STAT else SSH_FXP_LSTAT) [add_path opts path] SSH_FXP_ATTRS s)
            | None \<Rightarrow> Ret ((- EIO, None), s)))"

definition X_OK :: u32 where "X_OK = 1"

definition sshfs_access :: "sshfs_opts \<Rightarrow> 's exchange \<Rightarrow> string \<Rightarrow> u32 \<Rightarrow> 's sshfs_state \<Rightarrow> (int \<times> 's sshfs_state) cres" where
  "sshfs_access opts ex path msk s =
     (if msk AND X_OK \<noteq> 0 then
        cmap (\<lambda>((err, st), s1).
            (case st of
               Some st \<Rightarrow> if err = 0 \<and> ss_mode st AND 0xF000 = 0x8000 \<and> ss_mode st AND 0x49 = 0 then - EACCES else err
             | None \<Rightarrow> err, s1))
          (sshfs_getattr opts ex (Some path) Fi_Null s)
      else Ret (0, s))"

definition sshfs_ext_statvfs :: "sshfs_opts \<Rightarrow> 's exchange \<Rightarrow> string \<Rightarrow> 's sshfs_state \<Rightarrow> ((int \<times> statvfs option) \<times> 's sshfs_state) cres" where
  "sshfs_ext_statvfs opts ex path s =
     cbind (request_of ex SSH_FXP_EXTENDED [add_str ''statvfs@openssh.com'', add_path opts path] SSH_FXP_EXTENDED_REPLY s) (\<lambda>((err, outbuf), s1).
     if err \<noteq> 0 then Ret ((err, None), s1)
     else case outbuf of
       None \<Rightarrow> Undef Uninitialised
     | Some outbuf \<Rightarrow> cmap (\<lambda>(st, _). ((if st = None then - EIO else 0, st), s1)) (buf_get_statvfs outbuf))"

text \<open>Without the extension only some fields of the caller's \<open>buf\<close> are set.\<close>

definition sshfs_statfs :: "sshfs_opts \<Rightarrow> 's exchange \<Rightarrow> string \<Rightarrow> statvfs \<Rightarrow> 's sshfs_state \<Rightarrow> ((int \<times> statvfs option) \<times> 's sshfs_state) cres" where
  "sshfs_statfs opts ex path buf s =
     (if ext_statvfs opts then sshfs_ext_statvfs opts ex path s
      else if sf_blksize opts = 0 then Undef Division_By_Zero
      else
        let bsize = ucast (sf_blksize opts); blocks = of_nat (1000 * 1024 * 1024 * 1024 div unat (sf_blksize opts)) in
        Ret ((0, Some (buf\<lparr>f_bsize := bsize, f_frsize := bsize, f_blocks := blocks, f_bfree := blocks, f_bavail := blocks,
          f_files := 1000000000, f_ffree := 1000000000, f_namemax := 255\<rparr>)), s))"

text \<open>\<^verbatim>\<open>sshfs_readlink\<close>; the value is the string in the buffer of \<open>sz\<close> bytes.\<close>

definition sshfs_readlink :: "sshfs_opts \<Rightarrow> 's exchange \<Rightarrow> string \<Rightarrow> nat \<Rightarrow> 's sshfs_state \<Rightarrow> ((int \<times> string option) \<times> 's sshfs_state) cres" where
  "sshfs_readlink opts ex path sz s =
     (if sz = 0 then Undef Assertion_Failed
      else if server_version opts < 3 then Ret ((- EPERM, None), s)
      else
        cbind (request_of ex SSH_FXP_READLINK [add_path opts path] SSH_FXP_NAME s) (\<lambda>((err, nm), s1).
        if err \<noteq> 0 then Ret ((err, None), s1)
        else case nm of
          None \<Rightarrow> Undef Uninitialised
        | Some nm \<Rightarrow>
            cbind (get_then (buf_get_uint32 nm) (\<lambda>cnt nm1. if cnt = 1 then buf_get_string nm1 else Ret (None, nm1))) (\<lambda>(v, _).
            case v of
              Some lnk \<Rightarrow>
                cmap (\<lambda>lnk. ((0, Some (take (sz - 1) lnk)), s1))
                  (if transform_symlinks opts then transform_symlink (base_path opts) path lnk else Ret lnk)
            | None \<Rightarrow> Ret ((- EIO, None), s1))))"

section \<open>The library's functions\<close>

text \<open>Without the cache the table \<^verbatim>\<open>sshfs.op\<close> is \<^verbatim>\<open>sshfs_oper\<close>.\<close>

definition usfs_getattr_sshfs :: "sshfs_opts \<Rightarrow> 's exchange \<Rightarrow> string \<Rightarrow> 's sshfs_state \<Rightarrow> ((int \<times> sftp_stat option) \<times> 's sshfs_state) cres" where
  "usfs_getattr_sshfs opts ex path s = cmap (\<lambda>((rc, st), s1). ((- rc, st), s1)) (sshfs_getattr opts ex (Some path) Fi_Null s)"

definition usfs_fgetattr_sshfs :: "sshfs_opts \<Rightarrow> 's exchange \<Rightarrow> u64 \<Rightarrow> 's sshfs_state \<Rightarrow> ((int \<times> sftp_stat option) \<times> 's sshfs_state) cres" where
  "usfs_fgetattr_sshfs opts ex fh s = cmap (\<lambda>((rc, st), s1). ((- rc, st), s1)) (sshfs_getattr opts ex None (Fi_Word fh) s)"

definition usfs_unlink_sshfs :: "sshfs_opts \<Rightarrow> 's exchange \<Rightarrow> string \<Rightarrow> 's sshfs_state \<Rightarrow> (int \<times> 's sshfs_state) cres" where
  "usfs_unlink_sshfs opts ex path s = cmap (\<lambda>(rc, s1). (- rc, s1)) (sshfs_unlink opts ex path s)"


section \<open>Requests with a status\<close>

definition path_bytes :: "string \<Rightarrow> bytes" where
  "path_bytes p = data_bytes (map byte_of_char p)"

lemma appends_path: "path \<noteq> [] \<Longrightarrow> appends (add_path opts path) (path_bytes (remote_path (base_path opts) path))"
  using appends_data by (simp add: add_path_def buf_add_path_def buf_add_string_def path_bytes_def appends_def)

lemma appends_all: "list_all2 appends adds bss \<Longrightarrow> appends (add_all adds) (concat bss)"
proof (induction adds bss rule: list_all2_induct)
  case Nil
  then show ?case by (simp add: appends_def)
next
  case (Cons f fs b bs)
  then show ?case using appends_bind [of f b "add_all fs" "concat bs"] by (simp add: appends_def)
qed

lemma wait_answered: "sftp_request_wait 0 (answered code) typ SSH_FXP_STATUS = Ret (status_result typ SSH_FXP_STATUS code, None)"
proof -
  have "buf_get_uint32 \<lparr>bp = htonl code, blen = 0, bsize = 4\<rparr> = Ret (Some code, \<lparr>bp = htonl code, blen = 4, bsize = 4\<rparr>)"
    by (simp add: buf_get_uint32_def get_then_def buf_get_mem_def buf_check_get_def ntohl_htonl)
  then show ?thesis by (simp add: sftp_request_wait_def answered_def)
qed

lemma status_of_answered:
  assumes "list_all2 appends adds bss" and "ex typ [concat bss] (server s) = ((0, answered code), x)"
  shows "status_of ex typ adds s = Ret (status_result typ SSH_FXP_STATUS code, s\<lparr>server := x\<rparr>)"
proof -
  have "holds (buf_init 0) []" by (simp add: holds_def buf_init_def)
  then obtain buf where buf: "add_all adds (buf_init 0) = Ret buf" "holds buf ([] @ concat bss)"
    using appends_all [OF assms(1)] unfolding appends_def by blast
  then have "buf_to_iov buf = concat bss" unfolding holds_def buf_to_iov_def append_Nil by blast
  then show ?thesis
    using buf(1) assms(2) wait_answered [of code "typ"]
    by (simp add: status_of_def request_of_def sftp_request_def sftp_request_iov_def SSH_FXP_STATUS_def)
qed

text \<open>
  A server of version 3 of the protocol: renaming fails when the new name exists. \<open>fs\<close> gives its files by their path on the server.
\<close>

definition remote_ok :: "string \<Rightarrow> bool" where
  "remote_ok p \<longleftrightarrow> nul_free p \<and> length p < 2 ^ 32 - 1"

definition renaming_server :: "'s exchange \<Rightarrow> ('s \<Rightarrow> string \<rightharpoonup> 'f) \<Rightarrow> bool" where
  "renaming_server ex fs \<longleftrightarrow>
     (\<forall>x p q. remote_ok p \<and> remote_ok q \<and> fs x p \<noteq> None \<longrightarrow>
        (\<exists>x'. ex SSH_FXP_RENAME [path_bytes p @ path_bytes q] x = ((0, answered (if fs x q = None then SSH_FX_OK else SSH_FX_FAILURE)), x') \<and>
           fs x' = (if fs x q = None then (fs x)(p := None, q := fs x p) else fs x))) \<and>
     (\<forall>x p. remote_ok p \<and> fs x p \<noteq> None \<longrightarrow>
        (\<exists>x'. ex SSH_FXP_REMOVE [path_bytes p] x = ((0, answered SSH_FX_OK), x') \<and> fs x' = (fs x)(p := None)))"

lemma do_rename_server:
  assumes srv: "renaming_server ex fs" and ne: "from \<noteq> []" "to \<noteq> []"
    and p: "p = remote_path (base_path opts) from" "q = remote_path (base_path opts) to" "remote_ok p" "remote_ok q" "fs (server s) p \<noteq> None"
  shows "\<exists>x'. sshfs_do_rename opts ex from to s = Ret (if fs (server s) q = None then 0 else - EPERM, s\<lparr>server := x'\<rparr>) \<and>
    fs x' = (if fs (server s) q = None then (fs (server s))(p := None, q := fs (server s) p) else fs (server s))"
proof -
  let ?code = "if fs (server s) q = None then SSH_FX_OK else SSH_FX_FAILURE"
  obtain x' where x': "ex SSH_FXP_RENAME [path_bytes p @ path_bytes q] (server s) = ((0, answered ?code), x')"
      "fs x' = (if fs (server s) q = None then (fs (server s))(p := None, q := fs (server s) p) else fs (server s))"
    using srv p(3-5) unfolding renaming_server_def by meson
  have "list_all2 appends [add_path opts from, add_path opts to] [path_bytes p, path_bytes q]"
    using ne p(1,2) by (simp add: appends_path)
  then have "status_of ex SSH_FXP_RENAME [add_path opts from, add_path opts to] s = Ret (status_result SSH_FXP_RENAME SSH_FXP_STATUS ?code, s\<lparr>server := x'\<rparr>)"
    by (rule status_of_answered) (simp only: x'(1) concat.simps append_Nil2)
  moreover have "status_result SSH_FXP_RENAME SSH_FXP_STATUS ?code = (if fs (server s) q = None then 0 else - EPERM)"
    by (simp add: status_result_def SSH_FX_OK_def SSH_FX_FAILURE_def SSH_FX_EOF_def SSH_FXP_RENAME_def SSH_FXP_RMDIR_def)
  ultimately show ?thesis
    using x'(2) unfolding sshfs_do_rename_def by (intro exI [of _ x'] conjI) simp_all
qed

lemma unlink_server:
  assumes srv: "renaming_server ex fs" and "path \<noteq> []" and p: "p = remote_path (base_path opts) path" "remote_ok p" "fs (server s) p \<noteq> None"
  shows "\<exists>x'. sshfs_unlink opts ex path s = Ret (0, s\<lparr>server := x'\<rparr>) \<and> fs x' = (fs (server s))(p := None)"
proof -
  obtain x' where x': "ex SSH_FXP_REMOVE [path_bytes p] (server s) = ((0, answered SSH_FX_OK), x')" "fs x' = (fs (server s))(p := None)"
    using srv p(2,3) unfolding renaming_server_def by meson
  have "list_all2 appends [add_path opts path] [path_bytes p]"
    using assms(2) p(1) by (simp add: appends_path)
  then have "status_of ex SSH_FXP_REMOVE [add_path opts path] s = Ret (status_result SSH_FXP_REMOVE SSH_FXP_STATUS SSH_FX_OK, s\<lparr>server := x'\<rparr>)"
    by (rule status_of_answered) (simp only: x'(1) concat.simps append_Nil2)
  then show ?thesis
    using x'(2) unfolding sshfs_unlink_def by (intro exI [of _ x'] conjI) (simp_all add: status_result_def)
qed

section \<open>Properties\<close>

text \<open>
  C18. With the rename workaround, renaming over an existing file gives what the caller of \<^verbatim>\<open>rename\<close> expects, on a server that refuses to
  rename over a file: the call succeeds, the new name has the old file, the old name is gone, and no file under a temporary name is
  left. The temporary name is not in use.
\<close>

theorem rename_replaces_target:
  assumes "renaming_server ex fs" and "\<not> ext_posix_rename opts" "rename_workaround opts"
    and "from \<noteq> []" "to \<noteq> []" "length to + 8 < PATH_MAX"
    and "tmp = to @ fst (random_string rand_r 8 (randseed s))"
    and "remote_ok (remote_path (base_path opts) from)" "remote_ok (remote_path (base_path opts) to)" "remote_ok (remote_path (base_path opts) tmp)"
    and "fs (server s) (remote_path (base_path opts) from) = Some f" "fs (server s) (remote_path (base_path opts) to) = Some g"
    and "fs (server s) (remote_path (base_path opts) tmp) = None"
    and "remote_path (base_path opts) from \<noteq> remote_path (base_path opts) to"
  shows "\<exists>s'. sshfs_rename opts ex rand_r from to 0 s = Ret (0, s') \<and>
    fs (server s') = (fs (server s))(remote_path (base_path opts) from := None, remote_path (base_path opts) to := Some f)"
proof -
  let ?R = "remote_path (base_path opts)"
  define F where "F = fs (server s)"
  have F: "F (?R from) = Some f" "F (?R to) = Some g" "F (?R tmp) = None" using assms(11-13) by (simp_all add: F_def)
  then have d: "?R tmp \<noteq> ?R from" "?R tmp \<noteq> ?R to" by auto
  obtain digits seed where rs: "random_string rand_r 8 (randseed s) = (digits, seed)" by fastforce
  have tmp: "to @ digits = tmp" "tmp \<noteq> []" using assms(5,7) rs by simp_all
  obtain x1 where x1: "sshfs_do_rename opts ex from to s = Ret (- EPERM, s\<lparr>server := x1\<rparr>)" "fs x1 = F"
    using do_rename_server [OF assms(1,4,5) refl refl assms(8,9), of s] F by (auto simp: F_def)
  let ?s1 = "s\<lparr>server := x1, randseed := seed\<rparr>"
  obtain x2 where x2: "sshfs_do_rename opts ex to tmp ?s1 = Ret (0, ?s1\<lparr>server := x2\<rparr>)" "fs x2 = F(?R to := None, ?R tmp := Some g)"
    using do_rename_server [OF assms(1,5) tmp(2) refl refl assms(9,10), of ?s1] x1(2) F by auto
  let ?s2 = "?s1\<lparr>server := x2\<rparr>"
  obtain x3 where x3: "sshfs_do_rename opts ex from to ?s2 = Ret (0, ?s2\<lparr>server := x3\<rparr>)"
      "fs x3 = F(?R to := None, ?R tmp := Some g, ?R from := None, ?R to := Some f)"
    using do_rename_server [OF assms(1,4,5) refl refl assms(8,9), of ?s2] x2(2) F d assms(14) by auto
  let ?s3 = "?s2\<lparr>server := x3\<rparr>"
  obtain x4 where x4: "sshfs_unlink opts ex tmp ?s3 = Ret (0, ?s3\<lparr>server := x4\<rparr>)" "fs x4 = (fs x3)(?R tmp := None)"
    using unlink_server [OF assms(1) tmp(2) refl assms(10), of ?s3] x3(2) d by auto
  have "rename_around opts ex rand_r from to (- EPERM) (s\<lparr>server := x1\<rparr>) = Ret (0, ?s3\<lparr>server := x4\<rparr>)"
    using rs x2(1) x3(1) x4(1) assms(6) tmp(1) by (simp add: rename_around_def RENAME_TEMP_CHARS_def Let_def)
  then have "sshfs_rename opts ex rand_r from to 0 s = Ret (0, rename_conntab opts from to 0 (?s3\<lparr>server := x4\<rparr>))"
    using x1(1) assms(2,3) by (simp add: sshfs_rename_def EPERM_def)
  moreover have "server (rename_conntab opts from to 0 (?s3\<lparr>server := x4\<rparr>)) = x4"
    by (simp add: rename_conntab_def split: option.split)
  moreover have "fs x4 = F(?R from := None, ?R to := Some f)"
    using x4(2) x3(2) d F(3) by (auto simp: fun_eq_iff)
  ultimately show ?thesis by (simp add: F_def)
qed


text \<open>Such a server: its state is the files, and it reads the paths out of the message.\<close>

definition map_server :: "(string \<rightharpoonup> nat) exchange" where
  "map_server typ iov x =
     (if typ = SSH_FXP_RENAME then
        case get_fields [KString, KString] (reader (concat iov) 0) of
          Ret (Some [FString p, FString q], _) \<Rightarrow>
            if x p = None then ((0, answered SSH_FX_NO_SUCH_FILE), x)
            else if x q = None then ((0, answered SSH_FX_OK), x(p := None, q := x p))
            else ((0, answered SSH_FX_FAILURE), x)
        | _ \<Rightarrow> ((0, answered SSH_FX_BAD_MESSAGE), x)
      else
        case get_fields [KString] (reader (concat iov) 0) of
          Ret (Some [FString p], _) \<Rightarrow> ((0, answered SSH_FX_OK), x(p := None))
        | _ \<Rightarrow> ((0, answered SSH_FX_BAD_MESSAGE), x))"

lemma map_server_renaming: "renaming_server map_server (\<lambda>x. x)"
proof -
  have two: "get_fields [KString, KString] (reader (path_bytes p @ path_bytes q) 0) =
      Ret (Some [FString p, FString q], reader (path_bytes p @ path_bytes q) (length (path_bytes p @ path_bytes q)))"
    if "remote_ok p" "remote_ok q" for p q
    using reads_fields [of "[FString p, FString q]", unfolded reads_def, rule_format, of "[]" "[]"] that
    by (simp add: remote_ok_def path_bytes_def)
  have one: "get_fields [KString] (reader (path_bytes p) 0) = Ret (Some [FString p], reader (path_bytes p) (length (path_bytes p)))"
    if "remote_ok p" for p
    using reads_fields [of "[FString p]", unfolded reads_def, rule_format, of "[]" "[]"] that
    by (simp add: remote_ok_def path_bytes_def)
  show ?thesis
    unfolding renaming_server_def
  proof (intro conjI allI impI)
    fix x :: "string \<rightharpoonup> nat" and p q
    assume "remote_ok p \<and> remote_ok q \<and> x p \<noteq> None"
    then show "\<exists>x'. map_server SSH_FXP_RENAME [path_bytes p @ path_bytes q] x =
          ((0, answered (if x q = None then SSH_FX_OK else SSH_FX_FAILURE)), x') \<and>
        x' = (if x q = None then x(p := None, q := x p) else x)"
      using two [of p q] by (auto simp add: map_server_def simp del: get_fields.simps)
  next
    fix x :: "string \<rightharpoonup> nat" and p
    assume "remote_ok p \<and> x p \<noteq> None"
    then show "\<exists>x'. map_server SSH_FXP_REMOVE [path_bytes p] x = ((0, answered SSH_FX_OK), x') \<and> x' = x(p := None)"
      using one [of p] by (simp add: map_server_def SSH_FXP_RENAME_def SSH_FXP_REMOVE_def del: get_fields.simps)
  qed
qed

definition example_opts :: sshfs_opts where
  "example_opts = \<lparr>remote_uid_detected = False, remote_uid = 0, local_uid = 0, remote_gid = 0, local_gid = 0,
     sf_idmap = IDMAP_NONE, uid_map = None, gid_map = None, sf_nomap = NOMAP_ERROR, sf_blksize = 4096, follow_symlinks = False,
     base_path = ''/srv'', server_version = 3, transform_symlinks = False, ext_posix_rename = False, ext_statvfs = False,
     ext_hardlink = False, disable_hardlink = False, rename_workaround = True, renamexdev_workaround = False, fstat_workaround = False,
     max_conns = 1, r_uid_map = None, r_gid_map = None\<rparr>"

theorem rename_replaces_target_witness:
  "\<exists>s'. sshfs_rename example_opts map_server (\<lambda>seed. (7, seed)) ''/a'' ''/b'' 0
        \<lparr>server = [''/srv/a'' \<mapsto> 1, ''/srv/b'' \<mapsto> 2], conntab = Map.empty, randseed = 0\<rparr> = Ret (0, s') \<and>
    server s' ''/srv/b'' = Some 1 \<and> server s' ''/srv/a'' = None"
proof -
  let ?s = "\<lparr>server = [''/srv/a'' \<mapsto> 1, ''/srv/b'' \<mapsto> 2], conntab = Map.empty, randseed = 0\<rparr>"
  have r: "fst (random_string (\<lambda>seed. (7, seed)) 8 (randseed ?s)) = ''77777777''"
    by code_simp
  have R: "remote_path (base_path example_opts) ''/a'' = ''/srv/a''" "remote_path (base_path example_opts) ''/b'' = ''/srv/b''"
      "remote_path (base_path example_opts) ''/b77777777'' = ''/srv/b77777777''"
    by (simp_all add: remote_path_def example_opts_def)
  have "\<exists>s'. sshfs_rename example_opts map_server (\<lambda>seed. (7, seed)) ''/a'' ''/b'' 0 ?s = Ret (0, s') \<and>
      server s' = (server ?s)(remote_path (base_path example_opts) ''/a'' := None, remote_path (base_path example_opts) ''/b'' := Some 1)"
    by (rule rename_replaces_target [OF map_server_renaming, where tmp = "''/b77777777''" and g = 2])
      (unfold R r, simp_all add: example_opts_def remote_ok_def PATH_MAX_def nul_free_def)
  then show ?thesis unfolding R by auto
qed

text \<open>
  The functions of the library that take a handle pass the address of their argument, which \<^verbatim>\<open>get_sshfs_file\<close> takes for the address of an
  open file: they read outside of the argument.
\<close>

lemma fgetattr_reads_outside:
  "\<not> fstat_workaround opts \<Longrightarrow> usfs_fgetattr_sshfs opts ex fh s = Undef Out_Of_Bounds"
  by (simp add: usfs_fgetattr_sshfs_def sshfs_getattr_def with_file_def)

end
