(* ===== verification/Sshfs_Session.thy ===== *)
theory Sshfs_Session
  imports Sshfs_Requests
begin

text \<open>
  Requests that are under way (\<^verbatim>\<open>sftp_request_send\<close>, \<^verbatim>\<open>process_one_request\<close>, \<^verbatim>\<open>process_requests\<close>, \<^verbatim>\<open>clean_req\<close>,
  \<^verbatim>\<open>request_free\<close> and the waiting of \<^verbatim>\<open>sftp_request_wait\<close> and \<^verbatim>\<open>sftp_readdir_async\<close>, of
  \<^verbatim>\<open>usfs_wrap/sshfs/sshfs_wrap.c\<close>): any number of threads send requests and wait for them, and one thread for each connection
  reads the replies and finds the requests in a table. A step is what a thread does between two points where another one may run. A request is
  an address; an access to one that was freed is undefined.
\<close>

section \<open>State\<close>

text \<open>A request, with its semaphore and whether it has an end function.\<close>

record sftp_req =
  sq_id :: u32
  sq_len :: u32
  sq_conn :: nat
  sq_want :: bool
  sq_func :: bool
  sq_posted :: bool
  sq_rq :: request

text \<open>
  Where the thread that sends a request is: waiting until less is outstanding, sending (with its variables \<open>id\<close> and \<open>want_reply\<close>), past the
  last byte of the message, holding the request of a successful or of a failed send, or through with it.
\<close>

datatype send_pos = Sp_Waiting | Sp_Sending u32 bool | Sp_Written bool | Sp_Returned | Sp_Failed | Sp_Done

text \<open>
  The table, the counters and the connections of \<^verbatim>\<open>struct sshfs\<close>, the requests in memory, what the thread of a connection has taken out of the
  table and not yet handed over, where the senders are, and the calls of end functions.
\<close>

record session =
  sq_heap :: "nat \<rightharpoonup> sftp_req"
  reqtab :: "(u32 \<times> nat) list"
  outstanding_len :: u32
  max_outstanding_len :: u32
  idctr :: u32
  started :: "nat \<Rightarrow> bool"
  req_counts :: "nat \<Rightarrow> int"
  conn_vers :: "nat \<Rightarrow> int"
  connvers :: int
  taken :: "nat \<Rightarrow> (nat \<times> u8 \<times> buffer) option"
  senders :: "nat \<rightharpoonup> send_pos"
  ended :: "(nat \<times> sftp_req) list"

definition session_init :: "u32 \<Rightarrow> session" where
  "session_init m = \<lparr>sq_heap = Map.empty, reqtab = [], outstanding_len = 0, max_outstanding_len = m, idctr = 0, started = (\<lambda>_. False),
     req_counts = (\<lambda>_. 0), conn_vers = (\<lambda>_. 0), connvers = 0, taken = (\<lambda>_. None), senders = Map.empty, ended = []\<rparr>"

definition get_req :: "nat \<Rightarrow> session \<Rightarrow> sftp_req cres" where
  "get_req p s = (case sq_heap s p of Some q \<Rightarrow> Ret q | None \<Rightarrow> Undef Use_After_Free)"

definition put_req :: "nat \<Rightarrow> sftp_req \<Rightarrow> session \<Rightarrow> session" where
  "put_req p q s = s\<lparr>sq_heap := (sq_heap s)(p \<mapsto> q)\<rparr>"

definition set_pos :: "nat \<Rightarrow> send_pos \<Rightarrow> session \<Rightarrow> session" where
  "set_pos p t s = s\<lparr>senders := (senders s)(p \<mapsto> t)\<rparr>"

definition set_error :: "int \<Rightarrow> sftp_req \<Rightarrow> sftp_req" where
  "set_error err q = q\<lparr>sq_rq := (sq_rq q)\<lparr>rq_error := err\<rparr>\<rparr>"

section \<open>Steps\<close>

definition request_free :: "nat \<Rightarrow> session \<Rightarrow> session cres" where
  "request_free p s =
     cmap (\<lambda>q. s\<lparr>sq_heap := (sq_heap s)(p := None), req_counts := (req_counts s)(sq_conn q := req_counts s (sq_conn q) - 1)\<rparr>) (get_req p s)"

text \<open>The end of a request: its end function, if it has one, and freeing it.\<close>

definition end_request :: "nat \<Rightarrow> session \<Rightarrow> session cres" where
  "end_request p s =
     cbind (get_req p s) (\<lambda>q. request_free p (if sq_func q then s\<lparr>ended := ended s @ [(p, q)]\<rparr> else s))"

definition sftp_get_id :: "session \<Rightarrow> u32 \<times> session" where
  "sftp_get_id s = (idctr s, s\<lparr>idctr := idctr s + 1\<rparr>)"

text \<open>\<open>connect\<close> is the result of connecting and of creating the thread.\<close>

definition start_processing_thread :: "nat \<Rightarrow> int \<Rightarrow> session \<Rightarrow> int \<times> session" where
  "start_processing_thread c connect s =
     (if started s c then (0, s)
      else if connect \<noteq> 0 then (- EIO, s)
      else (0, s\<lparr>started := (started s)(c := True)\<rparr>))"

text \<open>\<^verbatim>\<open>sftp_request_send\<close>: its end after an error, entering the request into the table, and its start.\<close>

definition send_error :: "nat \<Rightarrow> bool \<Rightarrow> int \<Rightarrow> session \<Rightarrow> session cres" where
  "send_error p want_reply err s =
     cbind (get_req p s) (\<lambda>q.
     let s1 = put_req p (set_error err q) s in
     if want_reply then Ret (set_pos p Sp_Failed s1) else end_request p (set_pos p Sp_Done s1))"

definition send_insert :: "nat \<Rightarrow> session \<Rightarrow> session cres" where
  "send_insert p s =
     cmap (\<lambda>q. set_pos p (Sp_Sending (sq_id q) (sq_want q)) (s\<lparr>reqtab := (sq_id q, p) # filter (\<lambda>(i, _). i \<noteq> sq_id q) (reqtab s)\<rparr>)) (get_req p s)"

definition send_begin :: "nat \<Rightarrow> nat \<Rightarrow> bool \<Rightarrow> bool \<Rightarrow> u32 \<Rightarrow> int \<Rightarrow> session \<Rightarrow> session cres" where
  "send_begin p c want_reply func len connect s =
     (case sftp_get_id s of (ident, s1) \<Rightarrow>
      let q = \<lparr>sq_id = ident, sq_len = len, sq_conn = c, sq_want = want_reply, sq_func = func, sq_posted = False,
                sq_rq = \<lparr>rq_error = 0, rq_replied = False, rq_reply_type = 0, rq_reply = buf_init 0\<rparr>\<rparr>;
          s2 = (put_req p q s1)\<lparr>req_counts := (req_counts s1)(c := req_counts s1 c + 1)\<rparr>
      in case start_processing_thread c connect s2 of (err, s3) \<Rightarrow>
         if err \<noteq> 0 then send_error p want_reply err s3
         else
           let s4 = s3\<lparr>outstanding_len := outstanding_len s3 + len\<rparr> in
           if outstanding_len s4 > max_outstanding_len s4 then Ret (set_pos p Sp_Waiting s4) else send_insert p s4)"

text \<open>The message could not be sent.\<close>

definition send_fail :: "nat \<Rightarrow> u32 \<Rightarrow> bool \<Rightarrow> session \<Rightarrow> session cres" where
  "send_fail p ident want_reply s =
     (let rmed = (map_of (reqtab s) ident \<noteq> None); s1 = s\<lparr>reqtab := filter (\<lambda>(i, _). i \<noteq> ident) (reqtab s)\<rparr> in
      if \<not> rmed \<and> \<not> want_reply then Ret (set_pos p Sp_Done s1) else send_error p want_reply (- EIO) s1)"

text \<open>\<^verbatim>\<open>process_one_request\<close> up to the end of its first critical section, for a message that was read, and the rest of it.\<close>

definition take_request :: "nat \<Rightarrow> u8 \<Rightarrow> buffer \<Rightarrow> session \<Rightarrow> (int \<times> session) cres" where
  "take_request c typ buf s =
     cbind (buf_get_uint32 buf) (\<lambda>(ident, buf1).
     case ident of
       None \<Rightarrow> Ret (- 1, s)
     | Some ident \<Rightarrow>
         (case map_of (reqtab s) ident of
            None \<Rightarrow> Ret (0, s)
          | Some p \<Rightarrow>
              cmap (\<lambda>q. (0, s\<lparr>outstanding_len := outstanding_len s - sq_len q, reqtab := filter (\<lambda>(i, _). i \<noteq> ident) (reqtab s),
                taken := (taken s)(c := Some (p, typ, buf1))\<rparr>)) (get_req p s)))"

definition hand_over :: "nat \<Rightarrow> nat \<Rightarrow> u8 \<Rightarrow> buffer \<Rightarrow> session \<Rightarrow> session cres" where
  "hand_over c p typ buf s =
     cbind (get_req p s) (\<lambda>q.
     let q1 = q\<lparr>sq_rq := (sq_rq q)\<lparr>rq_replied := True, rq_reply_type := typ, rq_reply := buf\<rparr>\<rparr>;
         s1 = s\<lparr>taken := (taken s)(c := None)\<rparr>
     in if sq_want q then Ret (put_req p (q1\<lparr>sq_posted := True\<rparr>) s1) else end_request p (put_req p q1 s1))"

text \<open>The end of a connection: its requests in the table fail.\<close>

primrec clean_reqs :: "nat \<Rightarrow> (u32 \<times> nat) list \<Rightarrow> session \<Rightarrow> ((u32 \<times> nat) list \<times> session) cres" where
  "clean_reqs c [] s = Ret ([], s)"
| "clean_reqs c (e # tab) s =
     cbind (get_req (snd e) s) (\<lambda>q.
     if sq_conn q \<noteq> c then cmap (\<lambda>(kept, s1). (e # kept, s1)) (clean_reqs c tab s)
     else
       let q1 = set_error (- EIO) q in
       if sq_want q then clean_reqs c tab (put_req (snd e) (q1\<lparr>sq_posted := True\<rparr>) s)
       else cbind (end_request (snd e) (put_req (snd e) q1 s)) (clean_reqs c tab))"

definition process_end :: "nat \<Rightarrow> session \<Rightarrow> session cres" where
  "process_end c s =
     cmap (\<lambda>(kept, s1). s1\<lparr>reqtab := kept, connvers := connvers s1 + 1, conn_vers := (conn_vers s1)(c := connvers s1 + 1), outstanding_len := 0\<rparr>)
       (clean_reqs c (reqtab s) (s\<lparr>started := (started s)(c := False)\<rparr>))"

text \<open>\<^verbatim>\<open>sftp_readdir_async\<close> gives up a request that it no longer needs if it is still in the table.\<close>

definition sshfs_req_pending :: "sftp_req \<Rightarrow> session \<Rightarrow> bool" where
  "sshfs_req_pending q s \<longleftrightarrow> map_of (reqtab s) (sq_id q) \<noteq> None"

definition give_up :: "nat \<Rightarrow> session \<Rightarrow> session cres" where
  "give_up p s =
     cmap (\<lambda>q. if sshfs_req_pending q s then set_pos p Sp_Done (put_req p (q\<lparr>sq_want := False\<rparr>) s) else s) (get_req p s)"

text \<open>\<^verbatim>\<open>sftp_request_wait\<close> once it need not wait any more.\<close>

definition wait_end :: "nat \<Rightarrow> u8 \<Rightarrow> u8 \<Rightarrow> session \<Rightarrow> ((int \<times> buffer option) \<times> session) cres" where
  "wait_end p typ expect_type s =
     cbind (get_req p s) (\<lambda>q.
     cbind (sftp_request_wait (rq_error (sq_rq q)) (sq_rq q) typ expect_type) (\<lambda>r.
     cmap (\<lambda>s1. (r, set_pos p Sp_Done s1)) (end_request p s)))"

section \<open>Runs\<close>

text \<open>
  The steps of the threads: a send that starts, is woken up, has put its last byte on the connection, returns, or fails; the thread of a
  connection that takes a reply, hands it over, or ends; a caller that gives up a request, or gets its result.
\<close>

datatype session_op =
    Send_Begin nat nat bool bool u32 int
  | Send_Wake nat
  | Send_Written nat
  | Send_Return nat
  | Send_Fail nat
  | Reply_Take nat u8 buffer
  | Reply_Hand nat
  | Conn_End nat
  | Give_Up nat
  | Wait_End nat u8 u8

fun session_step :: "session_op \<Rightarrow> session \<Rightarrow> ((int \<times> buffer option) option \<times> session) cres" where
  "session_step (Send_Begin p c want func len connect) s = cmap (Pair None) (send_begin p c want func len connect s)"
| "session_step (Send_Wake p) s = cmap (Pair None) (send_insert p s)"
| "session_step (Send_Written p) s =
     (case senders s p of Some (Sp_Sending i w) \<Rightarrow> Ret (None, set_pos p (Sp_Written w) s) | _ \<Rightarrow> Ret (None, s))"
| "session_step (Send_Return p) s =
     (case senders s p of Some (Sp_Written w) \<Rightarrow> Ret (None, set_pos p (if w then Sp_Returned else Sp_Done) s) | _ \<Rightarrow> Ret (None, s))"
| "session_step (Send_Fail p) s =
     (case senders s p of Some (Sp_Sending i w) \<Rightarrow> cmap (Pair None) (send_fail p i w s) | _ \<Rightarrow> Ret (None, s))"
| "session_step (Reply_Take c typ buf) s = cmap (\<lambda>(_, s1). (None, s1)) (take_request c typ buf s)"
| "session_step (Reply_Hand c) s =
     (case taken s c of Some (p, typ, buf) \<Rightarrow> cmap (Pair None) (hand_over c p typ buf s) | None \<Rightarrow> Ret (None, s))"
| "session_step (Conn_End c) s = cmap (Pair None) (process_end c s)"
| "session_step (Give_Up p) s = cmap (Pair None) (give_up p s)"
| "session_step (Wait_End p typ expect) s = cmap (\<lambda>(r, s1). (Some r, s1)) (wait_end p typ expect s)"

text \<open>
  When a step can happen. The addresses of requests are new. A reply comes on the connection of its request, and only after the whole
  message was sent; that is what a server does. A caller waits until the semaphore is posted or an error is set.
\<close>

definition answerable :: "nat \<Rightarrow> nat \<Rightarrow> session \<Rightarrow> bool" where
  "answerable c p s \<longleftrightarrow> (\<exists>q. sq_heap s p = Some q \<and> sq_conn q = c) \<and> (\<forall>i w. senders s p \<noteq> Some (Sp_Sending i w))"

definition reply_ok :: "nat \<Rightarrow> buffer \<Rightarrow> session \<Rightarrow> bool" where
  "reply_ok c buf s \<longleftrightarrow> buf_wf buf \<and>
     (case buf_get_uint32 buf of
        Ret (Some ident, _) \<Rightarrow> (case map_of (reqtab s) ident of Some p \<Rightarrow> answerable c p s | None \<Rightarrow> True)
      | _ \<Rightarrow> True)"

definition wait_over :: "sftp_req \<Rightarrow> bool" where
  "wait_over q \<longleftrightarrow> sq_posted q \<or> rq_error (sq_rq q) \<noteq> 0"

fun session_enabled :: "session_op \<Rightarrow> session \<Rightarrow> bool" where
  "session_enabled (Send_Begin p c want func len connect) s \<longleftrightarrow> senders s p = None"
| "session_enabled (Send_Wake p) s \<longleftrightarrow> senders s p = Some Sp_Waiting \<and> outstanding_len s \<le> max_outstanding_len s"
| "session_enabled (Send_Written p) s \<longleftrightarrow> (\<exists>i w. senders s p = Some (Sp_Sending i w))"
| "session_enabled (Send_Return p) s \<longleftrightarrow> (\<exists>w. senders s p = Some (Sp_Written w))"
| "session_enabled (Send_Fail p) s \<longleftrightarrow> (\<exists>i w. senders s p = Some (Sp_Sending i w))"
| "session_enabled (Reply_Take c typ buf) s \<longleftrightarrow> started s c \<and> taken s c = None \<and> reply_ok c buf s"
| "session_enabled (Reply_Hand c) s \<longleftrightarrow> taken s c \<noteq> None"
| "session_enabled (Conn_End c) s \<longleftrightarrow> started s c \<and> taken s c = None"
| "session_enabled (Give_Up p) s \<longleftrightarrow> senders s p = Some Sp_Returned"
| "session_enabled (Wait_End p typ expect) s \<longleftrightarrow>
     senders s p = Some Sp_Failed \<or> senders s p = Some Sp_Returned \<and> (case sq_heap s p of Some q \<Rightarrow> wait_over q | None \<Rightarrow> True)"

inductive session_run :: "u32 \<Rightarrow> (session_op \<times> (int \<times> buffer option) option) list \<Rightarrow> session \<Rightarrow> bool" for m where
  run_init: "session_run m [] (session_init m)"
| run_step: "session_run m tr s \<Longrightarrow> session_enabled x s \<Longrightarrow> session_step x s = Ret (r, s') \<Longrightarrow> session_run m (tr @ [(x, r)]) s'"

section \<open>The invariant\<close>

text \<open>
  Where a request is: in the table, taken out of it by the thread of a connection, or neither. What is allowed for a request, given where
  its sender is; an idle request has neither a reply nor an error.
\<close>

datatype req_place = In_Table | Taken | Outside

definition place :: "session \<Rightarrow> nat \<Rightarrow> req_place" where
  "place s p = (if p \<in> snd ` set (reqtab s) then In_Table else if \<exists>c t b. taken s c = Some (p, t, b) then Taken else Outside)"

definition idle :: "sftp_req \<Rightarrow> bool" where
  "idle q \<longleftrightarrow> \<not> sq_posted q \<and> rq_error (sq_rq q) = 0 \<and> \<not> rq_replied (sq_rq q)"

fun allowed :: "send_pos option \<Rightarrow> req_place \<Rightarrow> sftp_req option \<Rightarrow> bool" where
  "allowed None Outside None = True"
| "allowed (Some Sp_Waiting) Outside (Some q) = idle q"
| "allowed (Some (Sp_Sending i w)) In_Table (Some q) = (idle q \<and> sq_want q = w \<and> sq_id q = i)"
| "allowed (Some (Sp_Sending i w)) Outside (Some q) = (w \<and> sq_want q \<and> sq_id q = i \<and> wait_over q)"
| "allowed (Some (Sp_Sending i w)) Outside None = (\<not> w)"
| "allowed (Some (Sp_Written w)) In_Table (Some q) = (idle q \<and> sq_want q = w)"
| "allowed (Some (Sp_Written w)) Taken (Some q) = (idle q \<and> sq_want q = w)"
| "allowed (Some (Sp_Written w)) Outside (Some q) = (w \<and> sq_want q \<and> wait_over q)"
| "allowed (Some (Sp_Written w)) Outside None = (\<not> w)"
| "allowed (Some Sp_Returned) In_Table (Some q) = (idle q \<and> sq_want q)"
| "allowed (Some Sp_Returned) Taken (Some q) = (idle q \<and> sq_want q)"
| "allowed (Some Sp_Returned) Outside (Some q) = (sq_want q \<and> wait_over q)"
| "allowed (Some Sp_Failed) Outside (Some q) = True"
| "allowed (Some Sp_Done) In_Table (Some q) = (idle q \<and> \<not> sq_want q)"
| "allowed (Some Sp_Done) Taken (Some q) = (idle q \<and> \<not> sq_want q)"
| "allowed (Some Sp_Done) Outside None = True"
| "allowed _ _ _ = False"

definition table_ok :: "session \<Rightarrow> bool" where
  "table_ok s \<longleftrightarrow> distinct (map fst (reqtab s)) \<and> distinct (map snd (reqtab s)) \<and>
     (\<forall>(i, p) \<in> set (reqtab s). \<exists>q. sq_heap s p = Some q \<and> sq_id q = i)"

definition taken_ok :: "session \<Rightarrow> bool" where
  "taken_ok s \<longleftrightarrow> (\<forall>c p t b. taken s c = Some (p, t, b) \<longrightarrow>
     buf_wf b \<and> p \<notin> snd ` set (reqtab s) \<and> (\<exists>q. sq_heap s p = Some q \<and> sq_conn q = c))"

definition ids_ok :: "nat \<Rightarrow> session \<Rightarrow> bool" where
  "ids_ok n s \<longleftrightarrow> idctr s = of_nat n \<and> (\<forall>p q. sq_heap s p = Some q \<longrightarrow> unat (sq_id q) < n \<and> buf_wf (rq_reply (sq_rq q))) \<and>
     (\<forall>p q p' q'. sq_heap s p = Some q \<and> sq_heap s p' = Some q' \<and> sq_id q = sq_id q' \<longrightarrow> p = p') \<and>
     (\<forall>p i w. senders s p = Some (Sp_Sending i w) \<longrightarrow> unat i < n \<and> (\<forall>p' q. sq_heap s p' = Some q \<and> sq_id q = i \<longrightarrow> p' = p))"

definition on_conn :: "session \<Rightarrow> nat \<Rightarrow> nat set" where
  "on_conn s c = {p. \<exists>q. sq_heap s p = Some q \<and> sq_conn q = c}"

definition counts_ok :: "session \<Rightarrow> bool" where
  "counts_ok s \<longleftrightarrow> finite (dom (sq_heap s)) \<and> (\<forall>c. req_counts s c = int (card (on_conn s c)))"

definition ended_ok :: "session \<Rightarrow> bool" where
  "ended_ok s \<longleftrightarrow> distinct (map fst (ended s)) \<and> (\<forall>p \<in> fst ` set (ended s). sq_heap s p = None \<and> senders s p \<noteq> None)"

text \<open>
  What a run leaves behind: a reply that a request has came with the number of the request; and a request with an end function has ended if
  and only if it is freed.
\<close>

type_synonym session_trace = "(session_op \<times> (int \<times> buffer option) option) list"

definition came :: "session_trace \<Rightarrow> u32 \<Rightarrow> u8 \<Rightarrow> buffer \<Rightarrow> bool" where
  "came tr i t b \<longleftrightarrow> (\<exists>c b0. Reply_Take c t b0 \<in> fst ` set tr \<and> buf_get_uint32 b0 = Ret (Some i, b))"

definition reply_came :: "session_trace \<Rightarrow> sftp_req \<Rightarrow> bool" where
  "reply_came tr q \<longleftrightarrow> (rq_replied (sq_rq q) \<longrightarrow> came tr (sq_id q) (rq_reply_type (sq_rq q)) (rq_reply (sq_rq q)))"

definition replies_ok :: "session_trace \<Rightarrow> session \<Rightarrow> bool" where
  "replies_ok tr s \<longleftrightarrow> (\<forall>p q. sq_heap s p = Some q \<longrightarrow> reply_came tr q) \<and> (\<forall>(p, q) \<in> set (ended s). reply_came tr q) \<and>
     (\<forall>c p t b q. taken s c = Some (p, t, b) \<and> sq_heap s p = Some q \<longrightarrow> came tr (sq_id q) t b)"

definition begun :: "session_trace \<Rightarrow> nat \<Rightarrow> bool \<Rightarrow> bool" where
  "begun tr p f \<longleftrightarrow> (\<exists>c w l k. Send_Begin p c w f l k \<in> fst ` set tr)"

definition func_ok :: "session \<Rightarrow> nat \<Rightarrow> bool \<Rightarrow> bool" where
  "func_ok s p f \<longleftrightarrow> (\<forall>q. sq_heap s p = Some q \<longrightarrow> sq_func q = f) \<and> (sq_heap s p = None \<longrightarrow> (f \<longleftrightarrow> p \<in> fst ` set (ended s)))"

definition history_ok :: "session_trace \<Rightarrow> session \<Rightarrow> bool" where
  "history_ok tr s \<longleftrightarrow> replies_ok tr s \<and> (\<forall>p f. begun tr p f \<longrightarrow> senders s p \<noteq> None \<and> func_ok s p f)"

definition session_inv :: "session_trace \<Rightarrow> nat \<Rightarrow> session \<Rightarrow> bool" where
  "session_inv tr n s \<longleftrightarrow> (\<forall>p. allowed (senders s p) (place s p) (sq_heap s p)) \<and> table_ok s \<and> taken_ok s \<and> ids_ok n s \<and> counts_ok s \<and> ended_ok s \<and> history_ok tr s"

lemma session_init_inv: "session_inv [] 0 (session_init m)"
  by (simp add: session_inv_def session_init_def place_def table_ok_def taken_ok_def ids_ok_def counts_ok_def ended_ok_def on_conn_def
      history_ok_def replies_ok_def begun_def)

lemma allowed_cases:
  assumes "session_inv tr n s"
  shows "allowed (senders s p) (place s p) (sq_heap s p)"
  using assms by (simp add: session_inv_def)

lemma allowed_None: "allowed None pl h \<longleftrightarrow> pl = Outside \<and> h = None"
  by (cases pl; cases h) auto

lemma allowed_Taken:
  "allowed t Taken h \<longleftrightarrow> (\<exists>q. h = Some q \<and> idle q \<and> (\<exists>w. sq_want q = w \<and> (t = Some (Sp_Written w) \<or> t = Some Sp_Returned \<and> w \<or> t = Some Sp_Done \<and> \<not> w)))"
  by (cases "(t, Taken, h)" rule: allowed.cases) auto

lemma allowed_In_Table:
  "allowed t In_Table h \<longleftrightarrow>
     allowed t Taken h \<or> (\<exists>q. h = Some q \<and> idle q \<and> t = Some (Sp_Sending (sq_id q) (sq_want q)))"
  by (cases "(t, In_Table, h)" rule: allowed.cases) auto


lemma place_simps:
  "place s p = In_Table \<longleftrightarrow> p \<in> snd ` set (reqtab s)"
  "place s p = Taken \<longleftrightarrow> p \<notin> snd ` set (reqtab s) \<and> (\<exists>c t b. taken s c = Some (p, t, b))"
  "place s p = Outside \<longleftrightarrow> p \<notin> snd ` set (reqtab s) \<and> (\<forall>c t b. taken s c \<noteq> Some (p, t, b))"
  by (auto simp: place_def)

lemma place_cong: "reqtab s' = reqtab s \<Longrightarrow> taken s' = taken s \<Longrightarrow> place s' p = place s p"
  by (simp add: place_def)

text \<open>The state after a request has ended.\<close>

definition after_end :: "nat \<Rightarrow> sftp_req \<Rightarrow> session \<Rightarrow> session" where
  "after_end p q s = s\<lparr>sq_heap := (sq_heap s)(p := None), req_counts := (req_counts s)(sq_conn q := req_counts s (sq_conn q) - 1),
     ended := ended s @ (if sq_func q then [(p, q)] else [])\<rparr>"

lemma end_request_eq: "sq_heap s p = Some q \<Longrightarrow> end_request p s = Ret (after_end p q s)"
  by (simp add: end_request_def request_free_def get_req_def after_end_def)

lemma after_end_simps [simp]:
  "sq_heap (after_end p q s) = (sq_heap s)(p := None)" "reqtab (after_end p q s) = reqtab s" "taken (after_end p q s) = taken s"
  "senders (after_end p q s) = senders s" "idctr (after_end p q s) = idctr s" "started (after_end p q s) = started s"
  "ended (after_end p q s) = ended s @ (if sq_func q then [(p, q)] else [])"
  by (simp_all add: after_end_def)

lemma put_req_simps [simp]:
  "sq_heap (put_req p q s) = (sq_heap s)(p \<mapsto> q)" "reqtab (put_req p q s) = reqtab s" "taken (put_req p q s) = taken s"
  "senders (put_req p q s) = senders s" "idctr (put_req p q s) = idctr s" "ended (put_req p q s) = ended s" "started (put_req p q s) = started s"
  "req_counts (put_req p q s) = req_counts s"
  by (simp_all add: put_req_def)

lemma set_pos_simps [simp]:
  "sq_heap (set_pos p t s) = sq_heap s" "reqtab (set_pos p t s) = reqtab s" "taken (set_pos p t s) = taken s"
  "senders (set_pos p t s) = (senders s)(p \<mapsto> t)" "idctr (set_pos p t s) = idctr s" "ended (set_pos p t s) = ended s" "started (set_pos p t s) = started s"
  "req_counts (set_pos p t s) = req_counts s"
  by (simp_all add: set_pos_def)

lemma set_error_simps [simp]:
  "sq_conn (set_error e q) = sq_conn q" "sq_id (set_error e q) = sq_id q" "sq_want (set_error e q) = sq_want q" "sq_func (set_error e q) = sq_func q"
  "sq_rq (set_error e q) = (sq_rq q)\<lparr>rq_error := e\<rparr>"
  by (simp_all add: set_error_def)

text \<open>The parts of the invariant depend on these fields only.\<close>

lemma table_ok_cong: "reqtab s' = reqtab s \<Longrightarrow> sq_heap s' = sq_heap s \<Longrightarrow> table_ok s' = table_ok s"
  by (simp add: table_ok_def)

lemma taken_ok_cong: "reqtab s' = reqtab s \<Longrightarrow> sq_heap s' = sq_heap s \<Longrightarrow> taken s' = taken s \<Longrightarrow> taken_ok s' = taken_ok s"
  by (simp add: taken_ok_def)

lemma ids_ok_cong: "idctr s' = idctr s \<Longrightarrow> senders s' = senders s \<Longrightarrow> sq_heap s' = sq_heap s \<Longrightarrow> ids_ok n s' = ids_ok n s"
  by (simp add: ids_ok_def)

lemma ids_okD:
  assumes "ids_ok n s"
  shows "sq_heap s p = Some q \<Longrightarrow> unat (sq_id q) < n" "sq_heap s p = Some q \<Longrightarrow> buf_wf (rq_reply (sq_rq q))"
    and "sq_heap s p = Some q \<Longrightarrow> sq_heap s p' = Some q' \<Longrightarrow> sq_id q = sq_id q' \<Longrightarrow> p = p'"
    and "senders s p = Some (Sp_Sending i w) \<Longrightarrow> unat i < n"
    and "senders s p = Some (Sp_Sending i w) \<Longrightarrow> sq_heap s p' = Some q \<Longrightarrow> sq_id q = i \<Longrightarrow> p' = p"
  using assms unfolding ids_ok_def by blast+

lemma counts_ok_cong: "req_counts s' = req_counts s \<Longrightarrow> sq_heap s' = sq_heap s \<Longrightarrow> counts_ok s' = counts_ok s"
  by (simp add: counts_ok_def on_conn_def)

text \<open>Changing a request, and ending one that is neither in the table nor taken.\<close>

lemma counts_put:
  assumes "counts_ok s" "sq_heap s p = Some q" "sq_conn q' = sq_conn q"
  shows "counts_ok (put_req p q' s)"
proof -
  have "on_conn (put_req p q' s) c = on_conn s c" for c
    using assms(2,3) by (auto simp: on_conn_def)
  then show ?thesis using assms(1) by (simp add: counts_ok_def)
qed

lemma counts_after_end:
  assumes "counts_ok s" "sq_heap s p = Some q"
  shows "counts_ok (after_end p q s)"
proof -
  have 1: "on_conn (after_end p q s) c = on_conn s c - {p}" for c by (auto simp: on_conn_def)
  have f: "finite (on_conn s c)" for c
    using assms(1) by (rule_tac finite_subset [of _ "dom (sq_heap s)"]) (auto simp: on_conn_def counts_ok_def)
  have 2: "p \<in> on_conn s c \<longleftrightarrow> c = sq_conn q" for c using assms(2) by (auto simp: on_conn_def)
  have "card (on_conn s (sq_conn q)) \<noteq> 0" using f [of "sq_conn q"] 2 [of "sq_conn q"] by auto
  then have "int (card (on_conn s c - {p})) = int (card (on_conn s c)) - (if c = sq_conn q then 1 else 0)" for c
    using f [of c] 2 [of c] by (auto simp: card_Diff_singleton_if)
  then show ?thesis using assms(1) by (simp add: counts_ok_def 1) (simp add: after_end_def)
qed

text \<open>The invariant but for what is allowed for one request, which a step works on.\<close>

definition history_but :: "session_trace \<Rightarrow> nat \<Rightarrow> session \<Rightarrow> bool" where
  "history_but tr p s \<longleftrightarrow> replies_ok tr s \<and> (\<forall>p' f. begun tr p' f \<longrightarrow> (p' \<noteq> p \<longrightarrow> senders s p' \<noteq> None) \<and> func_ok s p' f)"

definition inv_but :: "session_trace \<Rightarrow> nat \<Rightarrow> nat \<Rightarrow> session \<Rightarrow> bool" where
  "inv_but tr p n s \<longleftrightarrow> (\<forall>p'. p' \<noteq> p \<longrightarrow> allowed (senders s p') (place s p') (sq_heap s p')) \<and>
     table_ok s \<and> taken_ok s \<and> ids_ok n s \<and> counts_ok s \<and> ended_ok s \<and> history_but tr p s"

lemma history_ok_but: "history_ok tr s \<longleftrightarrow> history_but tr p s \<and> ((\<exists>f. begun tr p f) \<longrightarrow> senders s p \<noteq> None)"
  unfolding history_ok_def history_but_def by metis

lemma session_inv_but:
  "session_inv tr n s \<longleftrightarrow> inv_but tr p n s \<and> allowed (senders s p) (place s p) (sq_heap s p) \<and> ((\<exists>f. begun tr p f) \<longrightarrow> senders s p \<noteq> None)"
  by (auto simp: session_inv_def inv_but_def history_ok_but [of tr s p])

lemma inv_butD:
  assumes "inv_but tr p n s"
  shows "table_ok s" "taken_ok s" "ids_ok n s" "counts_ok s" "ended_ok s" "history_but tr p s"
    and "p' \<noteq> p \<Longrightarrow> allowed (senders s p') (place s p') (sq_heap s p')"
  using assms unfolding inv_but_def by blast+

lemma inv_butI:
  assumes "\<And>p'. p' \<noteq> p \<Longrightarrow> allowed (senders s p') (place s p') (sq_heap s p')" "table_ok s" "taken_ok s" "ids_ok n s" "counts_ok s" "ended_ok s"
    and "history_but tr p s"
  shows "inv_but tr p n s"
  using assms unfolding inv_but_def by blast

lemma reply_came_simps [simp]:
  "reply_came tr (set_error e q) = reply_came tr q" "reply_came tr (q\<lparr>sq_posted := b\<rparr>) = reply_came tr q" "reply_came tr (q\<lparr>sq_want := b\<rparr>) = reply_came tr q"
  by (simp_all add: reply_came_def)

lemma history_but_cong:
  "sq_heap s' = sq_heap s \<Longrightarrow> taken s' = taken s \<Longrightarrow> senders s' = senders s \<Longrightarrow> ended s' = ended s \<Longrightarrow> history_but tr p s' = history_but tr p s"
  by (simp add: history_but_def replies_ok_def func_ok_def)

lemma history_put:
  assumes "history_but tr p s" "sq_heap s p = Some q" "sq_id q' = sq_id q" "sq_func q' = sq_func q" "reply_came tr q'"
  shows "history_but tr p (put_req p q' s)"
proof -
  have "replies_ok tr (put_req p q' s)" using assms by (fastforce simp: history_but_def replies_ok_def)
  moreover have "func_ok (put_req p q' s) p' f = func_ok s p' f" for p' f using assms(2,4) by (auto simp: func_ok_def)
  ultimately show ?thesis using assms(1) by (simp add: history_but_def)
qed

lemma history_end:
  assumes "history_but tr p s" "ended_ok s" "sq_heap s p = Some q"
  shows "history_but tr p (after_end p q s)"
proof -
  have "replies_ok tr (after_end p q s)" using assms(1,3) by (force simp: history_but_def replies_ok_def)
  moreover have "func_ok s p' f \<Longrightarrow> func_ok (after_end p q s) p' f" for p' f using assms(2,3) by (auto simp: func_ok_def ended_ok_def)
  ultimately show ?thesis using assms(1) by (simp add: history_but_def)
qed

lemma history_pos: "history_but tr p s \<Longrightarrow> history_but tr p (set_pos p t s)"
  by (auto simp: history_but_def replies_ok_def func_ok_def)

lemma inv_but_put:
  assumes "inv_but tr p n s" "sq_heap s p = Some q" "sq_conn q' = sq_conn q" "sq_id q' = sq_id q" "buf_wf (rq_reply (sq_rq q'))"
    and "sq_func q' = sq_func q" "reply_came tr q'"
  shows "inv_but tr p n (put_req p q' s)"
proof (rule inv_butI)
  note i = inv_butD [OF assms(1)]
  show "table_ok (put_req p q' s)" using i(1) assms(2,4) by (auto simp: table_ok_def split_beta)
  show "taken_ok (put_req p q' s)" using i(2) assms(2,3) by (fastforce simp: taken_ok_def)
  have "ids_ok n s" by (rule i)
  then show "ids_ok n (put_req p q' s)" using assms(2,4,5) by (auto simp: ids_ok_def)
  show "counts_ok (put_req p q' s)" using i(4) assms(2,3) by (rule counts_put)
  show "ended_ok (put_req p q' s)" using i(5) assms(2) by (auto simp: ended_ok_def)
  show "history_but tr p (put_req p q' s)" using i(6) assms(2,4,6,7) by (rule history_put)
  show "allowed (senders (put_req p q' s) p') (place (put_req p q' s) p') (sq_heap (put_req p q' s) p')" if "p' \<noteq> p" for p'
    using i(7) [OF that] that place_cong [of "put_req p q' s" s] by simp
qed

lemma inv_but_end:
  assumes "inv_but tr p n s" "sq_heap s p = Some q" "place s p = Outside" "senders s p \<noteq> None"
  shows "inv_but tr p n (after_end p q s)"
proof (rule inv_butI)
  note i = inv_butD [OF assms(1)]
  show "table_ok (after_end p q s)" using i(1) assms(3) by (force simp: table_ok_def place_simps)
  show "taken_ok (after_end p q s)" using i(2) assms(3) by (auto simp: taken_ok_def place_simps)
  have "ids_ok n s" by (rule i)
  then show "ids_ok n (after_end p q s)" by (auto simp: ids_ok_def)
  show "counts_ok (after_end p q s)" using i(4) assms(2) by (rule counts_after_end)
  show "ended_ok (after_end p q s)" using i(5) assms(2,4) by (force simp: ended_ok_def)
  show "history_but tr p (after_end p q s)" using i(6,5) assms(2) by (rule history_end)
  show "allowed (senders (after_end p q s) p') (place (after_end p q s) p') (sq_heap (after_end p q s) p')" if "p' \<noteq> p" for p'
    using i(7) [OF that] that place_cong [of "after_end p q s" s] by simp
qed

lemma inv_but_pos:
  assumes "inv_but tr p n s" "\<And>i w. t = Sp_Sending i w \<Longrightarrow> \<exists>q. sq_heap s p = Some q \<and> sq_id q = i"
  shows "inv_but tr p n (set_pos p t s)"
proof (rule inv_butI)
  note i = inv_butD [OF assms(1)]
  show "ids_ok n (set_pos p t s)"
    unfolding ids_ok_def set_pos_simps
  proof (intro conjI allI impI)
    fix p1 j w assume "((senders s)(p \<mapsto> t)) p1 = Some (Sp_Sending j w)"
    then have "senders s p1 = Some (Sp_Sending j w) \<or> p1 = p \<and> (\<exists>q. sq_heap s p = Some q \<and> sq_id q = j)"
      using assms(2) by (auto split: if_splits)
    then show "unat j < n" "\<And>p2 q. sq_heap s p2 = Some q \<and> sq_id q = j \<Longrightarrow> p2 = p1" using ids_okD [OF i(3)] by blast+
  qed (use i(3) in \<open>auto simp: ids_ok_def\<close>)
  show "ended_ok (set_pos p t s)" using i(5) by (auto simp: ended_ok_def)
  show "history_but tr p (set_pos p t s)" using i(6) by (rule history_pos)
  show "allowed (senders (set_pos p t s) p') (place (set_pos p t s) p') (sq_heap (set_pos p t s) p')" if "p' \<noteq> p" for p'
    using i(7) [OF that] that place_cong [of "set_pos p t s" s] by simp
qed (use inv_butD [OF assms(1)] in \<open>simp_all add: taken_ok_cong [of "set_pos p t s" s] table_ok_cong [of "set_pos p t s" s] counts_ok_cong [of "set_pos p t s" s]\<close>)

lemma inv_but_drop:
  assumes "inv_but tr p n s" "reqtab s = pre @ (i, p) # post"
  shows "inv_but tr p n (s\<lparr>reqtab := pre @ post\<rparr>)" "\<And>c t b. taken s c \<noteq> Some (p, t, b)"
proof -
  note i = assms(1) [unfolded inv_but_def]
  have "place (s\<lparr>reqtab := pre @ post\<rparr>) p' = place s p'" if "p' \<noteq> p" for p' using that assms(2) by (auto simp: place_def)
  then show "inv_but tr p n (s\<lparr>reqtab := pre @ post\<rparr>)"
    using i assms(2) history_but_cong [of "s\<lparr>reqtab := pre @ post\<rparr>" s]
    by (auto simp: inv_but_def table_ok_def taken_ok_def ids_ok_def counts_ok_def on_conn_def ended_ok_def)
  show "\<And>c t b. taken s c \<noteq> Some (p, t, b)" using i assms(2) by (fastforce simp: taken_ok_def)
qed

lemma table_filter:
  assumes "table_ok s" "map_of (reqtab s) i = Some p"
  obtains pre post where "reqtab s = pre @ (i, p) # post" "filter (\<lambda>(j, _). j \<noteq> i) (reqtab s) = pre @ post" "p \<notin> snd ` set (pre @ post)"
proof -
  obtain pre post where t: "reqtab s = pre @ (i, p) # post" using map_of_SomeD [OF assms(2)] by (auto dest: split_list)
  have "i \<notin> fst ` set pre" "i \<notin> fst ` set post" "p \<notin> snd ` set (pre @ post)" using assms(1) t by (auto simp: table_ok_def)
  moreover from this have "filter (\<lambda>(j, _). j \<noteq> i) pre = pre" "filter (\<lambda>(j, _). j \<noteq> i) post = post" by (force simp: filter_id_conv)+
  ultimately show ?thesis using that t by simp
qed

lemma table_filter_none: "map_of tab i = None \<Longrightarrow> filter (\<lambda>(j, _). j \<noteq> i) tab = tab"
  by (force simp: filter_id_conv map_of_eq_None_iff)

lemma map_of_table:
  assumes "inv_but tr p n s" "sq_heap s p = Some q"
  shows "map_of (reqtab s) (sq_id q) = (if p \<in> snd ` set (reqtab s) then Some p else None)"
proof -
  have t: "table_ok s" and ids: "\<And>p' q'. sq_heap s p' = Some q' \<Longrightarrow> sq_id q' = sq_id q \<Longrightarrow> p' = p"
    using assms by (auto simp: inv_but_def ids_ok_def)
  show ?thesis
  proof (cases "map_of (reqtab s) (sq_id q)")
    case None
    then have "p \<notin> snd ` set (reqtab s)" using t assms(2) by (force simp: table_ok_def map_of_eq_None_iff)
    with None show ?thesis by simp
  next
    case (Some p')
    then have "(sq_id q, p') \<in> set (reqtab s)" by (rule map_of_SomeD)
    then show ?thesis using t ids Some by (force simp: table_ok_def)
  qed
qed

section \<open>The steps keep the invariant\<close>

lemma pos_step:
  assumes "inv_but tr p n s" "allowed (Some t) (place s p) (sq_heap s p)" "\<And>i w. t = Sp_Sending i w \<Longrightarrow> \<exists>q. sq_heap s p = Some q \<and> sq_id q = i"
  shows "session_inv tr n (set_pos p t s)"
  using inv_but_pos [OF assms(1,3)] assms(2) place_cong [of "set_pos p t s" s] by (simp add: session_inv_but [of tr n _ p])

lemma end_step:
  assumes "inv_but tr p n s" "sq_heap s p = Some q" "place s p = Outside" "senders s p = Some t" "allowed (Some t) Outside None"
  shows "end_request p s = Ret (after_end p q s)" "session_inv tr n (after_end p q s)"
  using inv_but_end [OF assms(1-3)] assms(2-5) end_request_eq place_cong [of "after_end p q s" s] by (simp_all add: session_inv_but [of tr n _ p])

lemma error_step:
  assumes "inv_but tr p n s" "sq_heap s p = Some q" "place s p = Outside"
  shows "\<exists>s'. send_error p w e s = Ret s' \<and> session_inv tr n s'"
proof -
  let ?s1 = "put_req p (set_error e q) s"
  have "buf_wf (rq_reply (sq_rq q))" using assms(1,2) by (auto simp: inv_but_def ids_ok_def)
  moreover have "reply_came tr q" using inv_butD(6) [OF assms(1)] assms(2) by (auto simp: history_but_def replies_ok_def)
  ultimately have 1: "inv_but tr p n ?s1" using inv_but_put [OF assms(1,2), of "set_error e q"] by simp
  have 2: "place ?s1 p = Outside" using assms(3) place_cong [of ?s1 s] by simp
  show ?thesis
  proof (cases w)
    case True
    then show ?thesis using pos_step [OF 1, of Sp_Failed] 2 assms(2) by (simp add: send_error_def get_req_def)
  next
    case False
    have "place (set_pos p Sp_Done ?s1) p = Outside" using 2 place_cong [of "set_pos p Sp_Done ?s1" ?s1] by simp
    then show ?thesis
      using False end_step [OF inv_but_pos [OF 1, of Sp_Done], of "set_error e q" Sp_Done] assms(2) by (simp add: send_error_def get_req_def)
  qed
qed

lemma insert_step:
  assumes "inv_but tr p n s" "sq_heap s p = Some q" "place s p = Outside" "idle q"
  shows "\<exists>s'. send_insert p s = Ret s' \<and> session_inv tr n s'"
proof -
  have new: "p \<notin> snd ` set (reqtab s)" "\<And>c t b. taken s c \<noteq> Some (p, t, b)" using assms(3) by (auto simp: place_simps)
  have "map_of (reqtab s) (sq_id q) = None" using map_of_table [OF assms(1,2)] new by simp
  then have tab: "filter (\<lambda>(i, _). i \<noteq> sq_id q) (reqtab s) = reqtab s" "sq_id q \<notin> fst ` set (reqtab s)"
    by (simp_all add: table_filter_none map_of_eq_None_iff)
  let ?s1 = "s\<lparr>reqtab := (sq_id q, p) # reqtab s\<rparr>"
  have "place ?s1 p' = place s p'" if "p' \<noteq> p" for p' using that by (auto simp: place_def)
  then have "inv_but tr p n ?s1"
    using assms(1,2) new tab(2) history_but_cong [of ?s1 s]
    by (auto simp: inv_but_def table_ok_def taken_ok_def ids_ok_def counts_ok_def on_conn_def ended_ok_def)
  then have "session_inv tr n (set_pos p (Sp_Sending (sq_id q) (sq_want q)) ?s1)"
    using pos_step [of tr p n ?s1 "Sp_Sending (sq_id q) (sq_want q)"] assms(2,4) place_simps(1) [of ?s1 p] by simp
  then show ?thesis using assms(2) tab(1) by (simp add: send_insert_def get_req_def)
qed


lemma begun_Begin: "begun (tr @ [(Send_Begin p c w f l k, r)]) p' f' \<longleftrightarrow> begun tr p' f' \<or> p' = p \<and> f' = f"
  by (simp add: begun_def) blast

lemma new_request:
  assumes "session_inv tr n s" "senders s p = None" "Suc n < 2 ^ 32" "sq_id q = idctr s" "buf_wf (rq_reply (sq_rq q))"
    and "\<not> rq_replied (sq_rq q)"
    and "s' = s\<lparr>idctr := idctr s + 1, sq_heap := (sq_heap s)(p \<mapsto> q), req_counts := (req_counts s)(sq_conn q := req_counts s (sq_conn q) + 1)\<rparr>"
  shows "inv_but (tr @ [(Send_Begin p c w (sq_func q) l k, r)]) p (Suc n) s'" "place s' p = Outside"
proof -
  have old: "sq_heap s p = None" "place s p = Outside" using allowed_cases [OF assms(1), of p] assms(2) by (simp_all add: allowed_None)
  note i = assms(1) [unfolded session_inv_def]
  have pl: "place s' p' = place s p'" for p' using assms(7) by (intro place_cong) simp_all
  have id: "unat (idctr s) = n" using i assms(3) by (simp add: ids_ok_def unat_of_nat take_bit_nat_eq_self)
  have "table_ok s'" using i old(1) assms(7) by (auto simp: table_ok_def split_beta)
  moreover have "taken_ok s'" using i old assms(7) by (fastforce simp: taken_ok_def)
  moreover have "ids_ok (Suc n) s'"
  proof -
    have ne: "unat j < n \<Longrightarrow> j \<noteq> idctr s" for j using id by auto
    have ids: "ids_ok n s" using i by blast
    note lt = ids_okD(1,2) [OF ids] and snd = ids_okD(4) [OF ids] and uniq = ids_okD(3,5) [OF ids]
    have h: "sq_heap s' = (sq_heap s)(p \<mapsto> q)" "senders s' = senders s" "idctr s' = of_nat (Suc n)"
      using assms(7) i by (simp_all add: ids_ok_def)
    show ?thesis unfolding ids_ok_def h
    proof (intro conjI allI impI, simp)
      fix p' q' assume "((sq_heap s)(p \<mapsto> q)) p' = Some q'"
      then show "unat (sq_id q') < Suc n" "buf_wf (rq_reply (sq_rq q'))"
        using lt [of p' q'] id assms(4,5) by (auto split: if_splits)
    next
      fix p1 q1 p2 q2
      assume "((sq_heap s)(p \<mapsto> q)) p1 = Some q1 \<and> ((sq_heap s)(p \<mapsto> q)) p2 = Some q2 \<and> sq_id q1 = sq_id q2"
      then show "p1 = p2" using lt(1) [THEN ne, of p1 q1] lt(1) [THEN ne, of p2 q2] uniq(1) assms(4) by (auto split: if_splits)
    next
      fix p1 j w assume "senders s p1 = Some (Sp_Sending j w)"
      then show "unat j < Suc n" using snd by fastforce
      fix p2 q2 assume "((sq_heap s)(p \<mapsto> q)) p2 = Some q2 \<and> sq_id q2 = j"
      then show "p2 = p1" using \<open>senders s p1 = Some (Sp_Sending j w)\<close> snd [THEN ne, of p1 j w] uniq(2) assms(4) by (auto split: if_splits)
    qed
  qed
  moreover have "ended_ok s'" using i old(1) assms(2,7) by (auto simp: ended_ok_def)
  moreover have "counts_ok s'"
  proof -
    have 1: "on_conn s' c = (if c = sq_conn q then insert p (on_conn s c) else on_conn s c)" for c
      using old(1) assms(7) by (auto simp: on_conn_def)
    have c: "counts_ok s" using i by blast
    then have "finite (on_conn s c)" for c
      by (rule_tac finite_subset [of _ "dom (sq_heap s)"]) (auto simp: on_conn_def counts_ok_def)
    moreover have "p \<notin> on_conn s c" for c using old(1) by (simp add: on_conn_def)
    moreover have "req_counts s' = (req_counts s)(sq_conn q := req_counts s (sq_conn q) + 1)" "sq_heap s' = (sq_heap s)(p \<mapsto> q)"
      using assms(7) by simp_all
    ultimately show ?thesis using c by (simp add: counts_ok_def 1)
  qed
  moreover have "history_but (tr @ [(Send_Begin p c w (sq_func q) l k, r)]) p s'"
  proof -
    have h: "history_ok tr s" using i by blast
    then have "replies_ok (tr @ [(Send_Begin p c w (sq_func q) l k, r)]) s'"
      using old assms(6,7) by (fastforce simp: history_ok_def replies_ok_def reply_came_def came_def place_simps)
    moreover have "\<not> begun tr p f" for f using h assms(2) unfolding history_ok_def by blast
    moreover have "func_ok s p' f \<Longrightarrow> p' \<noteq> p \<Longrightarrow> func_ok s' p' f" for p' f using assms(7) by (simp add: func_ok_def)
    moreover have "func_ok s' p (sq_func q)" using assms(7) by (simp add: func_ok_def)
    moreover have "senders s' = senders s" using assms(7) by simp
    moreover have "senders s p' \<noteq> None" "func_ok s p' f" if "begun tr p' f" for p' f using h that unfolding history_ok_def by blast+
    ultimately show ?thesis unfolding history_but_def begun_Begin by (intro conjI allI impI; fastforce)
  qed
  ultimately show "inv_but (tr @ [(Send_Begin p c w (sq_func q) l k, r)]) p (Suc n) s'" using i pl assms(7) by (simp add: inv_but_def)
  show "place s' p = Outside" using pl old(2) by simp
qed

lemma inv_but_cong:
  assumes "sq_heap s' = sq_heap s" "reqtab s' = reqtab s" "taken s' = taken s" "senders s' = senders s" "idctr s' = idctr s"
    and "req_counts s' = req_counts s" "ended s' = ended s"
  shows "inv_but tr p n s' = inv_but tr p n s"
  using assms place_cong [of s' s] table_ok_cong [of s' s] taken_ok_cong [of s' s] ids_ok_cong [of s' s] counts_ok_cong [of s' s] history_but_cong [of s' s]
  by (simp add: inv_but_def ended_ok_def)

lemma inv_but_frame:
  assumes "inv_but tr p n s"
  shows "inv_but tr p n (s\<lparr>outstanding_len := l\<rparr>)" "inv_but tr p n (s\<lparr>started := st\<rparr>)"
  using assms inv_but_cong [of "s\<lparr>outstanding_len := l\<rparr>" s tr p n] inv_but_cong [of "s\<lparr>started := st\<rparr>" s tr p n] by simp_all

lemma begin_step:
  assumes "session_inv tr n s" "senders s p = None" "Suc n < 2 ^ 32"
  shows "\<exists>s'. send_begin p c want func len connect s = Ret s' \<and> session_inv (tr @ [(Send_Begin p c want func len connect, r)]) (Suc n) s'"
proof -
  let ?tr = "tr @ [(Send_Begin p c want func len connect, r)]"
  define q where "q = \<lparr>sq_id = idctr s, sq_len = len, sq_conn = c, sq_want = want, sq_func = func, sq_posted = False,
      sq_rq = \<lparr>rq_error = 0, rq_replied = False, rq_reply_type = 0, rq_reply = buf_init 0\<rparr>\<rparr>"
  define s2 where "s2 = s\<lparr>idctr := idctr s + 1, sq_heap := (sq_heap s)(p \<mapsto> q), req_counts := (req_counts s)(c := req_counts s c + 1)\<rparr>"
  have q: "idle q" "sq_id q = idctr s" "sq_conn q = c" "buf_wf (rq_reply (sq_rq q))" "\<not> rq_replied (sq_rq q)" "sq_func q = func"
    by (simp_all add: q_def idle_def buf_wf_def buf_init_def)
  have 2: "inv_but ?tr p (Suc n) s2" "place s2 p = Outside" "sq_heap s2 p = Some q"
    using new_request(1) [OF assms q(2,4,5), of s2 c want len connect r] new_request(2) [OF assms q(2,4,5), of s2] q(3,6) by (simp_all add: s2_def)
  have s2: "(put_req p q (s\<lparr>idctr := idctr s + 1\<rparr>))\<lparr>req_counts := (req_counts s)(c := req_counts s c + 1)\<rparr> = s2"
    by (simp add: s2_def put_req_def)
  obtain err s3 where 3: "start_processing_thread c connect s2 = (err, s3)" by fastforce
  have i3: "inv_but ?tr p (Suc n) s3" "place s3 p = Outside" "sq_heap s3 p = Some q"
    using 3 2 by (auto simp: start_processing_thread_def inv_but_frame place_def split: if_splits)
  let ?s4 = "s3\<lparr>outstanding_len := outstanding_len s3 + len\<rparr>"
  have i4: "inv_but ?tr p (Suc n) ?s4" "place ?s4 p = Outside" "sq_heap ?s4 p = Some q"
    using i3 inv_but_frame place_cong [of ?s4 s3] by simp_all
  have "send_begin p c want func len connect s =
      (if err \<noteq> 0 then send_error p want err s3
       else if outstanding_len ?s4 > max_outstanding_len ?s4 then Ret (set_pos p Sp_Waiting ?s4) else send_insert p ?s4)"
    using 3 by (simp add: send_begin_def sftp_get_id_def q_def [symmetric] s2)
  then show ?thesis
    using error_step [OF i3(1,3,2), of want err] insert_step [OF i4(1,3,2) q(1)] pos_step [OF i4(1), of Sp_Waiting] i4(2,3) q(1) by simp
qed

lemma fail_step:
  assumes "session_inv tr n s" "senders s p = Some (Sp_Sending i w)"
  shows "\<exists>s'. send_fail p i w s = Ret s' \<and> session_inv tr n s'"
proof -
  have b: "inv_but tr p n s" and t: "table_ok s" using assms(1) session_inv_but [of tr n s p] by (auto simp: session_inv_def)
  let ?s1 = "s\<lparr>reqtab := filter (\<lambda>(j, _). j \<noteq> i) (reqtab s)\<rparr>"
  consider (tab) q where "sq_heap s p = Some q" "place s p = In_Table" "sq_id q = i"
    | (out) q where "sq_heap s p = Some q" "place s p = Outside" "sq_id q = i" w
    | (gone) "sq_heap s p = None" "place s p = Outside" "\<not> w"
    using allowed_cases [OF assms(1), of p] assms(2) by (cases "place s p"; cases "sq_heap s p") auto
  then show ?thesis
  proof cases
    case tab
    then have m: "map_of (reqtab s) i = Some p" using map_of_table [OF b, of q] by (simp add: place_simps)
    then obtain pre post where p: "reqtab s = pre @ (i, p) # post" "?s1 = s\<lparr>reqtab := pre @ post\<rparr>" "p \<notin> snd ` set (pre @ post)"
      using table_filter [OF t m] by metis
    have "inv_but tr p n ?s1" "place ?s1 p = Outside" using inv_but_drop [OF b p(1)] p(2,3) by (simp_all add: place_simps)
    then show ?thesis using error_step [of tr p n ?s1 q w "- EIO"] tab(1) m by (simp add: send_fail_def Let_def)
  next
    case out
    then have m: "map_of (reqtab s) i = None" using map_of_table [OF b, of q] by (simp add: place_simps)
    then show ?thesis using error_step [OF b, of q w "- EIO"] out by (simp add: send_fail_def Let_def table_filter_none)
  next
    case gone
    show ?thesis
    proof (cases "map_of (reqtab s) i")
      case None
      then show ?thesis using gone pos_step [OF b, of Sp_Done] by (simp add: send_fail_def table_filter_none)
    next
      case (Some p')
      then have "\<exists>q. sq_heap s p' = Some q \<and> sq_id q = i" using t by (auto simp: table_ok_def dest: map_of_SomeD)
      then show ?thesis using ids_okD(5) [OF _ assms(2), of n p'] assms(1) gone(1) by (auto simp: session_inv_def)
    qed
  qed
qed


lemma take_step:
  assumes "session_inv tr n s" "taken s c = None" "reply_ok c buf s" "Reply_Take c typ buf \<in> fst ` set tr"
  shows "\<exists>r s'. take_request c typ buf s = Ret (r, s') \<and> session_inv tr n s'"
proof -
  obtain ident buf1 where g: "buf_get_uint32 buf = Ret (ident, buf1)" "buf_wf buf1"
    using getsD [OF gets_uint32] assms(3) unfolding reply_ok_def by metis
  show ?thesis
  proof (cases "\<exists>i p. ident = Some i \<and> map_of (reqtab s) i = Some p")
    case False
    then show ?thesis using g(1) assms(1) by (auto simp: take_request_def split: option.split)
  next
    case True
    then obtain i p where i: "ident = Some i" "map_of (reqtab s) i = Some p" by blast
    have b: "inv_but tr p n s" and t: "table_ok s" using assms(1) session_inv_but [of tr n s p] by (auto simp: session_inv_def)
    obtain q where q: "sq_heap s p = Some q" "sq_conn q = c" and w: "\<And>i w. senders s p \<noteq> Some (Sp_Sending i w)"
      using assms(3) g i by (auto simp: reply_ok_def answerable_def)
    obtain pre post where p: "reqtab s = pre @ (i, p) # post" "filter (\<lambda>(j, _). j \<noteq> i) (reqtab s) = pre @ post" "p \<notin> snd ` set (pre @ post)"
      using table_filter [OF t i(2)] by metis
    let ?s1 = "s\<lparr>reqtab := pre @ post\<rparr>"
    let ?s2 = "s\<lparr>outstanding_len := outstanding_len s - sq_len q, reqtab := pre @ post, taken := (taken s)(c := Some (p, typ, buf1))\<rparr>"
    note d = inv_but_drop [OF b p(1)]
    have pl: "place ?s2 p' = place ?s1 p'" if "p' \<noteq> p" for p' using that assms(2) unfolding place_def by (auto; force)
    have "taken_ok ?s2" using d p(3) q g(2) by (auto simp: inv_but_def taken_ok_def)
    moreover have "came tr (sq_id q) typ buf1"
      using g(1) i(1) assms(4) q(1) t p(1) by (auto simp: came_def table_ok_def)
    then have "history_but tr p ?s2"
      using inv_butD(6) [OF d(1)] q(1) unfolding history_but_def by (auto simp: replies_ok_def func_ok_def)
    ultimately have "inv_but tr p n ?s2"
      using d(1) pl table_ok_cong [of ?s2 ?s1] ids_ok_cong [of ?s2 ?s1] counts_ok_cong [of ?s2 ?s1] by (simp add: inv_but_def ended_ok_def)
    moreover have "place ?s2 p = Taken" "place s p = In_Table" using p by (auto simp: place_simps)
    moreover have "allowed (senders s p) Taken (Some q)"
      using allowed_cases [OF assms(1), of p] q(1) w calculation(3) by (auto simp: allowed_In_Table)
    moreover from this have "senders s p \<noteq> None" by (auto simp: allowed_Taken)
    ultimately have "session_inv tr n ?s2" using q(1) by (simp add: session_inv_but [of tr n _ p])
    then show ?thesis using g i q(1) p(2) by (simp add: take_request_def get_req_def)
  qed
qed

lemma hand_step:
  assumes "session_inv tr n s" "taken s c = Some (p, typ, buf)"
  shows "\<exists>s'. hand_over c p typ buf s = Ret s' \<and> session_inv tr n s'"
proof -
  have b: "inv_but tr p n s" using assms(1) session_inv_but [of tr n s p] by simp
  obtain q where q: "sq_heap s p = Some q" "sq_conn q = c" "buf_wf buf" "p \<notin> snd ` set (reqtab s)"
    using b assms(2) unfolding inv_but_def taken_ok_def by blast
  have other: "taken s c' \<noteq> Some (p, t, b')" if "c' \<noteq> c" for c' t b'
    using b q that unfolding inv_but_def taken_ok_def by force
  let ?s1 = "s\<lparr>taken := (taken s)(c := None)\<rparr>"
  have pl: "place ?s1 p' = place s p'" if "p' \<noteq> p" for p' using that assms(2) unfolding place_def by (auto; force)
  have out: "place ?s1 p = Outside" using q(4) other by (auto simp: place_simps)
  have "taken_ok ?s1" using inv_butD(2) [OF b] by (auto simp: taken_ok_def)
  moreover have "history_but tr p ?s1"
    using inv_butD(6) [OF b] unfolding history_but_def by (auto simp: replies_ok_def func_ok_def)
  ultimately have b1: "inv_but tr p n ?s1"
    using b pl table_ok_cong [of ?s1 s] ids_ok_cong [of ?s1 s] counts_ok_cong [of ?s1 s] by (simp add: inv_but_def ended_ok_def)
  have "came tr (sq_id q) typ buf" using inv_butD(6) [OF b] q(1) assms(2) unfolding history_but_def replies_ok_def by blast
  then have rc: "reply_came tr (q\<lparr>sq_rq := (sq_rq q)\<lparr>rq_replied := True, rq_reply_type := typ, rq_reply := buf\<rparr>\<rparr>)" by (simp add: reply_came_def)
  define q1 where "q1 = q\<lparr>sq_rq := (sq_rq q)\<lparr>rq_replied := True, rq_reply_type := typ, rq_reply := buf\<rparr>\<rparr>"
  have "place s p = Taken" using q(4) assms(2) by (auto simp: place_simps)
  then obtain t where t: "senders s p = Some t" "sq_want q \<Longrightarrow> t = Sp_Written True \<or> t = Sp_Returned"
      "\<not> sq_want q \<Longrightarrow> t = Sp_Written False \<or> t = Sp_Done"
    using allowed_cases [OF assms(1), of p] q(1) by (auto simp: allowed_Taken)
  show ?thesis
  proof (cases "sq_want q")
    case True
    have "inv_but tr p n (put_req p (q1\<lparr>sq_posted := True\<rparr>) ?s1)" by (rule inv_but_put [OF b1, of q]) (use q rc in \<open>simp_all add: q1_def\<close>)
    moreover have "place (put_req p (q1\<lparr>sq_posted := True\<rparr>) ?s1) p = Outside" using out by (simp add: place_simps)
    moreover have "sq_want q1" using True by (simp add: q1_def)
    ultimately have "session_inv tr n (put_req p (q1\<lparr>sq_posted := True\<rparr>) ?s1)"
      using t(1) t(2) [OF True] by (auto simp: session_inv_but [of tr n _ p] wait_over_def)
    then show ?thesis using True q(1) by (simp add: hand_over_def get_req_def q1_def)
  next
    case False
    have 1: "inv_but tr p n (put_req p q1 ?s1)" by (rule inv_but_put [OF b1, of q]) (use q rc in \<open>simp_all add: q1_def\<close>)
    have "place (put_req p q1 ?s1) p = Outside" using out by (simp add: place_simps)
    then show ?thesis
      using end_step [OF 1, of q1 t] t(1) t(3) [OF False] False q(1) by (auto simp: hand_over_def get_req_def q1_def)
  qed
qed


lemma give_up_step:
  assumes "session_inv tr n s" "senders s p = Some Sp_Returned"
  shows "\<exists>s'. give_up p s = Ret s' \<and> session_inv tr n s'"
proof -
  have b: "inv_but tr p n s" using assms(1) session_inv_but [of tr n s p] by simp
  obtain q where q: "sq_heap s p = Some q" "sq_want q" "place s p \<noteq> Outside \<Longrightarrow> idle q"
    using allowed_cases [OF assms(1), of p] assms(2) by (cases "place s p"; cases "sq_heap s p") auto
  let ?s1 = "put_req p (q\<lparr>sq_want := False\<rparr>) s"
  have 1: "inv_but tr p n ?s1" by (rule inv_but_put [OF b q(1)]) (use q(1) inv_butD(3,6) [OF b] in \<open>auto simp: history_but_def replies_ok_def dest: ids_okD(2)\<close>)
  show ?thesis
  proof (cases "place s p = In_Table")
    case True
    then have "allowed (Some Sp_Done) (place ?s1 p) (sq_heap ?s1 p)" using q place_cong [of ?s1 s] by (simp add: idle_def)
    then have "session_inv tr n (set_pos p Sp_Done ?s1)" by (intro pos_step [OF 1]) simp_all
    then show ?thesis using True q(1) map_of_table [OF b q(1)] by (simp add: give_up_def get_req_def sshfs_req_pending_def place_simps)
  next
    case False
    then show ?thesis using assms(1) q(1) map_of_table [OF b q(1)] by (simp add: give_up_def get_req_def sshfs_req_pending_def place_simps)
  qed
qed

lemma request_wait_defined:
  assumes "buf_wf (rq_reply req)"
  shows "\<exists>r. sftp_request_wait e req typ expect_type = Ret r"
proof -
  obtain serr buf' where "buf_get_uint32 (rq_reply req) = Ret (serr, buf')" using getsD [OF gets_uint32 assms] by metis
  then show ?thesis using wf_get_mem_all [OF assms] by (auto simp: sftp_request_wait_def Let_def buf_init_def)
qed

lemma wait_step:
  assumes "session_inv tr n s" "session_enabled (Wait_End p typ expect) s"
  shows "\<exists>r s'. wait_end p typ expect s = Ret (r, s') \<and> session_inv tr n s'"
proof -
  have b: "inv_but tr p n s" using assms(1) session_inv_but [of tr n s p] by simp
  have "place s p = Outside \<and> sq_heap s p \<noteq> None"
    using allowed_cases [OF assms(1), of p] assms(2) by (cases "place s p"; cases "sq_heap s p") (auto simp: wait_over_def idle_def)
  then obtain q where q: "sq_heap s p = Some q" "place s p = Outside" by blast
  have "buf_wf (rq_reply (sq_rq q))" using inv_butD(3) [OF b] q(1) by (rule ids_okD)
  then obtain r where r: "sftp_request_wait (rq_error (sq_rq q)) (sq_rq q) typ expect = Ret r" using request_wait_defined by blast
  have "inv_but tr p n (after_end p q s)" using inv_but_end [OF b q] assms(2) by auto
  then have "session_inv tr n (set_pos p Sp_Done (after_end p q s))"
    by (intro pos_step) (use q(2) place_cong [of "after_end p q s" s] in simp_all)
  then show ?thesis using q(1) r end_request_eq [OF q(1)] by (simp add: wait_end_def get_req_def)
qed

text \<open>Cleaning: the entries looked at so far that stay, and the ones still to come, are the table.\<close>

lemma reqtab_simps:
  "put_req p q (s\<lparr>reqtab := t\<rparr>) = (put_req p q s)\<lparr>reqtab := t\<rparr>" "after_end p q (s\<lparr>reqtab := t\<rparr>) = (after_end p q s)\<lparr>reqtab := t\<rparr>"
  by (simp_all add: put_req_def after_end_def)

lemma clean_reqs_inv:
  assumes "session_inv tr n (s\<lparr>reqtab := pre @ tab\<rparr>)"
  shows "\<exists>kept s'. clean_reqs c tab s = Ret (kept, s') \<and> session_inv tr n (s'\<lparr>reqtab := pre @ kept\<rparr>)"
  using assms
proof (induction tab arbitrary: pre s)
  case (Cons e tab)
  obtain i p where e: "e = (i, p)" by fastforce
  let ?s = "s\<lparr>reqtab := pre @ e # tab\<rparr>"
  have b: "inv_but tr p n ?s" using Cons.prems session_inv_but [of tr n ?s p] by simp
  then obtain q where q: "sq_heap s p = Some q" using e by (auto simp: inv_but_def table_ok_def)
  have "p \<in> snd ` set (reqtab ?s)" using e by force
  then have tp: "place ?s p = In_Table" by (simp only: place_simps)
  then have al: "allowed (senders s p) In_Table (Some q)" using allowed_cases [OF Cons.prems, of p] q by simp
  note d = inv_but_drop [OF b, of pre i tab]
  have b1: "inv_but tr p n (s\<lparr>reqtab := pre @ tab\<rparr>)" using d(1) e by simp
  have out: "place (s\<lparr>reqtab := pre @ tab\<rparr>) p = Outside" using d(2) inv_butD(1) [OF b] e by (auto simp: place_simps table_ok_def)
  have wf: "buf_wf (rq_reply (sq_rq q))" using ids_okD(2) [OF inv_butD(3) [OF b1]] q by simp
  have rc: "reply_came tr q" using inv_butD(6) [OF b1] q by (auto simp: history_but_def replies_ok_def)
  let ?q = "set_error (- EIO) q"
  consider (other) "sq_conn q \<noteq> c" | (want) "sq_conn q = c" "sq_want q" | (free) "sq_conn q = c" "\<not> sq_want q" by blast
  then show ?case
  proof cases
    case other
    then show ?thesis using Cons.IH [of "pre @ [e]" s] Cons.prems q e by (auto simp: get_req_def)
  next
    case want
    let ?s1 = "put_req p (?q\<lparr>sq_posted := True\<rparr>) s"
    have "inv_but tr p n (?s1\<lparr>reqtab := pre @ tab\<rparr>)"
      using inv_but_put [OF b1, of q "?q\<lparr>sq_posted := True\<rparr>"] q wf rc by (simp add: reqtab_simps)
    moreover have "place (?s1\<lparr>reqtab := pre @ tab\<rparr>) p = Outside" using out by (simp add: place_simps)
    moreover have "allowed (senders s p) Outside (Some (?q\<lparr>sq_posted := True\<rparr>))" using al want(2) by (auto simp: allowed_In_Table allowed_Taken wait_over_def)
    moreover have "senders s p \<noteq> None" using al by (auto simp: allowed_In_Table allowed_Taken)
    ultimately have "session_inv tr n (?s1\<lparr>reqtab := pre @ tab\<rparr>)" by (simp add: session_inv_but [of tr n _ p])
    then show ?thesis using Cons.IH [of pre ?s1] want q e by (simp add: get_req_def)
  next
    case free
    let ?s1 = "put_req p ?q s"
    have "inv_but tr p n (?s1\<lparr>reqtab := pre @ tab\<rparr>)" using inv_but_put [OF b1, of q ?q] q wf rc by (simp add: reqtab_simps)
    moreover have "place (?s1\<lparr>reqtab := pre @ tab\<rparr>) p = Outside" using out by (simp add: place_simps)
    moreover obtain t where t: "senders s p = Some t" "allowed (Some t) Outside None" using al free(2) by (auto simp: allowed_In_Table allowed_Taken)
    ultimately have "session_inv tr n (after_end p ?q (?s1\<lparr>reqtab := pre @ tab\<rparr>))"
      using end_step(2) [of tr p n "?s1\<lparr>reqtab := pre @ tab\<rparr>" ?q t] by simp
    then have "session_inv tr n ((after_end p ?q ?s1)\<lparr>reqtab := pre @ tab\<rparr>)" by (simp add: reqtab_simps)
    then show ?thesis using Cons.IH [of pre "after_end p ?q ?s1"] free q e end_request_eq [of ?s1 p ?q] by (simp add: get_req_def)
  qed
qed simp

lemma session_inv_cong:
  assumes "sq_heap s' = sq_heap s" "reqtab s' = reqtab s" "taken s' = taken s" "senders s' = senders s" "idctr s' = idctr s"
    and "req_counts s' = req_counts s" "ended s' = ended s"
  shows "session_inv tr n s' = session_inv tr n s"
  using inv_but_cong [OF assms] place_cong [OF assms(2,3)] assms by (simp add: session_inv_but [of tr n _ undefined])

lemma conn_end_step:
  assumes "session_inv tr n s"
  shows "\<exists>s'. process_end c s = Ret s' \<and> session_inv tr n s'"
proof -
  let ?s = "s\<lparr>started := (started s)(c := False)\<rparr>"
  have "session_inv tr n (?s\<lparr>reqtab := [] @ reqtab s\<rparr>)" using assms session_inv_cong [of "?s\<lparr>reqtab := [] @ reqtab s\<rparr>" s] by simp
  then obtain kept s1 where k: "clean_reqs c (reqtab s) ?s = Ret (kept, s1)" "session_inv tr n (s1\<lparr>reqtab := kept\<rparr>)"
    using clean_reqs_inv [where tr = tr and s = ?s and pre = "[]" and tab = "reqtab s" and c = c and n = n] by auto
  let ?s2 = "s1\<lparr>reqtab := kept, connvers := connvers s1 + 1, conn_vers := (conn_vers s1)(c := connvers s1 + 1), outstanding_len := 0\<rparr>"
  have "session_inv tr n ?s2" using k(2) session_inv_cong [of ?s2 "s1\<lparr>reqtab := kept\<rparr>"] by simp
  then show ?thesis using k(1) by (simp add: process_end_def)
qed


lemma session_inv_mono:
  assumes "session_inv tr n s" "\<And>p c w f l k. x \<noteq> Send_Begin p c w f l k"
  shows "session_inv (tr @ [(x, r)]) n s"
proof -
  have "came (tr @ [(x, r)]) i t b" if "came tr i t b" for i t b using that by (auto simp: came_def)
  then have "replies_ok (tr @ [(x, r)]) s" if "replies_ok tr s" using that unfolding replies_ok_def reply_came_def by fast
  moreover have "begun (tr @ [(x, r)]) p f = begun tr p f" for p f using assms(2) unfolding begun_def by (simp, metis)
  ultimately show ?thesis using assms(1) by (simp add: session_inv_def history_ok_def)
qed

lemma session_step_inv:
  assumes "session_inv tr n s" "Suc n < 2 ^ 32" "session_enabled x s"
  shows "\<exists>r s' n'. session_step x s = Ret (r, s') \<and> session_inv (tr @ [(x, r)]) n' s' \<and> n' \<le> Suc n"
proof (cases x)
  case (Send_Begin p c want func len connect)
  then show ?thesis using begin_step [OF assms(1) _ assms(2), where p = p and c = c and want = want and func = func and len = len and connect = connect and r = None] assms(3) by (auto intro!: exI [of _ "Suc n"])
next
  case (Send_Wake p)
  have "session_inv tr n s" "inv_but tr p n s" using assms(1) session_inv_but [of tr n s p] by simp_all
  moreover obtain q where "sq_heap s p = Some q" "place s p = Outside" "idle q"
    using allowed_cases [OF assms(1), of p] assms(3) Send_Wake by (cases "place s p"; cases "sq_heap s p") auto
  ultimately show ?thesis using insert_step [of tr p n s q] Send_Wake by (auto intro!: exI [of _ n] session_inv_mono)
next
  case (Send_Written p)
  then obtain i w where w: "senders s p = Some (Sp_Sending i w)" using assms(3) by auto
  have "allowed (Some (Sp_Written w)) (place s p) (sq_heap s p)"
    using allowed_cases [OF assms(1), of p] w by (cases "place s p"; cases "sq_heap s p") auto
  then have "session_inv tr n (set_pos p (Sp_Written w) s)" by (rule_tac pos_step) (use assms(1) session_inv_but [of tr n s p] in simp_all)
  then show ?thesis using Send_Written w by (auto intro!: exI [of _ n] session_inv_mono)
next
  case (Send_Return p)
  then obtain w where w: "senders s p = Some (Sp_Written w)" using assms(3) by auto
  have "allowed (Some (if w then Sp_Returned else Sp_Done)) (place s p) (sq_heap s p)"
    using allowed_cases [OF assms(1), of p] w by (cases "place s p"; cases "sq_heap s p"; cases w) auto
  then have "session_inv tr n (set_pos p (if w then Sp_Returned else Sp_Done) s)"
    by (rule_tac pos_step) (use assms(1) session_inv_but [of tr n s p] in \<open>auto split: if_splits\<close>)
  then show ?thesis using Send_Return w by (auto intro!: exI [of _ n] session_inv_mono)
next
  case (Send_Fail p)
  then show ?thesis using fail_step [OF assms(1), of p] assms(3) by (auto intro!: exI [of _ n] session_inv_mono)
next
  case (Reply_Take c t buf)
  then show ?thesis using take_step [OF session_inv_mono [OF assms(1), of x None], of c buf t] assms(3) by (auto intro!: exI [of _ n] session_inv_mono)
next
  case (Reply_Hand c)
  then show ?thesis using hand_step [OF assms(1), of c] assms(3) by (auto intro!: exI [of _ n] session_inv_mono)
next
  case (Conn_End c)
  then show ?thesis using conn_end_step [OF assms(1), of c] by (auto intro!: exI [of _ n] session_inv_mono)
next
  case (Give_Up p)
  then show ?thesis using give_up_step [OF assms(1), of p] assms(3) by (auto intro!: exI [of _ n] session_inv_mono)
next
  case (Wait_End p t expect)
  then show ?thesis using wait_step [OF assms(1), of p t expect] assms(3) by (auto intro!: exI [of _ n] session_inv_mono)
qed

lemma session_run_inv: "session_run m tr s \<Longrightarrow> length tr < 2 ^ 32 \<Longrightarrow> \<exists>n \<le> length tr. session_inv tr n s"
proof (induction rule: session_run.induct)
  case run_init
  then show ?case using session_init_inv by auto
next
  case (run_step tr s x r s')
  then obtain n where n: "n \<le> length tr" "session_inv tr n s" by auto
  then have "Suc n < 2 ^ 32" using run_step.prems by simp
  from session_step_inv [OF n(2) this run_step.hyps(2)] obtain n' where "session_inv (tr @ [(x, r)]) n' s'" "n' \<le> Suc n"
    using run_step.hyps(3) by auto
  then show ?case using n(1) by (intro exI [of _ n']) simp
qed


section \<open>Properties\<close>



text \<open>
  C15. Replies reach their requests: the reply that a request has, while it is in memory or when its end function is called, is the rest
  of a message that came with the number of the request; and no two requests in memory have the same number.
\<close>

theorem sftp_replies_match:
  assumes "session_run m tr s" "length tr < 2 ^ 32"
  shows "(\<forall>p q. (sq_heap s p = Some q \<or> (p, q) \<in> set (ended s)) \<and> rq_replied (sq_rq q) \<longrightarrow>
      (\<exists>c buf. Reply_Take c (rq_reply_type (sq_rq q)) buf \<in> fst ` set tr \<and> buf_get_uint32 buf = Ret (Some (sq_id q), rq_reply (sq_rq q)))) \<and>
    (\<forall>p q p' q'. sq_heap s p = Some q \<and> sq_heap s p' = Some q' \<and> sq_id q = sq_id q' \<longrightarrow> p = p')"
proof -
  obtain n where i: "session_inv tr n s" using session_run_inv [OF assms] by blast
  then have "replies_ok tr s" "ids_ok n s" by (auto simp: session_inv_def history_ok_def)
  then show ?thesis by (fastforce simp: replies_ok_def reply_came_def came_def ids_ok_def)
qed

section \<open>Examples\<close>

text \<open>A run of given steps.\<close>

fun run_ops :: "session_op list \<Rightarrow> session \<Rightarrow> (session_trace \<times> session) option" where
  "run_ops [] s = Some ([], s)"
| "run_ops (x # xs) s =
     (if session_enabled x s then
        case session_step x s of Ret (r, s1) \<Rightarrow> map_option (\<lambda>(tr, s2). ((x, r) # tr, s2)) (run_ops xs s1) | _ \<Rightarrow> None
      else None)"

lemma run_ops_run: "run_ops xs s = Some (tr', s') \<Longrightarrow> session_run m tr s \<Longrightarrow> session_run m (tr @ tr') s' \<and> map fst tr' = xs"
proof (induction xs arbitrary: s tr tr')
  case (Cons x xs)
  then obtain r s1 tr1 where 1: "session_enabled x s" "session_step x s = Ret (r, s1)" "run_ops xs s1 = Some (tr1, s')" "tr' = (x, r) # tr1"
    by (auto split: if_splits cres.splits)
  have "session_run m (tr @ [(x, r)]) s1" using Cons.prems(2) 1(1,2) by (rule run_step)
  from Cons.IH [OF 1(3) this] show ?case using 1(4) by simp
qed simp

definition reply_to :: "u32 \<Rightarrow> buffer" where
  "reply_to i = \<lparr>bp = htonl i @ htonl SSH_FX_OK, blen = 0, bsize = 8\<rparr>"

lemma reply_to_simps [simp]:
  "buf_wf (reply_to i)" "buf_get_uint32 (reply_to i) = Ret (Some i, (reply_to i)\<lparr>blen := 4\<rparr>)"
  by (simp_all add: reply_to_def buf_wf_def buf_get_uint32_def get_then_def buf_get_mem_def buf_check_get_def htonl_def ntohl_htonl [unfolded htonl_def])

lemmas run_simps = session_init_def send_begin_def sftp_get_id_def start_processing_thread_def put_req_def set_pos_def send_insert_def get_req_def
  take_request_def hand_over_def end_request_def request_free_def process_end_def set_error_def reply_ok_def answerable_def wait_over_def


text \<open>One request that is answered, and whose caller then waits for it.\<close>

definition answered_ops :: "session_op list" where
  "answered_ops = [Send_Begin 7 0 True True 20 0, Send_Written 7, Send_Return 7, Reply_Take 0 SSH_FXP_STATUS (reply_to 0), Reply_Hand 0]"

lemma answered_run:
  "\<exists>tr s. session_run 100 tr s \<and> map fst tr = answered_ops \<and> sq_heap s = [7 \<mapsto> \<lparr>sq_id = 0, sq_len = 20, sq_conn = 0, sq_want = True, sq_func = True,
     sq_posted = True, sq_rq = \<lparr>rq_error = 0, rq_replied = True, rq_reply_type = SSH_FXP_STATUS, rq_reply = (reply_to 0)\<lparr>blen := 4\<rparr>\<rparr>\<rparr>] \<and>
     senders s = [7 \<mapsto> Sp_Returned] \<and> reqtab s = [] \<and> ended s = [] \<and> (\<forall>c. taken s c = None)"
proof -
  have "\<exists>tr s. run_ops answered_ops (session_init 100) = Some (tr, s) \<and> sq_heap s = [7 \<mapsto> \<lparr>sq_id = 0, sq_len = 20, sq_conn = 0, sq_want = True, sq_func = True,
     sq_posted = True, sq_rq = \<lparr>rq_error = 0, rq_replied = True, rq_reply_type = SSH_FXP_STATUS, rq_reply = (reply_to 0)\<lparr>blen := 4\<rparr>\<rparr>\<rparr>] \<and>
     senders s = [7 \<mapsto> Sp_Returned] \<and> reqtab s = [] \<and> ended s = [] \<and> (\<forall>c. taken s c = None)"
    by (simp add: answered_ops_def run_simps ex_bool_eq)
  then show ?thesis using run_ops_run [OF _ run_init] by (metis append_Nil)
qed



theorem sftp_replies_match_witness:
  "\<exists>tr s c buf. session_run 100 tr s \<and> map fst tr = answered_ops \<and> Reply_Take c SSH_FXP_STATUS buf \<in> fst ` set tr \<and>
     buf_get_uint32 buf = Ret (Some 0, (reply_to 0)\<lparr>blen := 4\<rparr>)"
proof -
  obtain tr s q where r: "session_run 100 tr s" "map fst tr = answered_ops" "sq_heap s 7 = Some q"
    and q: "rq_replied (sq_rq q)" "sq_id q = 0" "rq_reply_type (sq_rq q) = SSH_FXP_STATUS" "rq_reply (sq_rq q) = (reply_to 0)\<lparr>blen := 4\<rparr>"
    using answered_run by fastforce
  have l: "length tr < 2 ^ 32" using arg_cong [OF r(2), of length] by (simp add: answered_ops_def)
  from sftp_replies_match [OF r(1) l, THEN conjunct1, rule_format, of 7 q] show ?thesis using r q by auto
qed

text \<open>
  The length that is outstanding is set to zero when a connection ends, also when a request waits to be sent whose length is in it. When that
  request goes out on the next connection and is answered, the length wraps around: then nothing is under way, and yet every
  shorter request waits.
\<close>

definition wrap_ops :: "session_op list" where
  "wrap_ops = [Send_Begin 1 0 False False 60 0, Send_Begin 2 0 False False 60 0, Conn_End 0, Send_Fail 1, Send_Begin 3 0 False False 20 0,
     Send_Written 3, Send_Return 3, Reply_Take 0 SSH_FXP_STATUS (reply_to 2), Reply_Hand 0,
     Send_Wake 2, Send_Written 2, Send_Return 2, Reply_Take 0 SSH_FXP_STATUS (reply_to 1), Reply_Hand 0]"

lemma outstanding_wraps:
  "\<exists>tr s. session_run 100 tr s \<and> sq_heap s = Map.empty \<and> reqtab s = [] \<and> outstanding_len s = - 60 \<and> max_outstanding_len s < outstanding_len s"
proof -
  have "\<exists>tr s. run_ops wrap_ops (session_init 100) = Some (tr, s) \<and> sq_heap s = Map.empty \<and> reqtab s = [] \<and> outstanding_len s = - 60 \<and>
      max_outstanding_len s < outstanding_len s"
    by (simp add: wrap_ops_def run_simps send_fail_def ex_bool_eq)
  then show ?thesis using run_ops_run [OF _ run_init] by (metis append_Nil)
qed


end
