(* ===== verification/Spec2Isabelle.thy ===== *)
theory Spec2Isabelle
  imports Usfs_Libraries Hdfs_Transport Sshfs_Cache Sshfs_Ops Sshfs_Session
begin

text \<open>
  Verification of defuse: file systems in user space that run inside the process which uses them.

  \<^bold>\<open>The program.\<close> \<^verbatim>\<open>lddefuse\<close> is a library that is loaded before the C library and redefines its file functions. Each of
  them looks the path or the descriptor up in \<^verbatim>\<open>libdefuse\<close>: a path below a defuse mount and a descriptor that was opened there go
  to \<^verbatim>\<open>libdefuse\<close>'s own operations, everything else to the real function. \<^verbatim>\<open>libdefuse\<close> finds the mounts in
  \<^verbatim>\<open>/proc/mounts\<close>, loads the file-system library that each one names, keeps a table from descriptors to open handles, and saves the table
  in a shared file before the process executes another program, which restores it. The file-system libraries under
  \<^verbatim>\<open>usfs_wrap\<close> provide the \<^verbatim>\<open>usfs_\<close> functions: a library that passes every call on to a directory, AVFS, CRUISE, sshfs and HDFS.

  \<^bold>\<open>Conventions.\<close> A C function is a HOL function whose result is of type \<open>cres\<close>: a value, leaving the process, or undefined behaviour of
  a named kind (an access outside an array, a null pointer, memory that was freed or never set, an assertion that is false, a loop that
  does not end). State is passed explicitly; where the code depends on aliasing, memory is a map from addresses. Numbers have the width
  of the source: \<open>w word\<close>, or \<open>int\<close> and \<open>nat\<close> with the wrap-around written out. Code outside of the repository (the kernel, the C library,
  AVFS, CRUISE, the generated protobuf functions, the servers of HDFS and sftp, two instructions of the processor) is an argument of the
  definitions; what a theorem needs of it is a named hypothesis, and the witness of the theorem has an instance of it. An assertion that is
  false counts as undefined also where the Makefile turns assertions off, as it does for the HDFS library.

  \<^bold>\<open>Shared theories.\<close> \<^verbatim>\<open>Defuse_Prelude\<close>: the result type, the locales \<open>simulation\<close> and \<open>data_refinement\<close>, whose lemmas carry a step-wise
  refinement over to runs, arrays, error numbers. \<^verbatim>\<open>C_Strings\<close>: NUL-terminated strings in buffers and the functions of \<^verbatim>\<open>string.h\<close>.
  \<^verbatim>\<open>Byte_Codec\<close>: integers as bytes. \<^verbatim>\<open>External\<close>: the system calls and the interface of a file-system library.

  \<^bold>\<open>libdefuse.\<close>
  \<^item> \<^verbatim>\<open>File_Handles\<close> models the table of \<^verbatim>\<open>libdefuse/file_handles.c\<close> with its heap of counted nodes, and the function of
    \<^verbatim>\<open>musl/src/defuse/file_handles.c\<close> that differs; \<^verbatim>\<open>Descriptor_Table\<close> shows that any sequence of insertions, removals and duplications
    refines the same operations on a partial map, and where it does not.
  \<^item> \<^verbatim>\<open>Mount_Points\<close> models \<^verbatim>\<open>mount_points.c\<close>: reading the mounts, loading libraries, and finding the mount of a path. What is
    loaded is the table that was printed into the file; the mount found is the first whose path is a prefix.
  \<^item> \<^verbatim>\<open>Shared_Space\<close> (\<^verbatim>\<open>shared_space.c\<close>) and \<^verbatim>\<open>Save_Restore\<close> (the rest of \<^verbatim>\<open>file_handles.c\<close>): what is saved is restored, and when
    not (more than the mapping holds, a mount that is gone, a removed handle).
  \<^item> \<^verbatim>\<open>Paths\<close> models \<^verbatim>\<open>util.c\<close>; resolving gives the path without dot components, and the buffer overflows exactly for paths that are too long.
  \<^item> \<^verbatim>\<open>Process\<close> puts the state together (\<^verbatim>\<open>libdefuse.h\<close>), and \<^verbatim>\<open>Syscall_Ops\<close> has the operations of \<^verbatim>\<open>open.c\<close>, \<^verbatim>\<open>close.c\<close>,
    \<^verbatim>\<open>read.c\<close>, \<^verbatim>\<open>write.c\<close>, \<^verbatim>\<open>seek.c\<close>, \<^verbatim>\<open>stat.c\<close>, \<^verbatim>\<open>access.c\<close>, \<^verbatim>\<open>unlink.c\<close>, \<^verbatim>\<open>truncate.c\<close>, \<^verbatim>\<open>sync.c\<close>, \<^verbatim>\<open>readlink.c\<close>: what is
    written is read back, reads are consecutive, opening and closing restore the table, and errors of the library become the
    C library's convention (locale \<open>errno_wrapper\<close>, interpreted for each operation).

  \<^bold>\<open>lddefuse.\<close> \<^verbatim>\<open>Lddefuse\<close> models \<^verbatim>\<open>fcntl.c\<close>, \<^verbatim>\<open>stat.c\<close>, \<^verbatim>\<open>unistd.c\<close>, \<^verbatim>\<open>glibc_ops.c\<close> and \<^verbatim>\<open>lddefuse.c\<close>: which function a call goes
  to, and that in a state the program can be in every redefined function returns.

  \<^bold>\<open>File-system libraries.\<close>
  \<^item> \<^verbatim>\<open>Usfs_Libraries\<close>: \<^verbatim>\<open>usfs_wrap.c\<close>, \<^verbatim>\<open>avfs_wrap.c\<close>, \<^verbatim>\<open>cruise_wrap.c\<close>. Through the first one a program sees what it would see in the
    directory itself; the other two lack functions that the loader asks for.
  \<^item> HDFS: \<^verbatim>\<open>Crc32c\<close> (\<^verbatim>\<open>crc32c.c\<close>; the tables, the three-way computation with the processor's instructions and a bitwise definition agree,
    through the locales \<open>crc_steps\<close> and \<open>crc_instructions\<close>), \<^verbatim>\<open>Varint\<close> (\<^verbatim>\<open>varint.c\<close>), \<^verbatim>\<open>Hadoop_Rpc\<close>, \<^verbatim>\<open>Hadoop_Packets\<close> and
    \<^verbatim>\<open>Hadoop_Transfer\<close> (\<^verbatim>\<open>hadooprpc.c\<close>: calls and packets; what is sent, that it is received again, when receiving ends),
    \<^verbatim>\<open>Hdfs_Protocol\<close> (the messages, the interface \<^verbatim>\<open>hadooprpc.h\<close> as a record of functions, connecting), \<^verbatim>\<open>Hdfs_Wrap\<close>
    (\<^verbatim>\<open>hdfs_wrap.c\<close>), \<^verbatim>\<open>Hdfs_Files\<close> (what appending, reading and the library's functions do to a file) and \<^verbatim>\<open>Hdfs_Transport\<close>
    (\<^verbatim>\<open>hadooprpc.c\<close> keeps what \<^verbatim>\<open>Hdfs_Files\<close> relies on).
  \<^item> sshfs: \<^verbatim>\<open>Sshfs_Cache\<close> (\<^verbatim>\<open>cache.c\<close>; the attribute cache refines a map with expiry times), and of \<^verbatim>\<open>sshfs_wrap.c\<close>
    \<^verbatim>\<open>Sshfs_Buffer\<close> (message fields: round trips, and parsing never leaves the buffer), \<^verbatim>\<open>Sshfs_Lists\<close> (the linked lists and the
    writes that a flush waits for, in any interleaving), \<^verbatim>\<open>Sshfs_Requests\<close> (messages over a connection that cuts them anywhere, the result
    of a request, the choice of a connection), \<^verbatim>\<open>Sshfs_Session\<close> (requests under way: threads that send, wait and read replies in any
    interleaving use no freed request, end each request once and get the reply that belongs to it), \<^verbatim>\<open>Sshfs_Symlinks\<close> and \<^verbatim>\<open>Sshfs_Ops\<close> (the operations that send one request after the other).

  \<^bold>\<open>Bounds and fuel.\<close> Loops that end are structural recursions or functions with a measure. Receiving packets is a partial function whose
  value is \<open>None\<close> when it does not return; the theorem on it says when it does. Writing to HDFS has fuel: one unit per block, one
  per wait for the name node, and one per call between writing and truncating; without fuel the result is undefined, and
  the theorem on appending shows that the number of blocks that the data needs, and the number of times that the name node asks to wait,
  are enough. The theorems on requests under way are for runs with fewer steps than there are request numbers, since the
  32-bit counter of the numbers wraps around. Buffers have the sizes of the source (\<^verbatim>\<open>PATH_MAX\<close>, sixteen mounts, the size of the shared file).

  \<^bold>\<open>Not modelled.\<close> Printing and logging. Of sshfs: starting ssh on a terminal, passwords, options and id files, which are process and terminal
  input and output; opening files, and reads and writes that are split into several requests, which use the request
  table as shown but whose buffers and read-ahead are left out. Of HDFS: the thread that renews the lease, and the messages that the code does not use. The kernel modules
  (\<^verbatim>\<open>defuse_module\<close>, \<^verbatim>\<open>defuse_wrap_module\<close>), which are tables of the kernel's own functions; the examples under \<^verbatim>\<open>fuse\<close>;
  the C library under \<^verbatim>\<open>musl\<close> but for the function named above; tests and measurements. Mutexes appear as the atomicity of the steps between
  them.
\<close>

end
